(* ===== verification/Prelude.thy ===== *)
theory Prelude
  imports Main "HOL-Library.Word" "HOL-Library.AList" "HOL-Library.Sublist"
begin

text \<open>
  Shared vocabulary of the development: Go's 64-bit integers and truncating division, byte
  slices, error values, association lists for Go maps that are iterated over, and the named
  collections of facts the component theories feed to the simplifier.

  Conventions of all theories. A Go \<open>int64\<close> or \<open>int\<close> is an \<open>int\<close>; where a sum or product
  of caller-supplied numbers can leave the 64-bit range the model wraps it with \<open>i64\<close>, as the
  machine does. A \<open>time.Time\<close> is an \<open>int\<close> (nanoseconds), the zero time is \<open>None\<close> of an
  \<open>int option\<close>; \<open>time.Now()\<close> is an argument called \<open>now\<close>. A pair (value, error) is a sum
  \<open>goerr + 'a\<close>. Log lines are not modelled.
\<close>

named_theorems go_arith \<open>64-bit arithmetic whose result is in range\<close>
named_theorems go_slice \<open>slices of byte lists\<close>

section \<open>64-bit integers\<close>

definition i64 :: "int \<Rightarrow> int" where
  "i64 x = (x + 2 ^ 63) mod 2 ^ 64 - 2 ^ 63"

definition in_i64 :: "int \<Rightarrow> bool" where
  "in_i64 x \<longleftrightarrow> - (2 ^ 63) \<le> x \<and> x < 2 ^ 63"

lemma i64_id [go_arith]: "- (2 ^ 63) \<le> x \<Longrightarrow> x < 2 ^ 63 \<Longrightarrow> i64 x = x"
  by (simp add: i64_def)

lemma i64_in_range: "in_i64 (i64 x)"
  by (simp add: i64_def in_i64_def)

lemma i64_nonneg_id [go_arith]: "0 \<le> x \<Longrightarrow> x < 2 ^ 63 \<Longrightarrow> i64 x = x"
  by (rule i64_id) auto

lemma i64_small [simp]: "i64 0 = 0" "i64 1 = 1"
  by (simp_all add: i64_def)

text \<open>Go's \<open>/\<close> and \<open>%\<close> on integers truncate towards zero (a zero divisor panics: every
  divisor of the program is a positive constant or a chunk size forced positive).\<close>

definition go_div :: "int \<Rightarrow> int \<Rightarrow> int" where
  "go_div a b = sgn a * sgn b * (\<bar>a\<bar> div \<bar>b\<bar>)"

definition go_mod :: "int \<Rightarrow> int \<Rightarrow> int" where
  "go_mod a b = a - b * go_div a b"

lemma go_div_nonneg [go_arith]:
  assumes "0 \<le> a" "0 < b"
  shows "go_div a b = a div b"
  using assms by (cases "a = 0") (auto simp: go_div_def)

lemma go_mod_nonneg [go_arith]: "0 \<le> a \<Longrightarrow> 0 < b \<Longrightarrow> go_mod a b = a mod b"
  by (simp add: go_mod_def go_div_nonneg minus_mult_div_eq_mod)

lemma go_div_zero [simp]: "go_div 0 b = 0"
  by (simp add: go_div_def)

section \<open>Byte slices\<close>

type_synonym byte = "8 word"
type_synonym bytes = "byte list"

text \<open>The bytes of the remote files by id.\<close>

type_synonym content = "string \<Rightarrow> bytes"

abbreviation len :: "'a list \<Rightarrow> int" where
  "len xs \<equiv> int (length xs)"

text \<open>\<open>xs[a:b]\<close> for \<open>0 \<le> a \<le> b \<le> len xs\<close>; Go panics outside that range, and the component
  theories show the bounds where they slice.\<close>

definition bslice :: "int \<Rightarrow> int \<Rightarrow> 'a list \<Rightarrow> 'a list" where
  "bslice a b xs = take (nat (b - a)) (drop (nat a) xs)"

definition bslice_ok :: "int \<Rightarrow> int \<Rightarrow> 'a list \<Rightarrow> bool" where
  "bslice_ok a b xs \<longleftrightarrow> 0 \<le> a \<and> a \<le> b \<and> b \<le> len xs"

lemma length_bslice [go_slice]: "bslice_ok a b xs \<Longrightarrow> len (bslice a b xs) = b - a"
  by (auto simp: bslice_def bslice_ok_def)

lemma bslice_whole [simp]: "bslice 0 (len xs) xs = xs"
  by (simp add: bslice_def)

lemma bslice_empty [simp]: "bslice a a xs = []"
  by (simp add: bslice_def)

lemma bslice_append:
  assumes "0 \<le> a" "a \<le> b" "b \<le> c"
  shows "bslice a b xs @ bslice b c xs = bslice a c xs"
proof -
  have "nat b = nat a + nat (b - a)" and "nat (c - a) = nat (b - a) + nat (c - b)"
    using assms by auto
  then show ?thesis
    by (simp add: bslice_def take_add add.commute)
qed

lemma bslice_bslice:
  assumes "0 \<le> a" "0 \<le> c" "c \<le> d" "d \<le> b - a"
  shows "bslice c d (bslice a b xs) = bslice (a + c) (a + d) xs"
proof -
  have "nat (a + c) = nat c + nat a" and "nat (d - c) \<le> nat (b - a) - nat c"
    using assms by auto
  then show ?thesis
    using assms by (simp add: bslice_def drop_take take_take min_absorb1)
qed

section \<open>Error values\<close>

text \<open>
  Go error values: a plain \<open>errors.New\<close> text, the sentinels the code tests with
  \<open>errors.Is\<close>, and a \<open>fmt.Errorf("... %w", e)\<close> wrapper. Every format with \<open>%w\<close> in the
  program ends in it, so the text of a wrapper is its prefix followed by the text of the
  wrapped error.
\<close>

datatype goerr =
    ErrText string
  | ErrCanceled
  | ErrDeadline
  | ErrEOF
  | ErrUnexpectedEOF
  | ErrNoProgress
  | ErrWrap string goerr

fun err_text :: "goerr \<Rightarrow> string" where
  "err_text (ErrText s) = s"
| "err_text ErrCanceled = ''context canceled''"
| "err_text ErrDeadline = ''context deadline exceeded''"
| "err_text ErrEOF = ''EOF''"
| "err_text ErrUnexpectedEOF = ''unexpected EOF''"
| "err_text ErrNoProgress = ''multiple Read calls return no data or error''"
| "err_text (ErrWrap s e) = s @ err_text e"

fun errors_Is :: "goerr \<Rightarrow> goerr \<Rightarrow> bool" where
  "errors_Is (ErrWrap s e) t = (ErrWrap s e = t \<or> errors_Is e t)"
| "errors_Is e t = (e = t)"

section \<open>Go maps that are ranged over\<close>

text \<open>A Go map whose entries the code iterates over is an association list without duplicate
  keys, read with \<open>map_of\<close> and written with \<open>AList.update\<close> and \<open>AList.delete\<close>.\<close>

definition alist_ok :: "('k \<times> 'v) list \<Rightarrow> bool" where
  "alist_ok xs \<longleftrightarrow> distinct (map fst xs)"

lemma alist_ok_Nil [simp]: "alist_ok []"
  by (simp add: alist_ok_def)

lemma alist_ok_update [simp]: "alist_ok xs \<Longrightarrow> alist_ok (AList.update k v xs)"
  by (simp add: alist_ok_def distinct_update)

lemma alist_ok_delete [simp]: "alist_ok xs \<Longrightarrow> alist_ok (AList.delete k xs)"
  by (simp add: alist_ok_def distinct_delete)

lemma alist_map_of_update [simp]: "map_of (AList.update k v xs) = (map_of xs)(k \<mapsto> v)"
  by (simp add: update_conv')

lemma alist_map_of_delete [simp]: "map_of (AList.delete k xs) = (map_of xs)(k := None)"
  by (simp add: delete_conv')

lemma alist_ok_map_of_iff: "alist_ok xs \<Longrightarrow> (k, v) \<in> set xs \<longleftrightarrow> map_of xs k = Some v"
  by (simp add: alist_ok_def)

end
