(* ===== verification/StreamConfig.thy ===== *)
theory StreamConfig
  imports Prelude
begin

text \<open>
  Configuration of the stream engine (\<open>Config\<close>, \<open>DefaultConfig\<close> and the defaulting at the head of
  \<open>NewManager\<close> in \<open>internal/stream/manager.go\<close>). Durations are in nanoseconds.
\<close>

record Config =
  ChunkSize :: int
  ForwardGap :: int
  SeekThreshold :: int
  Workers :: int
  LowWatermark :: int
  TargetBuffer :: int
  BackBuffer :: int
  MemoryCache :: int
  DiskCache :: int
  CachePath :: string
  Hedge :: bool
  Diagnostics :: bool
  HedgeMinDelay :: int
  HedgeMaxDelay :: int
  SessionWorkers :: int
  IdleReclaim :: int

abbreviation MiB :: int where
  "MiB \<equiv> 1048576"

abbreviation milliseconds :: int where
  "milliseconds \<equiv> 1000000"

abbreviation seconds :: int where
  "seconds \<equiv> 1000000000"

definition DefaultConfig :: Config where
  "DefaultConfig =
     \<lparr>ChunkSize = MiB, ForwardGap = 8 * MiB, SeekThreshold = 16 * MiB, Workers = 8,
      LowWatermark = 128 * MiB, TargetBuffer = 256 * MiB, BackBuffer = 32 * MiB,
      MemoryCache = 320 * MiB, DiskCache = 2048 * MiB, CachePath = [], Hedge = True,
      Diagnostics = False, HedgeMinDelay = 300 * milliseconds, HedgeMaxDelay = 800 * milliseconds,
      SessionWorkers = 6, IdleReclaim = 600 * seconds\<rparr>"

text \<open>The defaulting in the order of the source: a guard sees the fields fixed before it.\<close>

definition normalizeConfig :: "Config \<Rightarrow> goerr + Config" where
  "normalizeConfig c =
     (let d = DefaultConfig;
          chunk = (if ChunkSize c \<le> 0 then ChunkSize d else ChunkSize c);
          gap = (if ForwardGap c \<le> 0 then ForwardGap d else ForwardGap c);
          seek = (if SeekThreshold c < gap then SeekThreshold d else SeekThreshold c);
          workers = (if Workers c \<le> 0 then Workers d else Workers c);
          low = (if LowWatermark c \<le> 0 then LowWatermark d else LowWatermark c);
          target = (if TargetBuffer c < low then TargetBuffer d else TargetBuffer c);
          back = (if BackBuffer c \<le> 0 then BackBuffer d else BackBuffer c)
      in if MemoryCache c < 0 \<or> DiskCache c < 0
         then Inl (ErrText ''stream cache limits must be non-negative'')
         else
           let minDelay = (if HedgeMinDelay c \<le> 0 then HedgeMinDelay d else HedgeMinDelay c);
               maxDelay = (if HedgeMaxDelay c < minDelay then HedgeMaxDelay d else HedgeMaxDelay c);
               share = (if SessionWorkers c \<le> 0 \<or> workers < SessionWorkers c then
                          if workers - 2 \<le> 0 then workers else workers - 2
                        else SessionWorkers c);
               idle = (if IdleReclaim c \<le> 0 then IdleReclaim d else IdleReclaim c)
           in Inr (c\<lparr>ChunkSize := chunk, ForwardGap := gap, SeekThreshold := seek, Workers := workers,
                     LowWatermark := low, TargetBuffer := target, BackBuffer := back,
                     HedgeMinDelay := minDelay, HedgeMaxDelay := maxDelay, SessionWorkers := share,
                     IdleReclaim := idle\<rparr>))"

text \<open>What the manager relies on: no size is zero, a divisor or a limit is never negative, and a
  session's share of the workers lies between one worker and all of them.\<close>

definition config_ok :: "Config \<Rightarrow> bool" where
  "config_ok c \<longleftrightarrow>
     0 < ChunkSize c \<and> 0 < ForwardGap c \<and> 0 < SeekThreshold c \<and> 0 < Workers c \<and>
     0 < LowWatermark c \<and> 0 < TargetBuffer c \<and> 0 < BackBuffer c \<and>
     0 \<le> MemoryCache c \<and> 0 \<le> DiskCache c \<and> 0 < HedgeMinDelay c \<and> 0 < HedgeMaxDelay c \<and>
     0 < SessionWorkers c \<and> SessionWorkers c \<le> Workers c \<and> 0 < IdleReclaim c"

lemma normalizeConfig_config_ok: "normalizeConfig c = Inr c' \<Longrightarrow> config_ok c'"
proof -
  assume "normalizeConfig c = Inr c'"
  then have "0 \<le> MemoryCache c" "0 \<le> DiskCache c"
    and c': "normalizeConfig c = Inr c'"
    by (auto simp: normalizeConfig_def Let_def split: if_splits)
  moreover from this have "c' = (case normalizeConfig c of Inr x \<Rightarrow> x)" by simp
  ultimately show ?thesis
    unfolding config_ok_def by (simp add: normalizeConfig_def Let_def DefaultConfig_def)
qed

lemma normalizeConfig_refuses:
  "(\<exists>e. normalizeConfig c = Inl e) \<longleftrightarrow> MemoryCache c < 0 \<or> DiskCache c < 0"
  by (auto simp: normalizeConfig_def Let_def)

text \<open>
  An upper threshold \<open>hi\<close> beside its lower one \<open>lo\<close>: a given value below \<open>lo\<close> gives way to the default \<open>d\<close>. The pair is
  out of order exactly when that default lies below \<open>lo\<close> as well.
\<close>

definition threshold_pair :: "int \<Rightarrow> int \<Rightarrow> int \<Rightarrow> int \<Rightarrow> bool" where
  "threshold_pair d given lo hi \<longleftrightarrow>
     hi = (if given < lo then d else given) \<and> (hi < lo \<longleftrightarrow> given < lo \<and> d < lo)"

lemma threshold_pairI [intro]: "threshold_pair d given lo (if given < lo then d else given)"
  by (simp add: threshold_pair_def)

lemma normalizeConfig_lower:
  assumes "normalizeConfig c = Inr c'"
  shows "ForwardGap c' = (if ForwardGap c \<le> 0 then 8 * MiB else ForwardGap c)"
    "LowWatermark c' = (if LowWatermark c \<le> 0 then 128 * MiB else LowWatermark c)"
    "HedgeMinDelay c' = (if HedgeMinDelay c \<le> 0 then 300 * milliseconds else HedgeMinDelay c)"
proof -
  have "0 \<le> MemoryCache c" "0 \<le> DiskCache c" using assms by (auto simp: normalizeConfig_def Let_def split: if_splits)
  moreover have "c' = (case normalizeConfig c of Inr x \<Rightarrow> x)" using assms by simp
  ultimately show "ForwardGap c' = (if ForwardGap c \<le> 0 then 8 * MiB else ForwardGap c)"
    "LowWatermark c' = (if LowWatermark c \<le> 0 then 128 * MiB else LowWatermark c)"
    "HedgeMinDelay c' = (if HedgeMinDelay c \<le> 0 then 300 * milliseconds else HedgeMinDelay c)"
    by (simp_all add: normalizeConfig_def Let_def DefaultConfig_def)
qed

lemma normalizeConfig_thresholds:
  assumes "normalizeConfig c = Inr c'"
  shows "threshold_pair (16 * MiB) (SeekThreshold c) (ForwardGap c') (SeekThreshold c')"
    "threshold_pair (256 * MiB) (TargetBuffer c) (LowWatermark c') (TargetBuffer c')"
    "threshold_pair (800 * milliseconds) (HedgeMaxDelay c) (HedgeMinDelay c') (HedgeMaxDelay c')"
proof -
  have "0 \<le> MemoryCache c" "0 \<le> DiskCache c" using assms by (auto simp: normalizeConfig_def Let_def split: if_splits)
  moreover have "c' = (case normalizeConfig c of Inr x \<Rightarrow> x)" using assms by simp
  ultimately have "SeekThreshold c' = (if SeekThreshold c < ForwardGap c' then 16 * MiB else SeekThreshold c)"
    "TargetBuffer c' = (if TargetBuffer c < LowWatermark c' then 256 * MiB else TargetBuffer c)"
    "HedgeMaxDelay c' = (if HedgeMaxDelay c < HedgeMinDelay c' then 800 * milliseconds else HedgeMaxDelay c)"
    by (simp_all add: normalizeConfig_def Let_def DefaultConfig_def)
  then show "threshold_pair (16 * MiB) (SeekThreshold c) (ForwardGap c') (SeekThreshold c')"
    "threshold_pair (256 * MiB) (TargetBuffer c) (LowWatermark c') (TargetBuffer c')"
    "threshold_pair (800 * milliseconds) (HedgeMaxDelay c) (HedgeMinDelay c') (HedgeMaxDelay c')"
    using threshold_pairI by metis+
qed

text \<open>A configuration that is in order is left alone.\<close>

lemma normalizeConfig_id:
  "config_ok c \<Longrightarrow> ForwardGap c \<le> SeekThreshold c \<Longrightarrow> LowWatermark c \<le> TargetBuffer c \<Longrightarrow>
   HedgeMinDelay c \<le> HedgeMaxDelay c \<Longrightarrow> normalizeConfig c = Inr c"
  by (simp add: normalizeConfig_def config_ok_def Let_def)

end
