(* ===== verification/LruSpec.thy ===== *)
theory LruSpec
  imports Prelude
begin

text \<open>
  The contract of a byte-bounded LRU cache. The program has three of them: the memory cache
  and the disk index of the chunk store (\<open>stream/store.go\<close>) and the read cache of the remote
  reader (\<open>remote/remote.go\<close>). The contract is stated over the list of entries, oldest first;
  the locale \<open>sized_lru\<close> collects what a provider promises and derives the facts the clients
  of the caches need. The providers interpret it in \<open>ChunkStore\<close> and \<open>RemoteCache\<close>.
\<close>

section \<open>Entry lists and eviction\<close>

definition lru_total :: "('v \<Rightarrow> int) \<Rightarrow> ('k \<times> 'v) list \<Rightarrow> int" where
  "lru_total sz xs = (\<Sum>e\<leftarrow>xs. sz (snd e))"

definition without :: "'k \<Rightarrow> ('k \<times> 'v) list \<Rightarrow> ('k \<times> 'v) list" where
  "without k xs = filter (\<lambda>e. fst e \<noteq> k) xs"

text \<open>Evict from the front (the least recently used end) while the total is over the limit.\<close>

fun trim :: "('v \<Rightarrow> int) \<Rightarrow> int \<Rightarrow> ('k \<times> 'v) list \<Rightarrow> ('k \<times> 'v) list" where
  "trim sz lim [] = []"
| "trim sz lim (e # es) = (if lim < lru_total sz (e # es) then trim sz lim es else e # es)"

definition lru_put :: "('v \<Rightarrow> int) \<Rightarrow> int \<Rightarrow> 'k \<Rightarrow> 'v \<Rightarrow> ('k \<times> 'v) list \<Rightarrow> ('k \<times> 'v) list" where
  "lru_put sz lim k v xs = trim sz lim (without k xs @ [(k, v)])"

definition lru_touch :: "'k \<Rightarrow> ('k \<times> 'v) list \<Rightarrow> ('k \<times> 'v) list" where
  "lru_touch k xs = without k xs @ filter (\<lambda>e. fst e = k) xs"

lemma lru_total_simps [simp]:
  "lru_total sz [] = 0"
  "lru_total sz (e # es) = sz (snd e) + lru_total sz es"
  "lru_total sz (xs @ ys) = lru_total sz xs + lru_total sz ys"
  by (simp_all add: lru_total_def)

lemma lru_total_nonneg: "(\<And>v. 0 \<le> sz v) \<Longrightarrow> 0 \<le> lru_total sz xs"
  by (induction xs) (auto intro: add_nonneg_nonneg)

lemma without_simps [simp]:
  "without k [] = []"
  "without k (e # es) = (if fst e = k then without k es else e # without k es)"
  "without k (xs @ ys) = without k xs @ without k ys"
  by (simp_all add: without_def)

lemma fst_set_without [simp]: "fst ` set (without k xs) = fst ` set xs - {k}"
  by (auto simp: without_def)

lemma distinct_without [simp]: "distinct (map fst xs) \<Longrightarrow> distinct (map fst (without k xs))"
  by (simp add: without_def distinct_map_filter)

lemma map_of_without: "map_of (without k xs) = (map_of xs)(k := None)"
  by (induction xs) (auto simp: fun_eq_iff)

lemma map_of_put_list: "map_of (without k xs @ [(k, v)]) = (map_of xs)(k \<mapsto> v)"
  by (auto simp: fun_eq_iff map_add_def map_of_without split: option.split)

lemma map_of_filter_fst:
  "map_of (filter (\<lambda>e. P (fst e)) xs) k = (if P k then map_of xs k else None)"
  by (induction xs) auto

lemma set_without_subset: "e \<in> set (without k xs) \<Longrightarrow> e \<in> set xs"
  by (simp add: without_def)

lemma without_notin [simp]: "k \<notin> fst ` set xs \<Longrightarrow> without k xs = xs"
  by (induction xs) auto

lemma lru_total_without:
  "distinct (map fst xs) \<Longrightarrow>
   lru_total sz (without k xs) = lru_total sz xs - (case map_of xs k of None \<Rightarrow> 0 | Some v \<Rightarrow> sz v)"
  by (induction xs) auto

lemma lru_total_filter_le:
  assumes "\<And>v. 0 \<le> sz v"
  shows "lru_total sz (filter P xs) \<le> lru_total sz xs"
  proof (induction xs)
  case (Cons x xs)
  with assms [of "snd x"] show ?case by simp
qed simp

lemma trim_total: "(\<And>v. 0 \<le> sz v) \<Longrightarrow> 0 \<le> lim \<Longrightarrow> lru_total sz (trim sz lim xs) \<le> lim"
  by (induction xs) auto

lemma trim_fits: "lru_total sz xs \<le> lim \<Longrightarrow> trim sz lim xs = xs"
  by (cases xs) auto

lemma trim_suffix: "suffix (trim sz lim xs) xs"
  by (induction xs) (auto intro: suffix_ConsI)

text \<open>Eviction is minimal: putting the youngest evicted entry back would break the limit.\<close>

lemma trim_minimal:
  assumes "xs = ys @ e # trim sz lim xs"
  shows "lim < lru_total sz (e # trim sz lim xs)"
  using assms
proof (induction xs arbitrary: ys)
  case Nil
  then show ?case by simp
next
  case (Cons x xs)
  from Cons.prems have over: "lim < lru_total sz (x # xs)"
    by (auto simp: Cons_eq_append_conv split: if_splits)
  then have tr: "trim sz lim (x # xs) = trim sz lim xs" by simp
  show ?case
  proof (cases ys)
    case Nil
    with Cons.prems have "x = e" and "xs = trim sz lim xs" unfolding tr by auto
    with over show ?thesis unfolding tr by metis
  next
    case (Cons y ys')
    with Cons.prems have "xs = ys' @ e # trim sz lim xs" unfolding tr by simp
    from Cons.IH [OF this] show ?thesis unfolding tr .
  qed
qed

lemma trim_keeps_last:
  assumes "\<And>v. 0 \<le> sz v" "sz v \<le> lim"
  shows "\<exists>ys. trim sz lim (xs @ [(k, v)]) = ys @ [(k, v)]"
  using assms by (induction xs) auto

lemma lru_total_map:
  "\<forall>e\<in>set xs. sz' (g (snd e)) = sz (snd e) \<Longrightarrow>
   lru_total sz' (map (\<lambda>(k, v). (k, g v)) xs) = lru_total sz xs"
  by (induction xs) auto

lemma trim_map:
  "\<forall>e\<in>set xs. sz' (g (snd e)) = sz (snd e) \<Longrightarrow>
   map (\<lambda>(k, v). (k, g v)) (trim sz lim xs) = trim sz' lim (map (\<lambda>(k, v). (k, g v)) xs)"
proof (induction xs)
  case (Cons x xs)
  have "lru_total sz' (map (\<lambda>(k, v). (k, g v)) (x # xs)) = lru_total sz (x # xs)"
    using Cons.prems by (rule lru_total_map)
  with Cons show ?case by (cases x) simp
qed simp

lemma suffix_distinct: "suffix xs ys \<Longrightarrow> distinct (map fst ys) \<Longrightarrow> distinct (map fst xs)"
  by (auto simp: suffix_def)

lemma suffix_map_of:
  "suffix xs ys \<Longrightarrow> distinct (map fst ys) \<Longrightarrow> map_of xs k = Some v \<Longrightarrow> map_of ys k = Some v"
  by (meson map_of_SomeD map_of_is_SomeI set_mono_suffix subsetD)

lemma distinct_put_list:
  "distinct (map fst xs) \<Longrightarrow> distinct (map fst (without k xs @ [(k, v)]))"
  by (auto simp: without_def distinct_map_filter)

lemma distinct_lru_put: "distinct (map fst xs) \<Longrightarrow> distinct (map fst (lru_put sz lim k v xs))"
  unfolding lru_put_def by (rule suffix_distinct [OF trim_suffix distinct_put_list])

text \<open>Moving an entry to the young end changes nothing but the order.\<close>

lemma set_lru_touch [simp]: "set (lru_touch k xs) = set xs"
  by (auto simp: lru_touch_def without_def)

lemma total_lru_touch [simp]: "lru_total sz (lru_touch k xs) = lru_total sz xs"
  by (induction xs) (auto simp: lru_touch_def)

lemma distinct_lru_touch: "distinct (map fst xs) \<Longrightarrow> distinct (map fst (lru_touch k xs))"
  by (auto simp: lru_touch_def without_def distinct_map_filter)

lemma map_of_lru_touch [simp]: "map_of (lru_touch k xs) = map_of xs"
  by (auto simp: fun_eq_iff lru_touch_def map_add_def map_of_without
      map_of_filter_fst [of "\<lambda>x. x = k"] split: option.split)

section \<open>The contract\<close>

locale sized_lru =
  fixes entries :: "'s \<Rightarrow> ('k \<times> 'v) list"
    and used :: "'s \<Rightarrow> int"
    and limit :: "'s \<Rightarrow> int"
    and sz :: "'v \<Rightarrow> int"
    and ok :: "'s \<Rightarrow> bool"
    and find :: "'s \<Rightarrow> 'k \<Rightarrow> 'v option"
    and admits :: "'s \<Rightarrow> 'v \<Rightarrow> bool"
    and put :: "'k \<Rightarrow> 'v \<Rightarrow> 's \<Rightarrow> 's"
    and remove :: "'k \<Rightarrow> 's \<Rightarrow> 's"
  assumes sz_nonneg: "0 \<le> sz v"
    and ok_distinct: "ok s \<Longrightarrow> distinct (map fst (entries s))"
    and ok_used: "ok s \<Longrightarrow> used s = lru_total sz (entries s)"
    and ok_bound: "ok s \<Longrightarrow> used s \<le> limit s"
    and ok_find: "ok s \<Longrightarrow> find s k = map_of (entries s) k"
    and put_admitted:
      "ok s \<Longrightarrow> admits s v \<Longrightarrow> entries (put k v s) = lru_put sz (limit s) k v (entries s)"
    and put_refused: "ok s \<Longrightarrow> \<not> admits s v \<Longrightarrow> put k v s = s"
    and put_limit: "limit (put k v s) = limit s"
    and put_ok: "ok s \<Longrightarrow> ok (put k v s)"
    and remove_entries: "ok s \<Longrightarrow> entries (remove k s) = without k (entries s)"
    and remove_limit: "limit (remove k s) = limit s"
    and remove_ok: "ok s \<Longrightarrow> ok (remove k s)"
begin

lemma put_used_bound: "ok s \<Longrightarrow> used (put k v s) \<le> limit s"
  using ok_bound [OF put_ok] by (simp add: put_limit)

lemma put_suffix:
  assumes "ok s" "admits s v"
  shows "suffix (entries (put k v s)) (without k (entries s) @ [(k, v)])"
  unfolding put_admitted [OF assms] lru_put_def by (rule trim_suffix)

text \<open>The entry just put is found afterwards, whatever had to be evicted for it.\<close>

lemma put_find_same:
  assumes "ok s" "admits s v" "sz v \<le> limit s"
  shows "find (put k v s) k = Some v"
proof -
  have "distinct (map fst (entries (put k v s)))"
    using assms by (intro ok_distinct put_ok)
  moreover have "(k, v) \<in> set (entries (put k v s))"
    using trim_keeps_last [of sz v "limit s" "without k (entries s)" k] sz_nonneg assms
    by (auto simp: put_admitted lru_put_def)
  ultimately show ?thesis
    using assms by (simp add: ok_find put_ok)
qed

text \<open>A put never changes the value of another key: it keeps it or evicts it.\<close>

lemma put_find_other:
  assumes "ok s" "find (put k v s) j = Some w" "j \<noteq> k"
  shows "find s j = Some w"
proof (cases "admits s v")
  case False
  with assms show ?thesis by (simp add: put_refused)
next
  case True
  let ?xs = "without k (entries s) @ [(k, v)]"
  have "map_of (entries (put k v s)) j = Some w"
    using assms by (simp add: ok_find put_ok)
  then have "map_of ?xs j = Some w"
    using suffix_map_of [OF put_suffix [OF assms(1) True]] distinct_put_list assms(1)
    by (metis ok_distinct)
  then show ?thesis
    using assms by (auto simp: ok_find map_of_without map_add_def split: option.splits)
qed

lemma put_find_cases:
  assumes "ok s" "find (put k v s) j = Some w"
  shows "(j = k \<and> w = v \<and> admits s v) \<or> find s j = Some w"
proof (cases "admits s v \<and> j = k")
  case False
  then show ?thesis using assms put_find_other by (cases "admits s v") (auto simp: put_refused)
next
  case True
  let ?xs = "without k (entries s) @ [(k, v)]"
  have "map_of (entries (put k v s)) j = Some w"
    using assms by (simp add: ok_find put_ok)
  then have "map_of ?xs j = Some w"
    using suffix_map_of [OF put_suffix] distinct_put_list assms(1) True by (metis ok_distinct)
  then show ?thesis using True by (simp add: map_add_def map_of_without)
qed

lemma remove_find: "ok s \<Longrightarrow> find (remove k s) j = (if j = k then None else find s j)"
  by (simp add: ok_find remove_ok remove_entries map_of_without)

text \<open>Whatever holds of every cached pair still holds after putting a good pair.\<close>

lemma put_all:
  assumes "ok s" "\<And>j w. find s j = Some w \<Longrightarrow> P j w" "admits s v \<Longrightarrow> P k v"
    and "find (put k v s) j = Some w"
  shows "P j w"
  using put_find_cases [OF assms(1,4)] assms(2,3) by auto

lemma puts_ok: "ok s \<Longrightarrow> ok (fold (\<lambda>(k, v). put k v) kvs s)"
  by (induction kvs arbitrary: s) (auto simp: put_ok)

lemma puts_used_bound: "ok s \<Longrightarrow> used (fold (\<lambda>(k, v). put k v) kvs s) \<le> limit s"
proof (induction kvs arbitrary: s)
  case Nil
  then show ?case by (simp add: ok_bound)
next
  case (Cons kv kvs)
  obtain k v where kv: "kv = (k, v)" by (cases kv)
  from Cons.IH [OF put_ok [OF Cons.prems]] show ?case by (simp add: kv put_limit)
qed

end

end
