(* ===== verification/GoStrings.thy ===== *)
theory GoStrings
  imports Prelude
begin

text \<open>
  The parts of Go's \<open>strings\<close>, \<open>strconv\<close> and \<open>path\<close> packages that the program calls, on byte
  strings (a \<open>char\<close> is one byte of the UTF-8 text). The errors of \<open>ParseInt\<close> are only compared
  with nil by its callers, so a parser returns an \<open>option\<close>.
\<close>

named_theorems go_string \<open>definitions of the string library, for evaluating closed terms\<close>

section \<open>Package strings\<close>

definition HasPrefix :: "string \<Rightarrow> string \<Rightarrow> bool" where
  [go_string]: "HasPrefix s p \<longleftrightarrow> prefix p s"

definition HasSuffix :: "string \<Rightarrow> string \<Rightarrow> bool" where
  [go_string]: "HasSuffix s p \<longleftrightarrow> prefix (rev p) (rev s)"

definition TrimPrefix :: "string \<Rightarrow> string \<Rightarrow> string" where
  [go_string]: "TrimPrefix s p = (if HasPrefix s p then drop (length p) s else s)"

definition TrimSuffix :: "string \<Rightarrow> string \<Rightarrow> string" where
  [go_string]: "TrimSuffix s p = (if HasSuffix s p then take (length s - length p) s else s)"

fun Contains :: "string \<Rightarrow> string \<Rightarrow> bool" where
  "Contains [] t \<longleftrightarrow> t = []"
| "Contains (c # s) t \<longleftrightarrow> prefix t (c # s) \<or> Contains s t"

text \<open>\<open>strings.SplitN(s, sep, 2)\<close> and \<open>strings.Split(s, sep)\<close> for a one-byte separator.\<close>

definition SplitN2 :: "char \<Rightarrow> string \<Rightarrow> string list" where
  [go_string]: "SplitN2 c s =
     (if c \<in> set s then [takeWhile (\<lambda>x. x \<noteq> c) s, tl (dropWhile (\<lambda>x. x \<noteq> c) s)] else [s])"

fun Split :: "char \<Rightarrow> string \<Rightarrow> string list" where
  "Split c [] = [[]]"
| "Split c (x # xs) =
     (if x = c then [] # Split c xs
      else case Split c xs of [] \<Rightarrow> [[x]] | w # ws \<Rightarrow> (x # w) # ws)"

fun JoinWith :: "char \<Rightarrow> string list \<Rightarrow> string" where
  "JoinWith c [] = []"
| "JoinWith c [w] = w"
| "JoinWith c (w # ws) = w @ c # JoinWith c ws"

text \<open>\<open>strings.TrimRight(s, cutset)\<close> for a cutset of one byte.\<close>

definition TrimRight :: "string \<Rightarrow> char \<Rightarrow> string" where
  [go_string]: "TrimRight s c = rev (dropWhile (\<lambda>x. x = c) (rev s))"

definition LastIndexByte :: "string \<Rightarrow> char \<Rightarrow> int" where
  [go_string]: "LastIndexByte s c =
     (if c \<in> set s then len s - 1 - len (takeWhile (\<lambda>x. x \<noteq> c) (rev s)) else - 1)"

text \<open>\<open>strings.TrimSpace\<close>: the UTF-8 encodings of the code points that \<open>unicode.IsSpace\<close>
  accepts are cut off both ends.\<close>

definition bytes_of :: "nat list \<Rightarrow> string" where
  [go_string]: "bytes_of ns = map char_of ns"

definition go_spaces :: "string list" where
  "go_spaces = map bytes_of
     ([[9], [10], [11], [12], [13], [32], [194, 133], [194, 160], [225, 154, 128],
       [226, 128, 168], [226, 128, 169], [226, 128, 175], [226, 129, 159], [227, 128, 128]]
      @ map (\<lambda>n. [226, 128, n]) [128..<139])"

fun trim_with :: "string list \<Rightarrow> nat \<Rightarrow> string \<Rightarrow> string" where
  "trim_with sp 0 s = s"
| "trim_with sp (Suc n) s =
     (case List.find (\<lambda>p. prefix p s) sp of None \<Rightarrow> s | Some p \<Rightarrow> trim_with sp n (drop (length p) s))"

definition TrimSpace :: "string \<Rightarrow> string" where
  "TrimSpace s =
     (let l = trim_with go_spaces (length s) s
      in rev (trim_with (map rev go_spaces) (length l) (rev l)))"

text \<open>
  \<open>strings.ToLower\<close>, as far as a search for an ASCII text in the result can tell: ASCII letters,
  and the two code points outside ASCII whose lower case is an ASCII letter (U+0130 and U+212A).
\<close>

fun ToLower :: "string \<Rightarrow> string" where
  "ToLower [] = []"
| "ToLower (c # s) =
     (if of_char c = (196 :: nat) \<and> prefix [char_of (176 :: nat)] s
      then CHR ''i'' # ToLower (drop 1 s)
      else if of_char c = (226 :: nat) \<and> prefix [char_of (132 :: nat), char_of (170 :: nat)] s
      then CHR ''k'' # ToLower (drop 2 s)
      else (if (65 :: nat) \<le> of_char c \<and> of_char c \<le> (90 :: nat) then char_of (of_char c + (32 :: nat)) else c)
           # ToLower s)"

section \<open>Package strconv\<close>

definition digit :: "nat \<Rightarrow> char" where
  "digit n = char_of (48 + n)"

fun nat_digits :: "nat \<Rightarrow> string" where
  "nat_digits n = (if n < 10 then [digit n] else nat_digits (n div 10) @ [digit (n mod 10)])"

declare nat_digits.simps [simp del]

definition FormatInt :: "int \<Rightarrow> string" where
  "FormatInt n = (if n < 0 then CHR ''-'' # nat_digits (nat (- n)) else nat_digits (nat n))"

definition digit_val :: "char \<Rightarrow> nat option" where
  "digit_val c = (if (48 :: nat) \<le> of_char c \<and> of_char c \<le> (57 :: nat) then Some (of_char c - 48) else None)"

fun digits_val :: "nat \<Rightarrow> string \<Rightarrow> nat option" where
  "digits_val a [] = Some a"
| "digits_val a (c # s) = (case digit_val c of None \<Rightarrow> None | Some d \<Rightarrow> digits_val (10 * a + d) s)"

definition parse_nat :: "string \<Rightarrow> nat option" where
  "parse_nat s = (if s = [] then None else digits_val 0 s)"

text \<open>\<open>strconv.ParseInt(s, 10, 64)\<close>, and \<open>strconv.Atoi\<close> on a 64-bit platform: an optional sign,
  at least one digit, and a value in range.\<close>

definition ParseInt :: "string \<Rightarrow> int option" where
  "ParseInt s =
     (case s of
        [] \<Rightarrow> None
      | c # r \<Rightarrow>
          let neg = (c = CHR ''-'');
              u = (if c = CHR ''-'' \<or> c = CHR ''+'' then r else s)
          in case parse_nat u of
               None \<Rightarrow> None
             | Some n \<Rightarrow>
                 if \<not> neg \<and> 2 ^ 63 \<le> n then None
                 else if neg \<and> 2 ^ 63 < n then None
                 else Some (if neg then - int n else int n))"

subsection \<open>Round trip of integers through text\<close>

lemma digit_val_digit [simp]: "d < 10 \<Longrightarrow> digit_val (digit d) = Some d"
  by (simp add: digit_val_def digit_def)

lemma digits_val_append:
  "digits_val a (xs @ ys) = (case digits_val a xs of None \<Rightarrow> None | Some b \<Rightarrow> digits_val b ys)"
  by (induction xs arbitrary: a) (auto split: option.splits)

lemma nat_digits_nonempty [simp]: "nat_digits n \<noteq> []"
  by (subst nat_digits.simps) simp

lemma digits_val_nat_digits [simp]: "digits_val 0 (nat_digits n) = Some n"
proof (induction n rule: nat_digits.induct)
  case (1 n)
  show ?case
  proof (cases "n < 10")
    case True
    then show ?thesis by (subst nat_digits.simps) simp
  next
    case False
    with "1.IH" show ?thesis
      by (subst nat_digits.simps) (simp add: digits_val_append mult.commute)
  qed
qed

lemma digit_ascii: "d < 10 \<Longrightarrow> of_char (digit d) = 48 + d"
  by (simp add: digit_def)

lemma nat_digits_chars: "c \<in> set (nat_digits n) \<Longrightarrow> (48 :: nat) \<le> of_char c \<and> of_char c \<le> (57 :: nat)"
proof (induction n rule: nat_digits.induct)
  case (1 n)
  show ?case
  proof (cases "n < 10")
    case True
    with "1.prems" show ?thesis by (subst (asm) nat_digits.simps) (auto simp: digit_ascii)
  next
    case False
    have "n mod 10 < 10" by simp
    with "1.prems" "1.IH" False show ?thesis
      by (subst (asm) nat_digits.simps) (auto simp: digit_ascii)
  qed
qed

lemma nat_digits_no_char:
  "of_char c < (48 :: nat) \<or> (57 :: nat) < of_char c \<Longrightarrow> c \<notin> set (nat_digits n)"
  using nat_digits_chars by fastforce

lemma nat_digits_no_special [simp]:
  "CHR ''-'' \<notin> set (nat_digits n)" "CHR ''+'' \<notin> set (nat_digits n)"
  "CHR ''/'' \<notin> set (nat_digits n)" "CHR ''.'' \<notin> set (nat_digits n)"
  "CHR '':'' \<notin> set (nat_digits n)" "CHR 0x5C \<notin> set (nat_digits n)"
  by (rule nat_digits_no_char, simp)+

lemma parse_nat_digits [simp]: "parse_nat (nat_digits n) = Some n"
  by (simp add: parse_nat_def)

theorem ParseInt_FormatInt: "in_i64 n \<Longrightarrow> ParseInt (FormatInt n) = Some n"
proof -
  assume r: "in_i64 n"
  show ?thesis
  proof (cases "n < 0")
    case True
    with r have "\<not> 2 ^ 63 < nat (- n)" by (simp add: in_i64_def)
    with True show ?thesis by (simp add: ParseInt_def FormatInt_def)
  next
    case False
    obtain c s where cs: "nat_digits (nat n) = c # s"
      by (cases "nat_digits (nat n)") auto
    have "c \<noteq> CHR ''-''" "c \<noteq> CHR ''+''"
      using nat_digits_no_special(1,2) [of "nat n"] by (auto simp: cs)
    moreover have "\<not> 2 ^ 63 \<le> nat n" using r False by (simp add: in_i64_def)
    ultimately show ?thesis
      using False parse_nat_digits [of "nat n"] by (simp add: ParseInt_def FormatInt_def cs)
  qed
qed

lemma FormatInt_inj: "FormatInt m = FormatInt n \<Longrightarrow> m = n"
proof -
  assume e: "FormatInt m = FormatInt n"
  have inj: "nat_digits a = nat_digits b \<Longrightarrow> a = b" for a b
    by (metis digits_val_nat_digits option.inject)
  have hd: "nat_digits a \<noteq> CHR ''-'' # s" for a s
    by (metis list.set_intros(1) nat_digits_no_special(1))
  show "m = n"
    using e hd [symmetric] hd inj [of "nat m" "nat n"] inj [of "nat (- m)" "nat (- n)"]
    by (auto simp: FormatInt_def split: if_splits)
qed

lemma FormatInt_nonempty [simp]: "FormatInt n \<noteq> []"
  by (simp add: FormatInt_def)

lemma FormatInt_nonneg_no_dash [simp]: "0 \<le> n \<Longrightarrow> CHR ''-'' \<notin> set (FormatInt n)"
  by (simp add: FormatInt_def)

lemma FormatInt_no_special [simp]:
  "CHR ''/'' \<notin> set (FormatInt n)" "CHR ''.'' \<notin> set (FormatInt n)"
  "CHR '':'' \<notin> set (FormatInt n)" "CHR 0x5C \<notin> set (FormatInt n)"
  by (simp_all add: FormatInt_def)

section \<open>Splitting at the last separator\<close>

text \<open>A text is cut in one way only at the last occurrence of a separator.\<close>

lemma first_separator_unique:
  "xs @ c # ys = xs' @ c # ys' \<Longrightarrow> c \<notin> set xs \<Longrightarrow> c \<notin> set xs' \<Longrightarrow> xs = xs' \<and> ys = ys'"
proof (induction xs arbitrary: xs')
  case Nil
  then show ?case by (cases xs') auto
next
  case (Cons x xs)
  then show ?case by (cases xs') auto
qed

lemma last_separator_unique:
  assumes "xs @ c # ys = xs' @ c # ys'" "c \<notin> set ys" "c \<notin> set ys'"
  shows "xs = xs' \<and> ys = ys'"
proof -
  have "rev ys @ c # rev xs = rev ys' @ c # rev xs'"
    using arg_cong [OF assms(1), of rev] by simp
  from first_separator_unique [OF this] assms(2,3) show ?thesis by simp
qed

lemma LastIndexByte_append:
  assumes "c \<notin> set ys"
  shows "LastIndexByte (xs @ c # ys) c = len xs"
proof -
  have "takeWhile (\<lambda>x. x \<noteq> c) (rev (xs @ c # ys)) = rev ys"
    using assms by (simp add: takeWhile_append)
  then show ?thesis by (simp add: LastIndexByte_def del: rev_append)
qed

lemma TrimSuffix_append [simp]: "TrimSuffix (s @ p) p = s"
  by (simp add: TrimSuffix_def HasSuffix_def)

lemma TrimPrefix_append [simp]: "TrimPrefix (p @ s) p = s"
  by (simp add: TrimPrefix_def HasPrefix_def)

section \<open>Plain texts\<close>

text \<open>
  A text of printable ASCII characters has nothing to trim: every encoding of a white space begins, and ends, with a byte
  that is none of them.
\<close>

definition plain_text :: "string \<Rightarrow> bool" where
  "plain_text s \<longleftrightarrow> (\<forall>c \<in> set s. (33 :: nat) \<le> of_char c \<and> of_char c \<le> (126 :: nat))"

lemma plain_text_simps [simp]:
  "plain_text []" "plain_text (c # s) \<longleftrightarrow> (33 :: nat) \<le> of_char c \<and> of_char c \<le> (126 :: nat) \<and> plain_text s"
  "plain_text (s @ t) \<longleftrightarrow> plain_text s \<and> plain_text t"
  by (auto simp: plain_text_def)

lemma plain_text_digits [simp]: "plain_text (nat_digits n)"
  using nat_digits_chars by (fastforce simp: plain_text_def)

lemma plain_text_FormatInt [simp]: "plain_text (FormatInt n)"
  by (simp add: FormatInt_def)

lemma go_spaces_ends:
  "\<forall>p \<in> set go_spaces. p \<noteq> [] \<and> \<not> plain_text [hd p] \<and> \<not> plain_text [last p]"
  by (simp add: go_spaces_def bytes_of_def upt_rec)

lemma trim_with_plain:
  assumes "plain_text s" "\<forall>p \<in> set sp. p \<noteq> [] \<and> \<not> plain_text [hd p]"
  shows "trim_with sp n s = s"
proof -
  have "\<not> prefix p s" if "p \<in> set sp" for p
    using assms that by (cases p; cases s) (auto simp: plain_text_def)
  then have "List.find (\<lambda>p. prefix p s) sp = None" by (simp add: find_None_iff)
  then show ?thesis by (cases n) simp_all
qed

lemma TrimSpace_plain [simp]: "plain_text s \<Longrightarrow> TrimSpace s = s"
proof -
  assume "plain_text s"
  then have r: "plain_text (rev s)" by (simp add: plain_text_def)
  have "p \<noteq> [] \<and> \<not> plain_text [hd p]" if "p \<in> set (map rev go_spaces)" for p
    using go_spaces_ends that by (auto simp: hd_rev)
  then have "trim_with (map rev go_spaces) (length s) (rev s) = rev s"
    using trim_with_plain [OF r] by blast
  moreover have "trim_with go_spaces (length s) s = s"
    using trim_with_plain [OF \<open>plain_text s\<close>] go_spaces_ends by blast
  ultimately show ?thesis by (simp add: TrimSpace_def)
qed

lemma Contains_char [simp]: "Contains s [c] \<longleftrightarrow> c \<in> set s"
  by (induction s) auto

lemma FormatInt_no_comma [simp]: "CHR '','' \<notin> set (FormatInt n)"
  using nat_digits_no_char [of "CHR '',''"] by (simp add: FormatInt_def)

lemma SplitN2_append: "c \<notin> set s \<Longrightarrow> SplitN2 c (s @ c # t) = [s, t]"
  by (auto simp: SplitN2_def takeWhile_append dropWhile_append)

end
