(* ===== verification/GoPath.thy ===== *)
theory GoPath
  imports GoStrings
begin

text \<open>
  Go's \<open>path\<close> package (and \<open>path/filepath\<close> on Unix, the same functions): \<open>Clean\<close>, \<open>Join\<close> and
  \<open>Base\<close>. \<open>Clean\<close> is Go's lexical processing written over the list of path elements, the
  elements kept so far on a stack, newest first.
\<close>

definition clean_step :: "bool \<Rightarrow> string \<Rightarrow> string list \<Rightarrow> string list" where
  "clean_step rooted c st =
     (if c = [] \<or> c = ''.'' then st
      else if c = ''..'' then
        (case st of
           [] \<Rightarrow> if rooted then [] else [''..'']
         | t # ts \<Rightarrow> if t = ''..'' then ''..'' # st else ts)
      else c # st)"

definition clean_elems :: "bool \<Rightarrow> string \<Rightarrow> string list" where
  "clean_elems rooted p = fold (clean_step rooted) (Split CHR ''/'' p) []"

definition path_of :: "bool \<Rightarrow> string list \<Rightarrow> string" where
  "path_of rooted st =
     (let out = JoinWith CHR ''/'' (rev st)
      in if rooted then CHR ''/'' # out else if st = [] then ''.'' else out)"

definition Clean :: "string \<Rightarrow> string" where
  "Clean p = (if p = [] then ''.''
              else let rooted = (hd p = CHR ''/'') in path_of rooted (clean_elems rooted p))"

definition path_Join :: "string list \<Rightarrow> string" where
  "path_Join es = (case dropWhile (\<lambda>e. e = []) es of
                     [] \<Rightarrow> []
                   | fs \<Rightarrow> Clean (JoinWith CHR ''/'' fs))"

definition Base :: "string \<Rightarrow> string" where
  "Base p = (if p = [] then ''.''
             else let q = rev (dropWhile (\<lambda>c. c = CHR ''/'') (rev p));
                      b = rev (takeWhile (\<lambda>c. c \<noteq> CHR ''/'') (rev q))
                  in if b = [] then ''/'' else b)"

section \<open>Splitting and joining\<close>

text \<open>A path element proper: not empty, not a dot element, without a slash.\<close>

definition elem_ok :: "string \<Rightarrow> bool" where
  "elem_ok c \<longleftrightarrow> c \<noteq> [] \<and> c \<noteq> ''.'' \<and> c \<noteq> ''..'' \<and> CHR ''/'' \<notin> set c"

lemma Split_nonempty [simp]: "Split c s \<noteq> []"
  by (induction s) (auto split: list.splits)

lemma Split_append: "Split c (xs @ c # ys) = Split c xs @ Split c ys"
  by (induction xs) (auto split: list.splits)

lemma Split_single: "c \<notin> set s \<Longrightarrow> Split c s = [s]"
  by (induction s) auto

lemma Split_no_sep: "w \<in> set (Split c s) \<Longrightarrow> c \<notin> set w"
proof (induction s arbitrary: w)
  case (Cons x s)
  obtain v vs where v: "Split c s = v # vs" by (cases "Split c s") auto
  with Cons show ?case by (auto split: if_splits)
qed simp

lemma JoinWith_Cons: "ws \<noteq> [] \<Longrightarrow> JoinWith c (w # ws) = w @ c # JoinWith c ws"
  by (cases ws) auto

lemma JoinWith_snoc: "ws \<noteq> [] \<Longrightarrow> JoinWith c (ws @ [w]) = JoinWith c ws @ c # w"
proof (induction ws)
  case (Cons v ws)
  then show ?case by (cases ws) auto
qed simp

lemma Split_JoinWith: "ws \<noteq> [] \<Longrightarrow> \<forall>w\<in>set ws. c \<notin> set w \<Longrightarrow> Split c (JoinWith c ws) = ws"
proof (induction ws)
  case (Cons w ws)
  show ?case
  proof (cases "ws = []")
    case True
    with Cons.prems show ?thesis by (simp add: Split_single)
  next
    case False
    with Cons show ?thesis by (simp add: JoinWith_Cons Split_append Split_single)
  qed
qed simp

section \<open>Cleaned paths\<close>

lemma clean_step_ok [simp]: "elem_ok c \<Longrightarrow> clean_step r c st = c # st"
  by (simp add: clean_step_def elem_ok_def)

lemma clean_step_rooted:
  "\<forall>w\<in>set st. elem_ok w \<Longrightarrow> CHR ''/'' \<notin> set c \<Longrightarrow> \<forall>w\<in>set (clean_step True c st). elem_ok w"
  by (cases st) (auto simp: clean_step_def elem_ok_def)

lemma fold_clean_rooted:
  "\<forall>w\<in>set st. elem_ok w \<Longrightarrow> \<forall>c\<in>set cs. CHR ''/'' \<notin> set c \<Longrightarrow>
   \<forall>w\<in>set (fold (clean_step True) cs st). elem_ok w"
proof (induction cs arbitrary: st)
  case (Cons c cs)
  then have "\<forall>w\<in>set (clean_step True c st). elem_ok w"
    by (intro clean_step_rooted) simp_all
  from Cons.IH [OF this] Cons.prems(2) show ?case by simp
qed simp

text \<open>A rooted path has no empty, dot or dot-dot element left after cleaning.\<close>

lemma clean_elems_rooted: "\<forall>w\<in>set (clean_elems True p). elem_ok w"
  unfolding clean_elems_def by (rule fold_clean_rooted) (simp_all add: Split_no_sep)

lemma fold_clean_ok: "\<forall>c\<in>set cs. elem_ok c \<Longrightarrow> fold (clean_step r) cs st = rev cs @ st"
  by (induction cs arbitrary: st) auto

lemma clean_elems_path_of:
  assumes "\<forall>w\<in>set st. elem_ok w"
  shows "clean_elems True (path_of True st) = st"
proof (cases "st = []")
  case True
  then show ?thesis by (simp add: path_of_def clean_elems_def clean_step_def)
next
  case False
  have "Split CHR ''/'' (CHR ''/'' # JoinWith CHR ''/'' (rev st)) = [] # rev st"
    using False assms by (simp add: Split_JoinWith elem_ok_def)
  with assms show ?thesis
    by (simp add: path_of_def clean_elems_def clean_step_def fold_clean_ok)
qed

lemma Clean_rooted: "hd p = CHR ''/'' \<Longrightarrow> p \<noteq> [] \<Longrightarrow> Clean p = path_of True (clean_elems True p)"
  by (simp add: Clean_def)

lemma hd_path_of_rooted [simp]: "hd (path_of True st) = CHR ''/''" "path_of True st \<noteq> []"
  by (simp_all add: path_of_def)

theorem Clean_idem: "p \<noteq> [] \<Longrightarrow> hd p = CHR ''/'' \<Longrightarrow> Clean (Clean p) = Clean p"
  by (simp add: Clean_rooted clean_elems_path_of clean_elems_rooted)

section \<open>A file name in a directory\<close>

lemma path_of_Cons:
  "path_of r (n # st) = (if st = [] then (if r then CHR ''/'' # n else n)
                         else path_of r st @ CHR ''/'' # n)"
  by (auto simp: path_of_def JoinWith_snoc)

lemma Clean_dir_file:
  assumes "d \<noteq> []" "elem_ok n"
  shows "Clean (d @ CHR ''/'' # n) = path_of (hd d = CHR ''/'') (n # clean_elems (hd d = CHR ''/'') d)"
  using assms by (simp add: Clean_def clean_elems_def Split_append Split_single Let_def elem_ok_def)

text \<open>Two file names in one directory give two paths.\<close>

lemma path_Join_inj:
  assumes "d \<noteq> []" "elem_ok m" "elem_ok n" "path_Join [d, m] = path_Join [d, n]"
  shows "m = n"
  using assms by (auto simp: path_Join_def Clean_dir_file path_of_Cons split: if_splits)

lemma path_Join_suffix:
  assumes "d \<noteq> []" "elem_ok n"
  shows "suffix n (path_Join [d, n])"
  using assms by (auto simp: path_Join_def Clean_dir_file path_of_Cons suffix_def)

text \<open>The base of such a path is the name.\<close>

lemma dropWhile_slash_elem:
  assumes "elem_ok n"
  shows "dropWhile (\<lambda>c. c = CHR ''/'') (rev n @ xs) = rev n @ xs"
proof -
  obtain c r where cr: "rev n = c # r"
    using assms by (cases "rev n") (auto simp: elem_ok_def)
  moreover have "c \<in> set n" by (metis cr list.set_intros(1) set_rev)
  ultimately show ?thesis using assms by (auto simp: elem_ok_def)
qed

lemma takeWhile_elem: "elem_ok n \<Longrightarrow> takeWhile (\<lambda>c. c \<noteq> CHR ''/'') (rev n) = rev n"
  by (subst takeWhile_eq_all_conv) (auto simp: elem_ok_def)

lemma Base_append: "elem_ok n \<Longrightarrow> Base (d @ CHR ''/'' # n) = n"
proof -
  assume n: "elem_ok n"
  then have "takeWhile (\<lambda>c. c \<noteq> CHR ''/'') (rev n @ CHR ''/'' # rev d) = rev n"
    by (subst takeWhile_append2) (auto simp: elem_ok_def)
  then show ?thesis
    using n dropWhile_slash_elem [OF n, of "CHR ''/'' # rev d"]
    by (simp add: Base_def elem_ok_def)
qed

lemma Base_elem: "elem_ok n \<Longrightarrow> Base n = n"
proof -
  assume n: "elem_ok n"
  have "dropWhile (\<lambda>c. c = CHR ''/'') (rev n) = rev n"
    using dropWhile_slash_elem [OF n, of "[]"] by simp
  moreover have "n \<noteq> []" using n by (simp add: elem_ok_def)
  ultimately show ?thesis by (simp add: Base_def takeWhile_elem [OF n])
qed

lemma Base_path_Join: "d \<noteq> [] \<Longrightarrow> elem_ok n \<Longrightarrow> Base (path_Join [d, n]) = n"
  using Base_append [of n "[]"]
  by (auto simp: path_Join_def Clean_dir_file path_of_Cons Base_append Base_elem)

end
