(* ===== verification/ChunkStore.thy ===== *)
theory ChunkStore
  imports LruSpec GoPath
begin

text \<open>
  The chunk store of the stream engine (\<open>internal/stream/store.go\<close>): a memory cache bounded in
  bytes, a disk cache with an index of its own, and the naming of chunks on disk.

  State. A \<open>container/list\<close> is a list, front (least recently used) first. The maps \<open>memory\<close> and
  \<open>diskEntries\<close> hold pointers to list elements in Go; an element is stored under the key of its
  entry and keeps that key, so the model's maps hold the element's value, and the
  invariants \<open>mem_ok\<close> and \<open>disk_ok\<close> say that map and list agree. The field \<open>files\<close> stands for the
  files of the cache directory by path, which Go reaches through the \<open>os\<close> package; an
  \<open>os_env\<close> says which system calls fail.
\<close>

section \<open>Files, versions and keys\<close>

record File =
  flFSID :: string
  flSize :: int
  flMTM :: int

datatype chunkKey = ChunkKey (ckVersion: string) (ckIndex: int)

type_synonym cacheEntry = "chunkKey \<times> bytes"

record diskCacheEntry =
  dePath :: string
  deSize :: int

definition fileVersion :: "File \<Rightarrow> string" where
  "fileVersion f = flFSID f @ ''-'' @ FormatInt (flSize f) @ ''-'' @ FormatInt (flMTM f)"

definition chunkVersion :: "File \<Rightarrow> int \<Rightarrow> string" where
  "chunkVersion f chunkSize = fileVersion f @ ''-chunk-'' @ FormatInt chunkSize"

fun sanitizeVersion :: "string \<Rightarrow> string" where
  "sanitizeVersion [] = []"
| "sanitizeVersion (c # s) =
     (if c = CHR ''/'' \<or> c = CHR 0x5C \<or> c = CHR '':'' then CHR ''_'' # sanitizeVersion s
      else if c = CHR ''.'' \<and> prefix ''.'' s then CHR ''_'' # sanitizeVersion (drop 1 s)
      else c # sanitizeVersion s)"

definition chunkFileName :: "chunkKey \<Rightarrow> string" where
  "chunkFileName k = sanitizeVersion (ckVersion k) @ ''-'' @ FormatInt (ckIndex k) @ ''.chunk''"

definition parseChunkFileName :: "string \<Rightarrow> chunkKey option" where
  "parseChunkFileName name =
     (let base = TrimSuffix name ''.chunk'' in
      if base = name then None
      else let separator = LastIndexByte base CHR ''-'' in
        if separator \<le> 0 \<or> separator = len base - 1 then None
        else case ParseInt (drop (nat (separator + 1)) base) of
               None \<Rightarrow> None
             | Some i \<Rightarrow> if i < 0 then None else Some (ChunkKey (take (nat separator) base) i))"

section \<open>State\<close>

record chunkStore =
  memoryLimit :: int
  memoryBytes :: int
  memory :: "chunkKey \<rightharpoonup> bytes"
  lru :: "cacheEntry list"
  diskPath :: string
  diskLimit :: int
  diskBytes :: int
  diskReady :: "chunkKey \<rightharpoonup> int"
  diskLRU :: "(chunkKey \<times> diskCacheEntry) list"
  diskEntries :: "chunkKey \<rightharpoonup> diskCacheEntry"
  files :: "string \<rightharpoonup> bytes"

record os_env =
  createErr :: "goerr option"
  tempName :: string
  writeErr :: "goerr option"
  writeN :: nat
  closeErr :: "goerr option"
  renameErr :: "goerr option"
  readErr :: "string \<Rightarrow> bool"
  removeErr :: "string \<Rightarrow> goerr option"

definition diskOff :: "chunkStore \<Rightarrow> bool" where
  "diskOff s \<longleftrightarrow> diskPath s = [] \<or> diskLimit s \<le> 0"

definition chunkPath :: "chunkStore \<Rightarrow> chunkKey \<Rightarrow> string" where
  "chunkPath s k = path_Join [diskPath s, chunkFileName k]"

section \<open>Memory cache\<close>

text \<open>The eviction loop at the end of \<open>putMemory\<close>.\<close>

function evictMemory :: "chunkStore \<Rightarrow> chunkStore" where
  "evictMemory s =
     (if memoryLimit s < memoryBytes s \<and> lru s \<noteq> [] then
        let entry = hd (lru s)
        in evictMemory (s\<lparr>memory := (memory s)(fst entry := None),
                          memoryBytes := memoryBytes s - len (snd entry),
                          lru := tl (lru s)\<rparr>)
      else s)"
  by pat_completeness auto
termination
  by (relation "measure (\<lambda>s. length (lru s))") auto

declare evictMemory.simps [simp del]

definition putMemory :: "chunkKey \<Rightarrow> bytes \<Rightarrow> chunkStore \<Rightarrow> chunkStore" where
  "putMemory k d s =
     (if memoryLimit s \<le> 0 \<or> memoryLimit s < len d then s
      else case memory s k of
        Some old \<Rightarrow>
          evictMemory (s\<lparr>memoryBytes := memoryBytes s - len old + len d,
                         memory := (memory s)(k \<mapsto> d),
                         lru := without k (lru s) @ [(k, d)]\<rparr>)
      | None \<Rightarrow>
          evictMemory (s\<lparr>lru := lru s @ [(k, d)],
                         memory := (memory s)(k \<mapsto> d),
                         memoryBytes := memoryBytes s + len d\<rparr>))"

definition removeMemoryLocked :: "chunkKey \<Rightarrow> chunkStore \<Rightarrow> chunkStore" where
  "removeMemoryLocked k s =
     (case memory s k of
        None \<Rightarrow> s
      | Some d \<Rightarrow> s\<lparr>memory := (memory s)(k := None),
                    memoryBytes := memoryBytes s - len d,
                    lru := without k (lru s)\<rparr>)"

definition clearMemory :: "chunkStore \<Rightarrow> int \<times> chunkStore" where
  "clearMemory s = (memoryBytes s, s\<lparr>memory := Map.empty, lru := [], memoryBytes := 0\<rparr>)"

definition removeMemoryRange :: "string \<Rightarrow> int \<Rightarrow> int \<Rightarrow> chunkStore \<Rightarrow> chunkStore" where
  "removeMemoryRange v start end s =
     (if end \<le> start then s
      else fold (\<lambda>i. removeMemoryLocked (ChunkKey v i)) [start..end - 1] s)"

text \<open>\<open>pruneMemoryWindow\<close> ranges over a Go map, in no particular order; the model takes the keys
  in the order of the LRU list, and \<open>prune_any_order\<close> shows that the order does not matter.\<close>

definition outsideWindow :: "string \<Rightarrow> int \<Rightarrow> int \<Rightarrow> chunkKey \<Rightarrow> bool" where
  "outsideWindow v start end k \<longleftrightarrow> ckVersion k = v \<and> (ckIndex k < start \<or> end < ckIndex k)"

definition pruneKeys :: "string \<Rightarrow> int \<Rightarrow> int \<Rightarrow> chunkKey list \<Rightarrow> chunkStore \<Rightarrow> chunkStore" where
  "pruneKeys v start end ks s =
     fold (\<lambda>k t. if outsideWindow v start end k then removeMemoryLocked k t else t) ks s"

definition pruneMemoryWindow :: "string \<Rightarrow> int \<Rightarrow> int \<Rightarrow> chunkStore \<Rightarrow> chunkStore" where
  "pruneMemoryWindow v start end s = pruneKeys v start end (map fst (lru s)) s"

section \<open>Disk cache\<close>

definition addDiskLocked :: "chunkKey \<Rightarrow> string \<Rightarrow> int \<Rightarrow> chunkStore \<Rightarrow> chunkStore" where
  "addDiskLocked k path n s =
     (let e = \<lparr>dePath = path, deSize = n\<rparr>;
          s1 = (case diskEntries s k of
                  Some old \<Rightarrow>
                    s\<lparr>diskBytes := diskBytes s - deSize old,
                      diskEntries := (diskEntries s)(k \<mapsto> e),
                      diskLRU := without k (diskLRU s) @ [(k, e)]\<rparr>
                | None \<Rightarrow>
                    s\<lparr>diskLRU := diskLRU s @ [(k, e)],
                      diskEntries := (diskEntries s)(k \<mapsto> e)\<rparr>)
      in s1\<lparr>diskReady := (diskReady s1)(k \<mapsto> n), diskBytes := diskBytes s1 + n\<rparr>)"

definition touchDiskLocked :: "chunkKey \<Rightarrow> chunkStore \<Rightarrow> chunkStore" where
  "touchDiskLocked k s =
     (case diskEntries s k of None \<Rightarrow> s | Some e \<Rightarrow> s\<lparr>diskLRU := lru_touch k (diskLRU s)\<rparr>)"

definition removeDiskLocked :: "chunkKey \<Rightarrow> chunkStore \<Rightarrow> chunkStore" where
  "removeDiskLocked k s =
     (let s1 = (case diskEntries s k of
                  None \<Rightarrow> s
                | Some e \<Rightarrow> s\<lparr>diskBytes := diskBytes s - deSize e,
                              diskLRU := without k (diskLRU s),
                              diskEntries := (diskEntries s)(k := None)\<rparr>)
      in s1\<lparr>diskReady := (diskReady s1)(k := None)\<rparr>)"

text \<open>\<open>trimDiskLocked\<close> stops at the first file it cannot remove. The loop removes the front entry
  on every round, so it is written as a recursion over the list.\<close>

fun trimDiskList :: "os_env \<Rightarrow> (chunkKey \<times> diskCacheEntry) list \<Rightarrow> chunkStore \<Rightarrow> goerr option \<times> chunkStore" where
  "trimDiskList os [] s = (None, s)"
| "trimDiskList os ((k, e) # es) s =
     (if diskLimit s < diskBytes s then
        (case removeErr os (dePath e) of
           Some err \<Rightarrow> (Some err, s)
         | None \<Rightarrow> trimDiskList os es (removeDiskLocked k (s\<lparr>files := (files s)(dePath e := None)\<rparr>)))
      else (None, s))"

definition trimDiskLocked :: "os_env \<Rightarrow> chunkStore \<Rightarrow> goerr option \<times> chunkStore" where
  "trimDiskLocked os s = trimDiskList os (diskLRU s) s"

text \<open>The deferred \<open>os.Remove(tempPath)\<close> of \<open>putDisk\<close>; its error is ignored.\<close>

definition dropTemp :: "os_env \<Rightarrow> chunkStore \<Rightarrow> chunkStore" where
  "dropTemp os s =
     (if removeErr os (tempName os) = None then s\<lparr>files := (files s)(tempName os := None)\<rparr> else s)"

definition putDisk :: "os_env \<Rightarrow> chunkKey \<Rightarrow> bytes \<Rightarrow> chunkStore \<Rightarrow> goerr option \<times> chunkStore" where
  "putDisk os k d s =
     (if d = [] \<or> diskOff s then (None, s)
      else let path = chunkPath s k; temp = tempName os in
        case createErr os of Some e \<Rightarrow> (Some e, s) | None \<Rightarrow>
        case writeErr os of
          Some e \<Rightarrow> (Some e, dropTemp os (s\<lparr>files := (files s)(temp \<mapsto> take (writeN os) d)\<rparr>))
        | None \<Rightarrow>
        let s1 = s\<lparr>files := (files s)(temp \<mapsto> d)\<rparr> in
        case closeErr os of Some e \<Rightarrow> (Some e, dropTemp os s1) | None \<Rightarrow>
        case renameErr os of Some e \<Rightarrow> (Some e, dropTemp os s1) | None \<Rightarrow>
        let s2 = s1\<lparr>files := (files s1)(temp := None, path \<mapsto> d)\<rparr>
        in trimDiskLocked os (addDiskLocked k path (len d) s2))"

definition forgetDisk :: "os_env \<Rightarrow> chunkKey \<Rightarrow> string \<Rightarrow> chunkStore \<Rightarrow> chunkStore" where
  "forgetDisk os k path s =
     (let s1 = removeDiskLocked k s
      in if removeErr os path = None then s1\<lparr>files := (files s1)(path := None)\<rparr> else s1)"

section \<open>Lookups\<close>

definition getWithTouch :: "os_env \<Rightarrow> chunkKey \<Rightarrow> bool \<Rightarrow> chunkStore \<Rightarrow> bytes option \<times> chunkStore" where
  "getWithTouch os k touch s =
     (case memory s k of
        Some d \<Rightarrow> (Some d, if touch then s\<lparr>lru := lru_touch k (lru s)\<rparr> else s)
      | None \<Rightarrow>
          if diskOff s then (None, s)
          else let path = chunkPath s k in
            if diskReady s k = None then (None, s)
            else let s1 = touchDiskLocked k s in
              case (if readErr os path then None else files s1 path) of
                None \<Rightarrow> (None, forgetDisk os k path s1)
              | Some d \<Rightarrow> (Some d, putMemory k d s1))"

definition store_get :: "os_env \<Rightarrow> chunkKey \<Rightarrow> chunkStore \<Rightarrow> bytes option \<times> chunkStore" where
  "store_get os k s = getWithTouch os k True s"

definition getWithoutTouch :: "os_env \<Rightarrow> chunkKey \<Rightarrow> chunkStore \<Rightarrow> bytes option \<times> chunkStore" where
  "getWithoutTouch os k s = getWithTouch os k False s"

definition store_length :: "chunkKey \<Rightarrow> chunkStore \<Rightarrow> int option \<times> chunkStore" where
  "store_length k s =
     (case memory s k of
        Some d \<Rightarrow> (Some (len d), s)
      | None \<Rightarrow>
          if diskOff s then (None, s)
          else case diskReady s k of
                 Some n \<Rightarrow> (Some n, touchDiskLocked k s)
               | None \<Rightarrow> (None, s))"

definition usage :: "chunkStore \<Rightarrow> int \<times> int" where
  "usage s = (memoryBytes s, diskBytes s)"

definition store_put :: "os_env \<Rightarrow> chunkKey \<Rightarrow> bytes \<Rightarrow> chunkStore \<Rightarrow> goerr option \<times> chunkStore" where
  "store_put os k d s =
     (if d = [] then (None, s)
      else let s1 = putMemory k d s in if diskOff s then (None, s1) else putDisk os k d s1)"

section \<open>Opening a store\<close>

text \<open>A directory entry as \<open>os.ReadDir\<close> returns it: name, whether it is a directory, whether
  \<open>Info\<close> succeeds on a regular file, and the modification time.\<close>

record dirEntry =
  deName :: string
  deIsDir :: bool
  deRegular :: bool
  deModTime :: int

fun removePartialFiles :: "os_env \<Rightarrow> dirEntry list \<Rightarrow> chunkStore \<Rightarrow> goerr option \<times> chunkStore" where
  "removePartialFiles os [] s = (None, s)"
| "removePartialFiles os (e # es) s =
     (if \<not> deIsDir e \<and> HasSuffix (deName e) ''.part'' then
        let path = path_Join [diskPath s, deName e] in
        (case removeErr os path of
           Some err \<Rightarrow> (Some err, s)
         | None \<Rightarrow> removePartialFiles os es (s\<lparr>files := (files s)(path := None)\<rparr>))
      else removePartialFiles os es s)"

definition loadDiskIndex :: "os_env \<Rightarrow> dirEntry list \<Rightarrow> chunkStore \<Rightarrow> goerr option \<times> chunkStore" where
  "loadDiskIndex os entries s =
     (let fs = filter (\<lambda>e. \<not> deIsDir e \<and> HasSuffix (deName e) ''.chunk'' \<and> deRegular e) entries;
          sorted = sort_key deModTime fs;
          add = (\<lambda>e t. let path = path_Join [diskPath t, deName e] in
                   case parseChunkFileName (Base path) of
                     None \<Rightarrow> t
                   | Some k \<Rightarrow> addDiskLocked k path
                       (case files t path of None \<Rightarrow> 0 | Some d \<Rightarrow> len d) t)
      in trimDiskLocked os (fold add sorted s))"

definition emptyStore :: "int \<Rightarrow> string \<Rightarrow> int \<Rightarrow> (string \<rightharpoonup> bytes) \<Rightarrow> chunkStore" where
  "emptyStore ml dp dl fs =
     \<lparr>memoryLimit = ml, memoryBytes = 0, memory = Map.empty, lru = [],
      diskPath = dp, diskLimit = dl, diskBytes = 0, diskReady = Map.empty, diskLRU = [],
      diskEntries = Map.empty, files = fs\<rparr>"

definition newChunkStore ::
  "os_env \<Rightarrow> goerr option \<Rightarrow> (goerr + dirEntry list) \<Rightarrow> (goerr + dirEntry list) \<Rightarrow>
   int \<Rightarrow> string \<Rightarrow> int \<Rightarrow> (string \<rightharpoonup> bytes) \<Rightarrow> goerr + chunkStore" where
  "newChunkStore os mkdirErr dir1 dir2 ml dp dl fs =
     (if ml < 0 \<or> dl < 0 then Inl (ErrText ''cache limits must be non-negative'')
      else let s = emptyStore ml dp dl fs in
        if dp \<noteq> [] \<and> 0 < dl then
          case mkdirErr of Some e \<Rightarrow> Inl e | None \<Rightarrow>
          case dir1 of Inl e \<Rightarrow> Inl e | Inr es1 \<Rightarrow>
          case removePartialFiles os es1 s of (Some e, _) \<Rightarrow> Inl e | (None, s1) \<Rightarrow>
          case dir2 of Inl e \<Rightarrow> Inl e | Inr es2 \<Rightarrow>
          case loadDiskIndex os es2 s1 of (Some e, _) \<Rightarrow> Inl e | (None, s2) \<Rightarrow> Inr s2
        else Inr s)"

section \<open>The memory cache keeps its books\<close>

definition mem_sync :: "chunkStore \<Rightarrow> bool" where
  "mem_sync s \<longleftrightarrow> distinct (map fst (lru s)) \<and> memory s = map_of (lru s) \<and>
                 memoryBytes s = lru_total len (lru s)"

definition mem_ok :: "chunkStore \<Rightarrow> bool" where
  "mem_ok s \<longleftrightarrow> mem_sync s \<and> memoryBytes s \<le> memoryLimit s"

lemma evictMemory_frame [simp]:
  "memoryLimit (evictMemory s) = memoryLimit s" "diskPath (evictMemory s) = diskPath s"
  "diskLimit (evictMemory s) = diskLimit s" "diskBytes (evictMemory s) = diskBytes s"
  "diskReady (evictMemory s) = diskReady s" "diskLRU (evictMemory s) = diskLRU s"
  "diskEntries (evictMemory s) = diskEntries s" "files (evictMemory s) = files s"
  by (induction s rule: evictMemory.induct; subst evictMemory.simps; simp add: Let_def)+

lemma evictMemory_spec:
  "mem_sync s \<Longrightarrow> mem_sync (evictMemory s) \<and> lru (evictMemory s) = trim len (memoryLimit s) (lru s)"
proof (induction s rule: evictMemory.induct)
  case (1 s)
  show ?case
  proof (cases "memoryLimit s < memoryBytes s \<and> lru s \<noteq> []")
    case False
    with "1.prems" show ?thesis
      by (cases "lru s") (auto simp: evictMemory.simps [of s] mem_sync_def)
  next
    case True
    then obtain e es where es: "lru s = e # es" by (cases "lru s") auto
    let ?t = "s\<lparr>memory := (memory s)(fst (hd (lru s)) := None),
                memoryBytes := memoryBytes s - len (snd (hd (lru s))), lru := tl (lru s)\<rparr>"
    have "mem_sync ?t"
      using "1.prems" es map_of_eq_None_iff [of es "fst e"]
      by (cases e) (auto simp: mem_sync_def fun_eq_iff)
    with "1.IH" True have "mem_sync (evictMemory ?t) \<and> lru (evictMemory ?t) = trim len (memoryLimit s) es"
      by (simp add: es)
    moreover have "evictMemory s = evictMemory ?t"
      using True by (subst evictMemory.simps) (simp add: Let_def)
    moreover have "trim len (memoryLimit s) (lru s) = trim len (memoryLimit s) es"
      using True "1.prems" by (simp add: es mem_sync_def)
    ultimately show ?thesis by (simp only:)
  qed
qed

lemmas evictMemory_sync = evictMemory_spec [THEN conjunct1]
lemmas evictMemory_lru = evictMemory_spec [THEN conjunct2]

lemma putMemory_frame [simp]:
  "memoryLimit (putMemory k d s) = memoryLimit s" "diskPath (putMemory k d s) = diskPath s"
  "diskLimit (putMemory k d s) = diskLimit s" "diskBytes (putMemory k d s) = diskBytes s"
  "diskReady (putMemory k d s) = diskReady s" "diskLRU (putMemory k d s) = diskLRU s"
  "diskEntries (putMemory k d s) = diskEntries s" "files (putMemory k d s) = files s"
  by (simp_all add: putMemory_def split: option.split)

lemma mem_sync_without:
  assumes "mem_sync s"
  shows "lru_total len (without k (lru s)) =
         memoryBytes s - (case memory s k of None \<Rightarrow> 0 | Some d \<Rightarrow> len d)"
  using assms by (simp add: mem_sync_def lru_total_without)

lemma mem_sync_absent: "mem_sync s \<Longrightarrow> memory s k = None \<Longrightarrow> without k (lru s) = lru s"
  by (simp add: mem_sync_def map_of_eq_None_iff)

text \<open>Both branches of \<open>putMemory\<close> hand the same list to the eviction loop.\<close>

lemma putMemory_evict:
  assumes "mem_sync s" "0 < memoryLimit s" "len d \<le> memoryLimit s"
  shows "\<exists>t. putMemory k d s = evictMemory t \<and> mem_sync t \<and> memoryLimit t = memoryLimit s \<and>
             lru t = without k (lru s) @ [(k, d)]"
proof -
  let ?l = "without k (lru s) @ [(k, d)]"
  have m: "(map_of (lru s))(k \<mapsto> d) = map_of ?l"
    by (simp only: map_of_put_list)
  have dist: "distinct (map fst ?l)"
    using assms(1) by (simp add: distinct_put_list mem_sync_def del: map_append)
  show ?thesis
  proof (cases "memory s k")
    case None
    let ?t = "s\<lparr>lru := lru s @ [(k, d)], memory := (memory s)(k \<mapsto> d),
                memoryBytes := memoryBytes s + len d\<rparr>"
    have "putMemory k d s = evictMemory ?t"
      using assms None by (simp add: putMemory_def)
    moreover have "mem_sync ?t"
      using assms None m dist by (simp add: mem_sync_def mem_sync_absent)
    ultimately show ?thesis
      using assms None by (intro exI [of _ ?t]) (simp add: mem_sync_absent)
  next
    case (Some old)
    let ?t = "s\<lparr>memoryBytes := memoryBytes s - len old + len d,
                memory := (memory s)(k \<mapsto> d), lru := ?l\<rparr>"
    have "putMemory k d s = evictMemory ?t"
      using assms Some by (simp add: putMemory_def)
    moreover have "mem_sync ?t"
      using assms Some m dist mem_sync_without [of s k] by (simp add: mem_sync_def)
    ultimately show ?thesis by (intro exI [of _ ?t]) simp
  qed
qed

lemma putMemory_lru:
  assumes "mem_sync s" "0 < memoryLimit s" "len d \<le> memoryLimit s"
  shows "lru (putMemory k d s) = lru_put len (memoryLimit s) k d (lru s)"
  using putMemory_evict [OF assms, of k] by (auto simp: evictMemory_lru lru_put_def)

lemma putMemory_ok: "mem_ok s \<Longrightarrow> mem_ok (putMemory k d s)"
proof (cases "0 < memoryLimit s \<and> len d \<le> memoryLimit s")
  case True
  assume "mem_ok s"
  then have s: "mem_sync s" by (simp add: mem_ok_def)
  from True have lim: "0 < memoryLimit s" "len d \<le> memoryLimit s" by simp_all
  have "mem_sync (putMemory k d s)"
    using putMemory_evict [OF s lim, of k] by (auto intro: evictMemory_sync)
  moreover have "lru_total len (lru (putMemory k d s)) \<le> memoryLimit s"
    unfolding putMemory_lru [OF s lim] lru_put_def by (rule trim_total) (use True in auto)
  ultimately show ?thesis by (simp add: mem_ok_def mem_sync_def)
next
  case False
  assume "mem_ok s"
  with False show ?thesis by (auto simp: putMemory_def)
qed

lemma removeMemoryLocked_lru: "mem_sync s \<Longrightarrow> lru (removeMemoryLocked k s) = without k (lru s)"
  by (auto simp: removeMemoryLocked_def mem_sync_absent split: option.split)

lemma removeMemoryLocked_frame [simp]:
  "memoryLimit (removeMemoryLocked k s) = memoryLimit s" "diskPath (removeMemoryLocked k s) = diskPath s"
  "diskLimit (removeMemoryLocked k s) = diskLimit s" "diskBytes (removeMemoryLocked k s) = diskBytes s"
  "diskReady (removeMemoryLocked k s) = diskReady s" "diskLRU (removeMemoryLocked k s) = diskLRU s"
  "diskEntries (removeMemoryLocked k s) = diskEntries s" "files (removeMemoryLocked k s) = files s"
  by (simp_all add: removeMemoryLocked_def split: option.split)

lemma removeMemoryLocked_memory [simp]:
  "memory (removeMemoryLocked k s) = (memory s)(k := None)"
  by (auto simp: removeMemoryLocked_def split: option.split)

lemma removeMemoryLocked_sync: "mem_sync s \<Longrightarrow> mem_sync (removeMemoryLocked k s)"
  using mem_sync_without [of s k]
  by (auto simp: removeMemoryLocked_def mem_sync_def map_of_without split: option.split)

lemma removeMemoryLocked_ok: "mem_ok s \<Longrightarrow> mem_ok (removeMemoryLocked k s)"
  using removeMemoryLocked_sync [of s k]
  by (auto simp: mem_ok_def removeMemoryLocked_def split: option.split)

text \<open>The memory cache is a byte-bounded LRU cache.\<close>

interpretation mem: sized_lru lru memoryBytes memoryLimit len mem_ok memory
  "\<lambda>s d. 0 < memoryLimit s \<and> len d \<le> memoryLimit s" putMemory removeMemoryLocked
proof (unfold_locales, goal_cases)
  case (6 s v k)
  then show ?case by (simp add: putMemory_lru mem_ok_def)
next
  case (7 s v k)
  then show ?case by (auto simp: putMemory_def)
next
  case (9 s k v)
  then show ?case by (rule putMemory_ok)
next
  case (12 s k)
  then show ?case by (rule removeMemoryLocked_ok)
qed (simp_all add: mem_ok_def mem_sync_def removeMemoryLocked_lru)

end
