(* ===== verification/AccessMode.thy ===== *)
theory AccessMode
  imports StreamConfig ChunkStore
begin

text \<open>
  How a file handle of the stream engine classifies its reads (\<open>Handle\<close> and
  \<open>observeHandleLocked\<close> in \<open>internal/stream/manager.go\<close>): a handle starts in probe mode, moves
  to stream mode on a second forward read, and a jump out of the buffered distance is a seek.
  Small reads near the edges of a file are metadata probes that never change the mode.
\<close>

datatype accessMode = ModeProbe | ModeStream

datatype readEvent = EventNone | EventStart | EventSeek

record Handle =
  hFile :: File
  hId :: nat
  lastOffset :: int
  lastLength :: int
  forwardReads :: int
  hMode :: accessMode
  tailProbe :: bool
  hEpoch :: int
  released :: bool

record observation =
  obMode :: accessMode
  obEvent :: readEvent
  obStream :: bool

definition probeOnly :: "accessMode \<Rightarrow> observation" where
  "probeOnly md = \<lparr>obMode = md, obEvent = EventNone, obStream = False\<rparr>"

definition probeThreshold :: "Config \<Rightarrow> Handle \<Rightarrow> int" where
  "probeThreshold cfg h =
     (if flSize (hFile h) < 4 * MiB
      then (if go_div (ChunkSize cfg) 2 \<le> 0 then 1 else go_div (ChunkSize cfg) 2)
      else 131072)"

definition probeEdge :: "Config \<Rightarrow> Handle \<Rightarrow> int" where
  "probeEdge cfg h = (if flSize (hFile h) < 4 * MiB then ChunkSize cfg else MiB)"

definition headProbeEdge :: "Handle \<Rightarrow> int" where
  "headProbeEdge h = (if 256 * MiB \<le> flSize (hFile h) then 8 * MiB else 0)"

definition isTailProbe :: "Config \<Rightarrow> Handle \<Rightarrow> int \<Rightarrow> int \<Rightarrow> bool" where
  "isTailProbe cfg h offset n \<longleftrightarrow>
     0 < flSize (hFile h) \<and> n \<le> probeThreshold cfg h \<and>
     i64 (flSize (hFile h) - probeEdge cfg h) \<le> offset"

text \<open>The part after the early returns for tail and head probes: comparison with the last read.\<close>

definition observeSequence :: "Config \<Rightarrow> Handle \<Rightarrow> int \<Rightarrow> int \<Rightarrow> Handle \<times> observation" where
  "observeSequence cfg h offset n =
     (let tp = isTailProbe cfg h offset n;
          expected = i64 (lastOffset h + lastLength h);
          distance = i64 (offset - expected);
          edgeProbe = (n \<le> probeThreshold cfg h \<and> (offset < probeEdge cfg h \<or> tp));
          probeJump = (edgeProbe \<and> offset \<noteq> lastOffset h \<and> (distance < 0 \<or> SeekThreshold cfg < distance));
          forwardSeekThreshold = max (SeekThreshold cfg) (TargetBuffer cfg);
          seek = (offset \<noteq> lastOffset h \<and> hMode h = ModeStream \<and>
                  (distance < 0 \<or> forwardSeekThreshold < distance))
      in if 0 \<le> lastOffset h \<and> probeJump then (h, probeOnly (hMode h))
         else
           let (h1, event) =
                 (if 0 \<le> lastOffset h then
                    if seek then (h\<lparr>forwardReads := 1, hMode := ModeProbe\<rparr>, EventSeek)
                    else if offset = lastOffset h then (h, EventNone)
                    else if 0 \<le> distance \<and> distance \<le> ForwardGap cfg
                    then (h\<lparr>forwardReads := forwardReads h + 1\<rparr>, EventNone)
                    else (h\<lparr>forwardReads := 1\<rparr>, EventNone)
                  else (h\<lparr>forwardReads := 1\<rparr>, EventNone));
               (h2, event2) =
                 (if 2 \<le> forwardReads h1 \<and> hMode h1 \<noteq> ModeStream
                  then (h1\<lparr>hMode := ModeStream\<rparr>, EventStart) else (h1, event));
               h3 = h2\<lparr>lastOffset := offset, lastLength := n\<rparr>
           in (h3, \<lparr>obMode = hMode h3, obEvent = event2, obStream = (hMode h3 = ModeStream)\<rparr>))"

definition observeHandleLocked :: "Config \<Rightarrow> Handle \<Rightarrow> int \<Rightarrow> int \<Rightarrow> Handle \<times> observation" where
  "observeHandleLocked cfg h offset n =
     (let tp = isTailProbe cfg h offset n in
      if lastOffset h < 0 \<and> tp then
        (h\<lparr>tailProbe := True, lastOffset := offset, lastLength := n\<rparr>, probeOnly ModeProbe)
      else if tailProbe h \<and> tp then
        (h\<lparr>lastOffset := offset, lastLength := n\<rparr>, probeOnly ModeProbe)
      else
        let h1 = (if tailProbe h
                  then h\<lparr>tailProbe := False, lastOffset := - 1, lastLength := 0, forwardReads := 0,
                         hMode := ModeProbe\<rparr>
                  else h)
        in if 0 < headProbeEdge h \<and> hMode h1 \<noteq> ModeStream \<and> \<not> tp \<and> offset < headProbeEdge h then
             (h1\<lparr>lastOffset := offset, lastLength := n, forwardReads := 0\<rparr>, probeOnly ModeProbe)
           else observeSequence cfg h1 offset n)"

section \<open>What an observation can be\<close>

lemma probeOnly_simps [simp]:
  "obMode (probeOnly md) = md" "obEvent (probeOnly md) = EventNone" "obStream (probeOnly md) = False"
  by (simp_all add: probeOnly_def)

lemma observeSequence_frame:
  assumes "observeSequence cfg h offset n = (h', ob)"
  shows "hFile h' = hFile h" "hId h' = hId h" "hEpoch h' = hEpoch h" "released h' = released h"
    "tailProbe h' = tailProbe h" "obMode ob = hMode h'"
  using assms unfolding observeSequence_def Let_def by (simp_all split: if_splits) auto

text \<open>An event is reported exactly when the mode of the handle changes.\<close>

lemma observeSequence_events:
  assumes "observeSequence cfg h offset n = (h', ob)"
  shows "obEvent ob = EventStart \<Longrightarrow> hMode h \<noteq> ModeStream \<and> hMode h' = ModeStream"
    "obEvent ob = EventSeek \<Longrightarrow> hMode h = ModeStream \<and> hMode h' = ModeProbe"
    "obEvent ob = EventNone \<Longrightarrow> hMode h' = hMode h"
    "obStream ob \<Longrightarrow> hMode h' = ModeStream"
  using assms by (auto simp: observeSequence_def Let_def split: if_splits)

definition leaveTail :: "Handle \<Rightarrow> Handle" where
  "leaveTail h = h\<lparr>tailProbe := False, lastOffset := - 1, lastLength := 0, forwardReads := 0,
     hMode := ModeProbe\<rparr>"

lemma leaveTail_simps [simp]:
  "hFile (leaveTail h) = hFile h" "hId (leaveTail h) = hId h" "hEpoch (leaveTail h) = hEpoch h"
  "released (leaveTail h) = released h" "hMode (leaveTail h) = ModeProbe"
  by (simp_all add: leaveTail_def)

lemma observeHandle_cases:
  obtains (probe) "snd (observeHandleLocked cfg h offset n) = probeOnly ModeProbe"
      "\<exists>h1 \<in> {h, leaveTail h}. \<exists>t f. fst (observeHandleLocked cfg h offset n) =
         h1\<lparr>tailProbe := t, lastOffset := offset, lastLength := n, forwardReads := f\<rparr>"
  | (sequence) "observeHandleLocked cfg h offset n = observeSequence cfg h offset n"
  | (afterTail) "observeHandleLocked cfg h offset n = observeSequence cfg (leaveTail h) offset n"
proof -
  define tp where "tp = isTailProbe cfg h offset n"
  consider "lastOffset h < 0 \<and> tp \<or> tailProbe h \<and> tp"
    | "\<not> (lastOffset h < 0 \<and> tp)" "\<not> (tailProbe h \<and> tp)" "tailProbe h"
    | "\<not> (lastOffset h < 0 \<and> tp)" "\<not> tailProbe h"
    by blast
  then show thesis
  proof cases
    case 1
    show thesis
    proof (rule probe)
      show "snd (observeHandleLocked cfg h offset n) = probeOnly ModeProbe"
        using 1 by (auto simp: observeHandleLocked_def tp_def Let_def)
      show "\<exists>h1 \<in> {h, leaveTail h}. \<exists>t f. fst (observeHandleLocked cfg h offset n) =
         h1\<lparr>tailProbe := t, lastOffset := offset, lastLength := n, forwardReads := f\<rparr>"
        by (rule bexI [of _ h], rule exI [of _ "tailProbe (fst (observeHandleLocked cfg h offset n))"],
            rule exI [of _ "forwardReads h"])
          (use 1 in \<open>auto simp: observeHandleLocked_def tp_def Let_def\<close>)
    qed
  next
    case 2
    have eq: "observeHandleLocked cfg h offset n =
      (if 0 < headProbeEdge h \<and> \<not> tp \<and> offset < headProbeEdge h
       then ((leaveTail h)\<lparr>lastOffset := offset, lastLength := n, forwardReads := 0\<rparr>, probeOnly ModeProbe)
       else observeSequence cfg (leaveTail h) offset n)"
      using 2 unfolding observeHandleLocked_def leaveTail_def Let_def tp_def by simp
    show thesis
    proof (cases "0 < headProbeEdge h \<and> \<not> tp \<and> offset < headProbeEdge h")
      case True
      show thesis
        by (rule probe, simp add: eq True, rule bexI [of _ "leaveTail h"], rule exI [of _ False],
            rule exI [of _ 0]) (simp_all add: eq True leaveTail_def)
    qed (use eq in \<open>auto intro: afterTail\<close>)
  next
    case 3
    have eq: "observeHandleLocked cfg h offset n =
      (if 0 < headProbeEdge h \<and> hMode h \<noteq> ModeStream \<and> \<not> tp \<and> offset < headProbeEdge h
       then (h\<lparr>lastOffset := offset, lastLength := n, forwardReads := 0\<rparr>, probeOnly ModeProbe)
       else observeSequence cfg h offset n)"
      using 3 unfolding observeHandleLocked_def Let_def tp_def by auto
    show thesis
    proof (cases "0 < headProbeEdge h \<and> hMode h \<noteq> ModeStream \<and> \<not> tp \<and> offset < headProbeEdge h")
      case True
      show thesis
        by (rule probe, simp add: eq True, rule bexI [of _ h], rule exI [of _ False],
            rule exI [of _ 0]) (use 3 in \<open>simp_all add: eq True\<close>)
    qed (use eq in \<open>auto intro: sequence\<close>)
  qed
qed

lemma observeHandle_frame:
  fixes cfg h offset n
  defines "h' \<equiv> fst (observeHandleLocked cfg h offset n)"
  shows "hFile h' = hFile h" "hId h' = hId h" "hEpoch h' = hEpoch h" "released h' = released h"
  unfolding h'_def
  by (rule observeHandle_cases [of cfg h offset n]; auto simp: observeSequence_frame [OF prod.collapse [symmetric]])+

lemma observeHandle_events:
  fixes cfg h offset n
  defines "h' \<equiv> fst (observeHandleLocked cfg h offset n)" and "ob \<equiv> snd (observeHandleLocked cfg h offset n)"
  shows "obEvent ob = EventStart \<Longrightarrow> hMode h' = ModeStream"
    "obEvent ob = EventSeek \<Longrightarrow> hMode h = ModeStream \<and> hMode h' = ModeProbe"
    "obStream ob \<Longrightarrow> obMode ob = ModeStream \<and> hMode h' = ModeStream"
  unfolding h'_def ob_def
  by (rule observeHandle_cases [of cfg h offset n];
      auto dest: observeSequence_events [OF prod.collapse [symmetric]]
        simp: observeSequence_frame [OF prod.collapse [symmetric]])+

text \<open>Sequential playback: in stream mode a read that continues the last one, or lands within the
  buffered distance ahead of it, stays in stream mode and is no event.\<close>

lemma observe_sequential:
  assumes "hMode h = ModeStream" "\<not> tailProbe h" "0 \<le> lastOffset h" "0 \<le> lastLength h"
    and "lastOffset h + lastLength h \<le> offset"
    and "offset - (lastOffset h + lastLength h) \<le> max (SeekThreshold cfg) (TargetBuffer cfg)"
    and "offset < 2 ^ 63" "probeThreshold cfg h < n"
  shows "\<exists>h'. observeHandleLocked cfg h offset n =
     (h', \<lparr>obMode = ModeStream, obEvent = EventNone, obStream = True\<rparr>) \<and> hMode h' = ModeStream"
proof -
  have "i64 (lastOffset h + lastLength h) = lastOffset h + lastLength h"
    using assms by (intro i64_nonneg_id) auto
  moreover have "i64 (offset - (lastOffset h + lastLength h)) = offset - (lastOffset h + lastLength h)"
    using assms by (intro i64_nonneg_id) auto
  moreover have "\<not> isTailProbe cfg h offset n" using assms(8) by (simp add: isTailProbe_def)
  ultimately show ?thesis
    using assms by (auto simp: observeHandleLocked_def observeSequence_def Let_def max_def)
qed

text \<open>Starting playback: on a file without a head probe area, a first read that is no tail probe
  followed by a read that continues it switches the handle to stream mode and reports a start.\<close>

definition newHandle :: "File \<Rightarrow> nat \<Rightarrow> Handle" where
  "newHandle f i = \<lparr>hFile = f, hId = i, lastOffset = - 1, lastLength = 0, forwardReads = 0,
     hMode = ModeProbe, tailProbe = False, hEpoch = 0, released = False\<rparr>"

lemma observe_first:
  assumes "flSize f < 256 * MiB" "\<not> isTailProbe cfg (newHandle f i) o1 l1"
  shows "observeHandleLocked cfg (newHandle f i) o1 l1 =
    ((newHandle f i)\<lparr>forwardReads := 1, lastOffset := o1, lastLength := l1\<rparr>,
     probeOnly ModeProbe)"
  using assms
  by (simp add: observeHandleLocked_def observeSequence_def newHandle_def headProbeEdge_def Let_def
      probeOnly_def isTailProbe_def probeThreshold_def probeEdge_def)

lemma observe_second:
  assumes "hMode h = ModeProbe" "\<not> tailProbe h" "forwardReads h = 1" "flSize (hFile h) < 256 * MiB"
    and "0 \<le> lastOffset h" "0 < lastLength h" "offset = lastOffset h + lastLength h" "offset < 2 ^ 63"
    and "0 \<le> ForwardGap cfg" "0 \<le> SeekThreshold cfg"
  shows "\<exists>h'. observeHandleLocked cfg h offset n =
     (h', \<lparr>obMode = ModeStream, obEvent = EventStart, obStream = True\<rparr>) \<and> hMode h' = ModeStream"
proof -
  have "i64 (lastOffset h + lastLength h) = offset" using assms by (simp add: i64_nonneg_id)
  moreover have "i64 (offset - offset) = 0" by simp
  ultimately show ?thesis
    using assms by (auto simp: observeHandleLocked_def observeSequence_def Let_def headProbeEdge_def)
qed

end
