(* ===== verification/ChunkStoreLaws.thy ===== *)
theory ChunkStoreLaws
  imports ChunkStore
begin

text \<open>
  What the chunk store promises to the stream manager: windows are removed exactly, the disk
  index stays within its limit and in step with its map, chunk file names and versions are
  unambiguous, and a lookup returns only bytes that were stored under the key
  (\<open>store_coherent\<close>).
\<close>

named_theorems store_frame \<open>fields an operation of the store leaves alone\<close>

section \<open>Removing windows of the memory cache\<close>

lemma pruneKeys_Nil [simp]: "pruneKeys v a b [] s = s"
  by (simp add: pruneKeys_def)

lemma pruneKeys_Cons [simp]:
  "pruneKeys v a b (k # ks) s =
   pruneKeys v a b ks (if outsideWindow v a b k then removeMemoryLocked k s else s)"
  by (simp add: pruneKeys_def)

lemma without_filter: "without k (filter P xs) = filter P (without k xs)"
  by (simp add: without_def conj_commute)

lemma pruneKeys_spec:
  "mem_ok s \<Longrightarrow> mem_ok (pruneKeys v a b ks s) \<and>
     lru (pruneKeys v a b ks s) = filter (\<lambda>e. \<not> (fst e \<in> set ks \<and> outsideWindow v a b (fst e))) (lru s)"
proof (induction ks arbitrary: s)
  case Nil
  then show ?case by simp
next
  case (Cons k ks)
  let ?s = "if outsideWindow v a b k then removeMemoryLocked k s else s"
  have "mem_ok ?s" using Cons.prems by (simp add: removeMemoryLocked_ok)
  with Cons.IH [of ?s] have
    IH: "mem_ok (pruneKeys v a b ks ?s)"
    "lru (pruneKeys v a b ks ?s) = filter (\<lambda>e. \<not> (fst e \<in> set ks \<and> outsideWindow v a b (fst e))) (lru ?s)"
    by blast+
  have "lru ?s = (if outsideWindow v a b k then without k (lru s) else lru s)"
    using Cons.prems by (simp add: removeMemoryLocked_lru mem_ok_def)
  with IH show ?case by (auto simp: without_def intro!: filter_cong)
qed

lemma pruneKeys_frame [simp]:
  "memoryLimit (pruneKeys v a b ks s) = memoryLimit s" "diskPath (pruneKeys v a b ks s) = diskPath s"
  "diskLimit (pruneKeys v a b ks s) = diskLimit s" "diskBytes (pruneKeys v a b ks s) = diskBytes s"
  "diskReady (pruneKeys v a b ks s) = diskReady s" "diskLRU (pruneKeys v a b ks s) = diskLRU s"
  "diskEntries (pruneKeys v a b ks s) = diskEntries s" "files (pruneKeys v a b ks s) = files s"
  by (induction ks arbitrary: s) simp_all

lemma pruneMemoryWindow_frame [simp]:
  "memoryLimit (pruneMemoryWindow v a b s) = memoryLimit s"
  "diskPath (pruneMemoryWindow v a b s) = diskPath s"
  "diskLimit (pruneMemoryWindow v a b s) = diskLimit s"
  "diskBytes (pruneMemoryWindow v a b s) = diskBytes s"
  "diskReady (pruneMemoryWindow v a b s) = diskReady s"
  "diskLRU (pruneMemoryWindow v a b s) = diskLRU s"
  "diskEntries (pruneMemoryWindow v a b s) = diskEntries s"
  "files (pruneMemoryWindow v a b s) = files s"
  by (simp_all add: pruneMemoryWindow_def)

lemma pruneMemoryWindow_ok: "mem_ok s \<Longrightarrow> mem_ok (pruneMemoryWindow v a b s)"
  by (simp add: pruneMemoryWindow_def pruneKeys_spec)

lemma pruneMemoryWindow_memory:
  assumes "mem_ok s"
  shows "memory (pruneMemoryWindow v a b s) k = (if outsideWindow v a b k then None else memory s k)"
proof -
  let ?t = "pruneMemoryWindow v a b s"
  have "lru ?t = filter (\<lambda>e. \<not> outsideWindow v a b (fst e)) (lru s)"
    using assms by (auto simp: pruneMemoryWindow_def pruneKeys_spec intro!: filter_cong)
  moreover have "memory ?t = map_of (lru ?t)" "memory s = map_of (lru s)"
    using assms pruneMemoryWindow_ok [OF assms, of v a b] by (auto simp: mem_ok_def mem_sync_def)
  ultimately show ?thesis
    by (simp add: map_of_filter_fst [of "\<lambda>j. \<not> outsideWindow v a b j"])
qed

text \<open>Go ranges over the map in any order: the result is the same for every enumeration.\<close>

lemma prune_any_order:
  assumes "mem_ok s" "set ks = dom (memory s)"
  shows "pruneKeys v a b ks s = pruneMemoryWindow v a b s"
proof -
  let ?t = "pruneKeys v a b ks s" and ?u = "pruneMemoryWindow v a b s"
  have "set ks = fst ` set (lru s)"
    using assms by (simp add: mem_ok_def mem_sync_def dom_map_of_conv_image_fst)
  then have l: "lru ?t = lru ?u"
    using assms by (auto simp: pruneMemoryWindow_def pruneKeys_spec intro!: filter_cong)
  have "mem_ok ?t" "mem_ok ?u"
    using assms by (simp_all add: pruneKeys_spec pruneMemoryWindow_ok)
  with l have "memory ?t = memory ?u" "memoryBytes ?t = memoryBytes ?u"
    by (auto simp: mem_ok_def mem_sync_def)
  with l show ?thesis by (intro chunkStore.equality) simp_all
qed

lemma fold_remove_memory:
  "memory (fold (\<lambda>i. removeMemoryLocked (ChunkKey v i)) is s) k =
   (if ckVersion k = v \<and> ckIndex k \<in> set is then None else memory s k)"
  by (induction "is" arbitrary: s) (auto simp: fun_upd_apply)

lemma fold_remove_ok: "mem_ok s \<Longrightarrow> mem_ok (fold (\<lambda>i. removeMemoryLocked (ChunkKey v i)) is s)"
  by (induction "is" arbitrary: s) (auto intro: removeMemoryLocked_ok)

lemma fold_remove_frame [simp]:
  "memoryLimit (fold (\<lambda>i. removeMemoryLocked (ChunkKey v i)) is s) = memoryLimit s"
  "diskPath (fold (\<lambda>i. removeMemoryLocked (ChunkKey v i)) is s) = diskPath s"
  "diskLimit (fold (\<lambda>i. removeMemoryLocked (ChunkKey v i)) is s) = diskLimit s"
  "diskBytes (fold (\<lambda>i. removeMemoryLocked (ChunkKey v i)) is s) = diskBytes s"
  "diskReady (fold (\<lambda>i. removeMemoryLocked (ChunkKey v i)) is s) = diskReady s"
  "diskLRU (fold (\<lambda>i. removeMemoryLocked (ChunkKey v i)) is s) = diskLRU s"
  "diskEntries (fold (\<lambda>i. removeMemoryLocked (ChunkKey v i)) is s) = diskEntries s"
  "files (fold (\<lambda>i. removeMemoryLocked (ChunkKey v i)) is s) = files s"
  by (induction "is" arbitrary: s) simp_all

lemma removeMemoryRange_memory:
  "memory (removeMemoryRange v a b s) k =
   (if ckVersion k = v \<and> a \<le> ckIndex k \<and> ckIndex k < b then None else memory s k)"
  by (auto simp: removeMemoryRange_def fold_remove_memory)

lemma removeMemoryRange_ok: "mem_ok s \<Longrightarrow> mem_ok (removeMemoryRange v a b s)"
  by (simp add: removeMemoryRange_def fold_remove_ok)

lemma removeMemoryRange_frame [simp]:
  "memoryLimit (removeMemoryRange v a b s) = memoryLimit s"
  "diskPath (removeMemoryRange v a b s) = diskPath s"
  "diskLimit (removeMemoryRange v a b s) = diskLimit s"
  "diskBytes (removeMemoryRange v a b s) = diskBytes s"
  "diskReady (removeMemoryRange v a b s) = diskReady s"
  "diskLRU (removeMemoryRange v a b s) = diskLRU s"
  "diskEntries (removeMemoryRange v a b s) = diskEntries s"
  "files (removeMemoryRange v a b s) = files s"
  by (simp_all add: removeMemoryRange_def)

lemma clearMemory_ok: "mem_ok s \<Longrightarrow> mem_ok (snd (clearMemory s))"
proof -
  assume "mem_ok s"
  moreover have "0 \<le> lru_total len (lru s)" by (rule lru_total_nonneg) simp
  ultimately show ?thesis by (simp add: mem_ok_def mem_sync_def clearMemory_def)
qed

section \<open>The disk index keeps its books\<close>

definition disk_sync :: "chunkStore \<Rightarrow> bool" where
  "disk_sync s \<longleftrightarrow> distinct (map fst (diskLRU s)) \<and> diskEntries s = map_of (diskLRU s) \<and>
     diskReady s = (\<lambda>k. map_option deSize (diskEntries s k)) \<and>
     diskBytes s = lru_total deSize (diskLRU s) \<and> (\<forall>e\<in>set (diskLRU s). 0 \<le> deSize (snd e))"

definition disk_ok :: "chunkStore \<Rightarrow> bool" where
  "disk_ok s \<longleftrightarrow> disk_sync s \<and> diskBytes s \<le> diskLimit s"

lemma addDiskLocked_frame [simp]:
  "memoryLimit (addDiskLocked k p n s) = memoryLimit s" "diskPath (addDiskLocked k p n s) = diskPath s"
  "diskLimit (addDiskLocked k p n s) = diskLimit s" "memoryBytes (addDiskLocked k p n s) = memoryBytes s"
  "memory (addDiskLocked k p n s) = memory s" "lru (addDiskLocked k p n s) = lru s"
  "files (addDiskLocked k p n s) = files s"
  by (simp_all add: addDiskLocked_def Let_def split: option.split)

lemma removeDiskLocked_frame [simp]:
  "memoryLimit (removeDiskLocked k s) = memoryLimit s" "diskPath (removeDiskLocked k s) = diskPath s"
  "diskLimit (removeDiskLocked k s) = diskLimit s" "memoryBytes (removeDiskLocked k s) = memoryBytes s"
  "memory (removeDiskLocked k s) = memory s" "lru (removeDiskLocked k s) = lru s"
  "files (removeDiskLocked k s) = files s"
  by (simp_all add: removeDiskLocked_def Let_def split: option.split)

lemma touchDiskLocked_frame [simp]:
  "memoryLimit (touchDiskLocked k s) = memoryLimit s" "diskPath (touchDiskLocked k s) = diskPath s"
  "diskLimit (touchDiskLocked k s) = diskLimit s" "memoryBytes (touchDiskLocked k s) = memoryBytes s"
  "memory (touchDiskLocked k s) = memory s" "lru (touchDiskLocked k s) = lru s"
  "files (touchDiskLocked k s) = files s" "diskBytes (touchDiskLocked k s) = diskBytes s"
  "diskReady (touchDiskLocked k s) = diskReady s" "diskEntries (touchDiskLocked k s) = diskEntries s"
  by (simp_all add: touchDiskLocked_def split: option.split)

lemma disk_sync_absent: "disk_sync s \<Longrightarrow> diskEntries s k = None \<Longrightarrow> without k (diskLRU s) = diskLRU s"
  by (simp add: disk_sync_def map_of_eq_None_iff)

lemma removeDiskLocked_lru: "disk_sync s \<Longrightarrow> diskLRU (removeDiskLocked k s) = without k (diskLRU s)"
  by (auto simp: removeDiskLocked_def Let_def disk_sync_absent split: option.split)

lemma removeDiskLocked_sync:
  assumes "disk_sync s"
  shows "disk_sync (removeDiskLocked k s)"
proof (cases "diskEntries s k")
  case None
  then have "removeDiskLocked k s = s"
    using assms by (intro chunkStore.equality)
      (auto simp: removeDiskLocked_def disk_sync_def fun_eq_iff)
  with assms show ?thesis by simp
next
  case (Some e)
  with assms lru_total_without [of "diskLRU s" deSize k] show ?thesis
    by (auto simp: removeDiskLocked_def disk_sync_def map_of_without fun_eq_iff
        dest: set_without_subset)
qed

lemma addDiskLocked_lru:
  "disk_sync s \<Longrightarrow>
   diskLRU (addDiskLocked k p n s) = without k (diskLRU s) @ [(k, \<lparr>dePath = p, deSize = n\<rparr>)]"
  by (auto simp: addDiskLocked_def Let_def disk_sync_absent split: option.split)

lemma addDiskLocked_entries [simp]:
  "diskEntries (addDiskLocked k p n s) = (diskEntries s)(k \<mapsto> \<lparr>dePath = p, deSize = n\<rparr>)"
  "diskReady (addDiskLocked k p n s) = (diskReady s)(k \<mapsto> n)"
  by (simp_all add: addDiskLocked_def Let_def split: option.split)

lemma addDiskLocked_sync:
  assumes "disk_sync s" "0 \<le> n"
  shows "disk_sync (addDiskLocked k p n s)"
proof -
  let ?t = "addDiskLocked k p n s" and ?e = "\<lparr>dePath = p, deSize = n\<rparr>"
  have "diskBytes ?t = lru_total deSize (without k (diskLRU s)) + n"
    using assms lru_total_without [of "diskLRU s" deSize k]
    by (auto simp: addDiskLocked_def Let_def disk_sync_def split: option.split)
  then show ?thesis
    using assms distinct_put_list [of "diskLRU s" k ?e] map_of_put_list [of k "diskLRU s" ?e]
    by (auto simp: disk_sync_def addDiskLocked_lru [OF assms(1)]
        dest: set_without_subset simp del: map_append map_of_append)
qed

lemma touchDiskLocked_sync: "disk_sync s \<Longrightarrow> disk_sync (touchDiskLocked k s)"
  by (simp add: disk_sync_def touchDiskLocked_def distinct_lru_touch split: option.split)

lemma touchDiskLocked_ok: "disk_ok s \<Longrightarrow> disk_ok (touchDiskLocked k s)"
  by (simp add: disk_ok_def touchDiskLocked_sync)

lemma lru_total_nonneg_on: "\<forall>e\<in>set xs. 0 \<le> sz (snd e) \<Longrightarrow> 0 \<le> lru_total sz xs"
  by (induction xs) (auto intro: add_nonneg_nonneg)

lemma removeDiskLocked_ok: "disk_ok s \<Longrightarrow> disk_ok (removeDiskLocked k s)"
proof -
  assume s: "disk_ok s"
  then have "0 \<le> (case map_of (diskLRU s) k of None \<Rightarrow> 0 | Some e \<Rightarrow> deSize e)"
    by (auto simp: disk_ok_def disk_sync_def dest: map_of_SomeD split: option.split)
  moreover have "disk_sync (removeDiskLocked k s)"
    using s by (simp add: disk_ok_def removeDiskLocked_sync)
  ultimately show ?thesis
    using s lru_total_without [of "diskLRU s" deSize k]
    by (auto simp: disk_ok_def disk_sync_def removeDiskLocked_lru)
qed

lemma disk_sync_files [simp]: "disk_sync (s\<lparr>files := f\<rparr>) = disk_sync s"
  by (simp add: disk_sync_def)

lemma disk_ok_files [simp]: "disk_ok (s\<lparr>files := f\<rparr>) = disk_ok s"
  by (simp add: disk_ok_def)

subsection \<open>Trimming\<close>

lemma trimDiskList_frame:
  "memoryLimit (snd (trimDiskList os es s)) = memoryLimit s \<and>
   diskPath (snd (trimDiskList os es s)) = diskPath s \<and>
   diskLimit (snd (trimDiskList os es s)) = diskLimit s \<and>
   memoryBytes (snd (trimDiskList os es s)) = memoryBytes s \<and>
   memory (snd (trimDiskList os es s)) = memory s \<and> lru (snd (trimDiskList os es s)) = lru s"
  by (induction os es s rule: trimDiskList.induct) (auto split: option.split)

lemma trimDiskLocked_frame [simp]:
  "memoryLimit (snd (trimDiskLocked os s)) = memoryLimit s"
  "diskPath (snd (trimDiskLocked os s)) = diskPath s"
  "diskLimit (snd (trimDiskLocked os s)) = diskLimit s"
  "memoryBytes (snd (trimDiskLocked os s)) = memoryBytes s"
  "memory (snd (trimDiskLocked os s)) = memory s" "lru (snd (trimDiskLocked os s)) = lru s"
  by (simp_all add: trimDiskLocked_def trimDiskList_frame)

lemma disk_sync_without_hd:
  "disk_sync s \<Longrightarrow> diskLRU s = (k, e) # es \<Longrightarrow> without k es = es"
  by (auto simp: disk_sync_def)

lemma removeDiskLocked_hd:
  "disk_sync s \<Longrightarrow> diskLRU s = (k, e) # es \<Longrightarrow> diskLRU (removeDiskLocked k (s\<lparr>files := f\<rparr>)) = es"
  using disk_sync_without_hd [of s k e es] by (simp add: removeDiskLocked_lru)

text \<open>With the index in step, the recursion is the loop of the source: look at the front, stop
  when the bytes fit or a file cannot be removed, else drop the front and go round again.\<close>

lemma trimDiskLocked_loop:
  assumes "disk_sync s"
  shows "trimDiskLocked os s =
     (if diskLimit s < diskBytes s \<and> diskLRU s \<noteq> [] then
        let (k, e) = hd (diskLRU s) in
        case removeErr os (dePath e) of
          Some err \<Rightarrow> (Some err, s)
        | None \<Rightarrow> trimDiskLocked os (removeDiskLocked k (s\<lparr>files := (files s)(dePath e := None)\<rparr>))
      else (None, s))"
proof (cases "diskLRU s")
  case Nil
  then show ?thesis by (simp add: trimDiskLocked_def)
next
  case (Cons ke es)
  obtain k e where ke: "ke = (k, e)" by (cases ke)
  let ?t = "s\<lparr>files := (files s)(dePath e := None)\<rparr>"
  have "diskLRU (removeDiskLocked k ?t) = es"
    using assms Cons ke by (simp add: removeDiskLocked_hd)
  with Cons ke show ?thesis by (simp add: trimDiskLocked_def split: option.split)
qed

lemma trimDiskList_sync:
  "disk_sync s \<Longrightarrow> diskLRU s = es \<Longrightarrow> disk_sync (snd (trimDiskList os es s))"
proof (induction os es s rule: trimDiskList.induct)
  case (2 os k e es s)
  let ?t = "removeDiskLocked k (s\<lparr>files := (files s)(dePath e := None)\<rparr>)"
  have "diskLRU ?t = es" using "2.prems" by (simp add: removeDiskLocked_hd)
  moreover have "disk_sync ?t" using "2.prems" by (simp add: removeDiskLocked_sync)
  ultimately show ?case using "2.IH" "2.prems" by (simp split: option.split)
qed simp

lemma trimDiskLocked_sync: "disk_sync s \<Longrightarrow> disk_sync (snd (trimDiskLocked os s))"
  by (simp add: trimDiskLocked_def trimDiskList_sync)

text \<open>If every file can be removed, trimming evicts oldest first until the index fits.\<close>

lemma trimDiskList_lru:
  "disk_sync s \<Longrightarrow> diskLRU s = es \<Longrightarrow> (\<And>p. removeErr os p = None) \<Longrightarrow>
   fst (trimDiskList os es s) = None \<and>
   diskLRU (snd (trimDiskList os es s)) = trim deSize (diskLimit s) es"
proof (induction os es s rule: trimDiskList.induct)
  case (2 os k e es s)
  let ?t = "removeDiskLocked k (s\<lparr>files := (files s)(dePath e := None)\<rparr>)"
  have "diskLRU ?t = es"
    using "2.prems" by (simp add: removeDiskLocked_hd)
  moreover have "disk_sync ?t" using "2.prems" by (simp add: removeDiskLocked_sync)
  moreover have "diskBytes s = lru_total deSize ((k, e) # es)"
    using "2.prems" by (simp add: disk_sync_def)
  ultimately show ?case using "2.IH" "2.prems" by simp
qed simp

definition disk_sizes :: "chunkStore \<Rightarrow> (chunkKey \<times> nat) list" where
  "disk_sizes s = map (\<lambda>(k, e). (k, nat (deSize e))) (diskLRU s)"

text \<open>The index step of \<open>putDisk\<close>, \<open>addDiskLocked\<close> then \<open>trimDiskLocked\<close>, when no removal fails.\<close>

definition quiet_os :: os_env where
  "quiet_os = \<lparr>createErr = None, tempName = ''.part'', writeErr = None, writeN = 0, closeErr = None,
     renameErr = None, readErr = (\<lambda>_. False), removeErr = (\<lambda>_. None)\<rparr>"

definition indexDisk :: "chunkKey \<Rightarrow> nat \<Rightarrow> chunkStore \<Rightarrow> chunkStore" where
  "indexDisk k n s = snd (trimDiskLocked quiet_os (addDiskLocked k (chunkPath s k) (int n) s))"

lemma disk_sizes_total: "disk_sync s \<Longrightarrow> lru_total int (disk_sizes s) = diskBytes s"
proof -
  have "\<forall>e\<in>set xs. 0 \<le> deSize (snd e) \<Longrightarrow>
        lru_total int (map (\<lambda>(k, e). (k, nat (deSize e))) xs) = lru_total deSize xs"
    for xs :: "(chunkKey \<times> diskCacheEntry) list"
    by (induction xs) auto
  then show "disk_sync s \<Longrightarrow> ?thesis" by (simp add: disk_sync_def disk_sizes_def)
qed

lemma map_fst_disk_sizes [simp]: "map fst (disk_sizes s) = map fst (diskLRU s)"
  by (auto simp: disk_sizes_def)

lemma map_of_disk_sizes: "map_of (disk_sizes s) k = map_option (\<lambda>e. nat (deSize e)) (map_of (diskLRU s) k)"
  by (simp add: disk_sizes_def map_of_map)

lemma trimDiskLocked_sizes:
  assumes "disk_sync s" "\<And>p. removeErr os p = None"
  shows "disk_sizes (snd (trimDiskLocked os s)) = trim int (diskLimit s) (disk_sizes s)"
proof -
  have "\<forall>e\<in>set (diskLRU s). int (nat (deSize (snd e))) = deSize (snd e)"
    using assms by (auto simp: disk_sync_def)
  from trim_map [of "diskLRU s" int "\<lambda>e. nat (deSize e)" deSize, OF this] show ?thesis
    using trimDiskList_lru [OF assms(1) refl assms(2)]
    by (simp add: disk_sizes_def trimDiskLocked_def)
qed

lemma disk_sizes_without: "map (\<lambda>(k, e). (k, g e)) (without k xs) = without k (map (\<lambda>(k, e). (k, g e)) xs)"
  by (induction xs) auto

lemma addDiskLocked_sizes:
  "disk_sync s \<Longrightarrow> disk_sizes (addDiskLocked k p (int n) s) = without k (disk_sizes s) @ [(k, n)]"
  by (simp add: disk_sizes_def addDiskLocked_lru disk_sizes_without)

lemma trimDiskLocked_bound:
  assumes "disk_sync s" "\<And>p. removeErr os p = None" "0 \<le> diskLimit s"
  shows "disk_ok (snd (trimDiskLocked os s))"
proof -
  let ?t = "snd (trimDiskLocked os s)"
  have t: "disk_sync ?t" by (rule trimDiskLocked_sync [OF assms(1)])
  have "lru_total int (disk_sizes ?t) \<le> diskLimit s"
    unfolding trimDiskLocked_sizes [OF assms(1,2)] by (rule trim_total) (use assms(3) in auto)
  with t disk_sizes_total [OF t] show ?thesis by (simp add: disk_ok_def)
qed

lemma disk_ok_limit: "disk_ok s \<Longrightarrow> 0 \<le> diskLimit s"
  using lru_total_nonneg_on [of "diskLRU s" deSize] by (auto simp: disk_ok_def disk_sync_def)

lemma indexDisk_ok: "disk_ok s \<Longrightarrow> disk_ok (indexDisk k n s)"
  unfolding indexDisk_def
  by (rule trimDiskLocked_bound) (auto simp: disk_ok_limit addDiskLocked_sync disk_ok_def quiet_os_def)

text \<open>The disk index is a byte-bounded LRU cache of chunk sizes.\<close>

interpretation disk: sized_lru disk_sizes diskBytes diskLimit int disk_ok
  "\<lambda>s k. map_option nat (diskReady s k)" "\<lambda>s n. True" indexDisk removeDiskLocked
proof (unfold_locales, goal_cases)
  case (6 s v k)
  then show ?case
    by (simp add: indexDisk_def trimDiskLocked_sizes addDiskLocked_sync addDiskLocked_sizes
        disk_ok_def quiet_os_def lru_put_def)
next
  case (9 s k v)
  then show ?case by (rule indexDisk_ok)
next
  case (10 s k)
  then show ?case by (simp add: disk_sizes_def removeDiskLocked_lru disk_ok_def disk_sizes_without)
next
  case (12 s k)
  then show ?case by (rule removeDiskLocked_ok)
qed (auto simp: disk_ok_def disk_sync_def disk_sizes_total map_of_disk_sizes indexDisk_def
      option.map_comp comp_def)

section \<open>Names of chunks\<close>

definition plainv :: "string \<Rightarrow> bool" where
  "plainv v \<longleftrightarrow> CHR ''/'' \<notin> set v \<and> CHR 0x5C \<notin> set v \<and> CHR '':'' \<notin> set v \<and> CHR ''.'' \<notin> set v"

text \<open>A file as the drive reports it: a numeric id, no negative size or time.\<close>

definition valid_file :: "File \<Rightarrow> bool" where
  "valid_file f \<longleftrightarrow> flFSID f \<noteq> [] \<and> plainv (flFSID f) \<and> 0 \<le> flSize f \<and> flSize f < 2 ^ 62 \<and> 0 \<le> flMTM f"

definition key_ok :: "chunkKey \<Rightarrow> bool" where
  "key_ok k \<longleftrightarrow> plainv (ckVersion k) \<and> ckVersion k \<noteq> [] \<and> 0 \<le> ckIndex k \<and> ckIndex k < 2 ^ 63"

lemma sanitize_plain: "plainv v \<Longrightarrow> sanitizeVersion v = v"
  by (induction v rule: sanitizeVersion.induct) (auto simp: plainv_def)

lemma sanitize_no_slash [simp]: "CHR ''/'' \<notin> set (sanitizeVersion v)"
  by (induction v rule: sanitizeVersion.induct) auto

lemma sanitize_nonempty: "v \<noteq> [] \<Longrightarrow> sanitizeVersion v \<noteq> []"
  by (cases v) auto

lemma parse_chunkFileName:
  assumes "ckVersion k \<noteq> []" "0 \<le> ckIndex k" "ckIndex k < 2 ^ 63"
  shows "parseChunkFileName (chunkFileName k) =
         Some (ChunkKey (sanitizeVersion (ckVersion k)) (ckIndex k))"
proof -
  let ?v = "sanitizeVersion (ckVersion k)" and ?n = "FormatInt (ckIndex k)"
  let ?base = "?v @ CHR ''-'' # ?n"
  have name: "chunkFileName k = ?base @ ''.chunk''" by (simp add: chunkFileName_def)
  have sep: "LastIndexByte ?base CHR ''-'' = len ?v"
    using assms by (intro LastIndexByte_append) simp
  have "ParseInt ?n = Some (ckIndex k)"
    using assms by (intro ParseInt_FormatInt) (simp add: in_i64_def)
  moreover have "drop (nat (len ?v + 1)) ?base = ?n" by (simp add: nat_add_distrib)
  moreover have "len ?v \<noteq> 0" "len ?v \<noteq> len ?base - 1"
    using assms sanitize_nonempty by auto
  moreover have "TrimSuffix (chunkFileName k) ''.chunk'' = ?base"
    unfolding name by (rule TrimSuffix_append)
  moreover have "chunkFileName k \<noteq> ?base" unfolding name by simp
  ultimately show ?thesis
    using assms unfolding parseChunkFileName_def Let_def by (simp add: sep)
qed

lemma parse_chunkFileName_ok: "key_ok k \<Longrightarrow> parseChunkFileName (chunkFileName k) = Some k"
  by (simp add: key_ok_def parse_chunkFileName sanitize_plain)

lemma last_chunkFileName: "suffix ''.chunk'' (chunkFileName k)"
  by (simp add: chunkFileName_def suffix_def)

lemma elem_ok_chunkFileName [simp]: "elem_ok (chunkFileName k)"
  by (auto simp: elem_ok_def chunkFileName_def append_eq_Cons_conv)

lemma chunkFileName_inj: "key_ok j \<Longrightarrow> key_ok k \<Longrightarrow> chunkFileName j = chunkFileName k \<Longrightarrow> j = k"
  by (metis option.inject parse_chunkFileName_ok)

lemma chunkPath_inj:
  "diskPath s \<noteq> [] \<Longrightarrow> key_ok j \<Longrightarrow> key_ok k \<Longrightarrow> chunkPath s j = chunkPath s k \<Longrightarrow> j = k"
  unfolding chunkPath_def by (metis chunkFileName_inj elem_ok_chunkFileName path_Join_inj)

text \<open>Restarting finds the key of every chunk file the store wrote.\<close>

lemma parse_Base_chunkPath:
  "diskPath s \<noteq> [] \<Longrightarrow> key_ok k \<Longrightarrow> parseChunkFileName (Base (chunkPath s k)) = Some k"
  by (simp add: chunkPath_def Base_path_Join parse_chunkFileName_ok)

lemma plainv_append [simp]: "plainv (xs @ ys) \<longleftrightarrow> plainv xs \<and> plainv ys"
  by (auto simp: plainv_def)

lemma plainv_Cons [simp]:
  "plainv (c # s) \<longleftrightarrow> plainv s \<and> c \<noteq> CHR ''/'' \<and> c \<noteq> CHR 0x5C \<and> c \<noteq> CHR '':'' \<and> c \<noteq> CHR ''.''"
  by (auto simp: plainv_def)

lemma plainv_FormatInt [simp]: "plainv (FormatInt n)" "plainv []"
  by (simp_all add: plainv_def)

lemma plainv_chunkVersion: "valid_file f \<Longrightarrow> plainv (chunkVersion f n)"
  by (simp add: chunkVersion_def fileVersion_def valid_file_def)

lemma chunkVersion_nonempty [simp]: "chunkVersion f n \<noteq> []"
  by (simp add: chunkVersion_def fileVersion_def)

lemma key_ok_chunk: "valid_file f \<Longrightarrow> 0 \<le> i \<Longrightarrow> i < 2 ^ 63 \<Longrightarrow> key_ok (ChunkKey (chunkVersion f n) i)"
  by (simp add: key_ok_def plainv_chunkVersion)

text \<open>The version text determines the file and the chunk size.\<close>

lemma chunkVersion_inj:
  assumes "0 \<le> flSize f" "0 \<le> flMTM f" "0 \<le> flSize g" "0 \<le> flMTM g" "0 \<le> n" "0 \<le> m"
    and "chunkVersion f n = chunkVersion g m"
  shows "f = g \<and> n = m"
proof -
  have c: "(fileVersion f @ ''-chunk'') @ CHR ''-'' # FormatInt n =
           (fileVersion g @ ''-chunk'') @ CHR ''-'' # FormatInt m"
    using assms(7) by (simp add: chunkVersion_def)
  from last_separator_unique [OF c] assms have "fileVersion f = fileVersion g" "n = m"
    by (auto dest: FormatInt_inj)
  then have m: "(flFSID f @ CHR ''-'' # FormatInt (flSize f)) @ CHR ''-'' # FormatInt (flMTM f) =
                (flFSID g @ CHR ''-'' # FormatInt (flSize g)) @ CHR ''-'' # FormatInt (flMTM g)"
    by (simp add: fileVersion_def)
  from last_separator_unique [OF m] assms
  have sz: "flFSID f @ CHR ''-'' # FormatInt (flSize f) = flFSID g @ CHR ''-'' # FormatInt (flSize g)"
    and "flMTM f = flMTM g"
    by (auto dest: FormatInt_inj)
  from last_separator_unique [OF sz] assms have "flFSID f = flFSID g" "flSize f = flSize g"
    by (auto dest: FormatInt_inj)
  with \<open>flMTM f = flMTM g\<close> \<open>n = m\<close> show ?thesis by simp
qed

section \<open>Lookups return what was stored\<close>

text \<open>\<open>good k d\<close> says that \<open>d\<close> is the content that belongs under \<open>k\<close>.\<close>

definition files_coherent :: "(chunkKey \<Rightarrow> bytes \<Rightarrow> bool) \<Rightarrow> chunkStore \<Rightarrow> bool" where
  "files_coherent good s \<longleftrightarrow>
     (\<forall>k d. diskPath s \<noteq> [] \<and> key_ok k \<and> files s (chunkPath s k) = Some d \<longrightarrow> good k d)"

definition store_coherent :: "(chunkKey \<Rightarrow> bytes \<Rightarrow> bool) \<Rightarrow> chunkStore \<Rightarrow> bool" where
  "store_coherent good s \<longleftrightarrow>
     mem_ok s \<and> (\<forall>k d. memory s k = Some d \<longrightarrow> good k d) \<and> files_coherent good s"

lemma chunkPath_cong: "diskPath s = diskPath t \<Longrightarrow> chunkPath s k = chunkPath t k"
  by (simp add: chunkPath_def)

lemma files_coherent_subset:
  assumes "files_coherent good s" "diskPath t = diskPath s"
    and "\<And>p d. files t p = Some d \<Longrightarrow> files s p = Some d"
  shows "files_coherent good t"
  using assms by (auto simp: files_coherent_def chunkPath_def)

lemma store_coherent_put:
  assumes "store_coherent good s" "good k d"
  shows "store_coherent good (putMemory k d s)"
proof -
  have "good j e" if "memory (putMemory k d s) j = Some e" for j e
    using mem.put_find_cases [OF _ that] assms by (auto simp: store_coherent_def)
  moreover have "files_coherent good (putMemory k d s)"
    using assms by (auto simp: store_coherent_def files_coherent_def chunkPath_def)
  ultimately show ?thesis using assms by (simp add: store_coherent_def putMemory_ok)
qed

text \<open>Whatever only forgets memory entries or removes files keeps the store coherent.\<close>

lemma store_coherent_less:
  assumes "store_coherent good s" "mem_ok t" "diskPath t = diskPath s"
    and "\<And>k d. memory t k = Some d \<Longrightarrow> memory s k = Some d"
    and "\<And>p d. files t p = Some d \<Longrightarrow> files s p = Some d"
  shows "store_coherent good t"
  using assms files_coherent_subset [of good s t] by (auto simp: store_coherent_def)

lemma mem_ok_cong:
  "lru t = lru s \<Longrightarrow> memory t = memory s \<Longrightarrow> memoryBytes t = memoryBytes s \<Longrightarrow>
   memoryLimit t = memoryLimit s \<Longrightarrow> mem_ok t = mem_ok s"
  by (simp add: mem_ok_def mem_sync_def)

lemma touch_ok: "mem_ok s \<Longrightarrow> mem_ok (s\<lparr>lru := lru_touch k (lru s)\<rparr>)"
  by (simp add: mem_ok_def mem_sync_def distinct_lru_touch)

lemma forgetDisk_frame [simp]:
  "memoryLimit (forgetDisk os k p s) = memoryLimit s" "memoryBytes (forgetDisk os k p s) = memoryBytes s"
  "memory (forgetDisk os k p s) = memory s" "lru (forgetDisk os k p s) = lru s"
  "diskPath (forgetDisk os k p s) = diskPath s" "diskLimit (forgetDisk os k p s) = diskLimit s"
  by (simp_all add: forgetDisk_def Let_def)

lemma forgetDisk_files: "files (forgetDisk os k p s) q = Some d \<Longrightarrow> files s q = Some d"
  by (auto simp: forgetDisk_def Let_def split: if_splits)

lemma getWithTouch_miss:
  "memory s k = None \<Longrightarrow> getWithTouch os k touch s =
     (if diskOff s \<or> diskReady s k = None then (None, s)
      else if readErr os (chunkPath s k) \<or> files s (chunkPath s k) = None
      then (None, forgetDisk os k (chunkPath s k) (touchDiskLocked k s))
      else (files s (chunkPath s k),
            putMemory k (the (files s (chunkPath s k))) (touchDiskLocked k s)))"
  by (auto simp: getWithTouch_def Let_def)

lemma getWithTouch_coherent:
  assumes "store_coherent good s" "key_ok k" "getWithTouch os k touch s = (r, t)"
  shows "store_coherent good t \<and> (\<forall>d. r = Some d \<longrightarrow> good k d)"
proof (cases "memory s k")
  case (Some d)
  have "store_coherent good (s\<lparr>lru := lru_touch k (lru s)\<rparr>)"
    by (rule store_coherent_less [OF assms(1)]) (use assms(1) in \<open>auto simp: touch_ok store_coherent_def\<close>)
  with Some assms show ?thesis by (auto simp: getWithTouch_def store_coherent_def split: if_splits)
next
  case None
  let ?s = "touchDiskLocked k s"
  have co: "store_coherent good ?s"
    by (rule store_coherent_less [OF assms(1)])
      (use assms(1) mem_ok_cong [of ?s s] in \<open>auto simp: store_coherent_def\<close>)
  have p: "chunkPath s k = chunkPath ?s k" by (simp add: chunkPath_def)
  consider "t = s" "r = None"
    | "t = forgetDisk os k (chunkPath s k) ?s" "r = None"
    | d where "t = putMemory k d ?s" "r = Some d" "files ?s (chunkPath s k) = Some d" "\<not> diskOff s"
    using assms(3) by (auto simp: getWithTouch_miss [OF None] split: if_splits)
  then show ?thesis
  proof cases
    case 1
    with assms(1) show ?thesis by simp
  next
    case 2
    have "store_coherent good t"
      unfolding 2 by (rule store_coherent_less [OF co])
        (use co mem_ok_cong [of "forgetDisk os k (chunkPath s k) ?s" ?s] in
          \<open>auto simp: store_coherent_def dest: forgetDisk_files simp del: touchDiskLocked_frame\<close>)
    with 2 show ?thesis by simp
  next
    case (3 d)
    then have "good k d"
      using co assms(2) p by (auto simp: store_coherent_def files_coherent_def diskOff_def)
    with 3 co show ?thesis by (simp add: store_coherent_put)
  qed
qed

text \<open>The round trip through memory: the chunk just put is the next lookup's answer.\<close>

lemma putMemory_get:
  assumes "mem_ok s" "0 < memoryLimit s" "len d \<le> memoryLimit s"
  shows "fst (getWithTouch os k touch (putMemory k d s)) = Some d"
  using mem.put_find_same [of s d k] assms by (simp add: getWithTouch_def)

section \<open>Writing a chunk to disk\<close>

text \<open>\<open>os.CreateTemp\<close> makes a file in the cache directory whose name ends in \<open>.part\<close>.\<close>

definition temp_ok :: "os_env \<Rightarrow> chunkStore \<Rightarrow> bool" where
  "temp_ok os s \<longleftrightarrow> (\<exists>x. tempName os = path_Join [diskPath s, x @ ''.part''] \<and> CHR ''/'' \<notin> set x)"

lemma temp_not_chunk:
  assumes "temp_ok os s" "diskPath s \<noteq> []"
  shows "tempName os \<noteq> chunkPath s k"
proof
  assume eq: "tempName os = chunkPath s k"
  obtain x where x: "tempName os = path_Join [diskPath s, x @ ''.part'']" "CHR ''/'' \<notin> set x"
    using assms(1) by (auto simp: temp_ok_def)
  then have "elem_ok (x @ ''.part'')" by (auto simp: elem_ok_def append_eq_Cons_conv)
  with eq x have "x @ ''.part'' = chunkFileName k"
    unfolding chunkPath_def by (metis assms(2) elem_ok_chunkFileName path_Join_inj)
  then have "last (x @ ''.part'') = last (chunkFileName k)" by simp
  then show False by (simp add: chunkFileName_def)
qed

lemma trimDiskList_files: "files (snd (trimDiskList os es s)) p = Some d \<Longrightarrow> files s p = Some d"
proof (induction os es s rule: trimDiskList.induct)
  case (2 os k e es s)
  show ?case
  proof (cases "diskLimit s < diskBytes s \<and> removeErr os (dePath e) = None")
    case True
    let ?t = "removeDiskLocked k (s\<lparr>files := (files s)(dePath e := None)\<rparr>)"
    from True have "trimDiskList os ((k, e) # es) s = trimDiskList os es ?t" by simp
    with "2.prems" have "files (snd (trimDiskList os es ?t)) p = Some d" by (simp only:)
    with "2.IH" True have "files ?t p = Some d" by (simp only: simp_thms)
    then show ?thesis by (simp split: if_splits)
  next
    case False
    with "2.prems" show ?thesis by (cases "removeErr os (dePath e)") (simp_all split: if_splits)
  qed
qed simp

lemma trimDiskLocked_files: "files (snd (trimDiskLocked os s)) p = Some d \<Longrightarrow> files s p = Some d"
  unfolding trimDiskLocked_def by (rule trimDiskList_files)

lemma dropTemp_frame [simp]:
  "memoryLimit (dropTemp os s) = memoryLimit s" "memoryBytes (dropTemp os s) = memoryBytes s"
  "memory (dropTemp os s) = memory s" "lru (dropTemp os s) = lru s"
  "diskPath (dropTemp os s) = diskPath s" "diskLimit (dropTemp os s) = diskLimit s"
  "diskBytes (dropTemp os s) = diskBytes s" "diskReady (dropTemp os s) = diskReady s"
  "diskLRU (dropTemp os s) = diskLRU s" "diskEntries (dropTemp os s) = diskEntries s"
  by (simp_all add: dropTemp_def)

text \<open>What \<open>putDisk\<close> can do, whatever fails: nothing to the memory cache, and to the files only
  a leftover under the temporary name, the whole chunk under its path, and removals.\<close>

lemma putDisk_cases:
  assumes "putDisk os k d s = (e, t)"
  obtains (same) "t = s"
    | (temp) x where "t = dropTemp os (s\<lparr>files := (files s)(tempName os \<mapsto> x)\<rparr>)" "e \<noteq> None"
    | (published) "t = snd (trimDiskLocked os (addDiskLocked k (chunkPath s k) (len d)
                  (s\<lparr>files := (files s)(tempName os := None, chunkPath s k \<mapsto> d)\<rparr>)))"
             "d \<noteq> []" "\<not> diskOff s"
proof (cases "d = [] \<or> diskOff s")
  case True
  with assms that(1) show ?thesis by (auto simp: putDisk_def)
next
  case False
  then have nz: "d \<noteq> []" "\<not> diskOff s" by simp_all
  show ?thesis
  proof (cases "createErr os = None")
    case False
    with assms nz same show ?thesis by (auto simp: putDisk_def)
  next
    case True
    note cr = this
    show ?thesis
    proof (cases "writeErr os = None \<and> closeErr os = None \<and> renameErr os = None")
      case True
      with assms nz cr published show ?thesis by (simp add: putDisk_def Let_def)
    next
      case False
      let ?r = "putDisk os k d s"
      have "fst ?r \<noteq> None \<and> (\<exists>x. snd ?r = dropTemp os (s\<lparr>files := (files s)(tempName os \<mapsto> x)\<rparr>))"
      proof (cases "writeErr os")
        case (Some a)
        then show ?thesis using nz cr by (auto simp: putDisk_def Let_def)
      next
        case None
        with False nz cr show ?thesis by (cases "closeErr os") (auto simp: putDisk_def Let_def)
      qed
      with assms temp show ?thesis by auto
    qed
  qed
qed

lemma putDisk_frame:
  assumes "putDisk os k d s = (e, t)"
  shows "memory t = memory s" "lru t = lru s" "memoryBytes t = memoryBytes s"
    "memoryLimit t = memoryLimit s" "diskPath t = diskPath s" "diskLimit t = diskLimit s"
  using assms by (cases rule: putDisk_cases; simp)+

text \<open>A chunk file is published whole or not at all, whichever system call fails.\<close>

lemma putDisk_atomic:
  assumes "putDisk os k d s = (e, t)" "temp_ok os s" "diskPath s \<noteq> []"
    and "files t (chunkPath s j) = Some x"
  shows "files s (chunkPath s j) = Some x \<or> (chunkPath s j = chunkPath s k \<and> x = d)"
  using assms(1)
proof (cases rule: putDisk_cases)
  case same
  with assms(4) show ?thesis by simp
next
  case (temp y)
  with assms temp_not_chunk [OF assms(2,3), of j] show ?thesis
    by (auto simp: dropTemp_def split: if_splits)
next
  case published
  with assms(4) temp_not_chunk [OF assms(2,3)] show ?thesis
    by (auto dest!: trimDiskLocked_files split: if_splits)
qed

lemma putDisk_coherent:
  assumes "store_coherent good s" "good k d" "key_ok k" "temp_ok os s" "putDisk os k d s = (e, t)"
  shows "store_coherent good t"
proof -
  note fr = putDisk_frame [OF assms(5)]
  have "mem_ok t" using assms(1) fr mem_ok_cong [of t s] by (simp add: store_coherent_def)
  moreover have "good j x"
    if "diskPath t \<noteq> []" "key_ok j" "files t (chunkPath t j) = Some x" for j x
  proof -
    have eq: "chunkPath t j = chunkPath s j" using fr by (simp add: chunkPath_def)
    from putDisk_atomic [OF assms(5,4)] that fr eq
    consider "files s (chunkPath s j) = Some x" | "chunkPath s j = chunkPath s k" "x = d"
      by metis
    then show ?thesis
      using assms that fr chunkPath_inj [of s j k]
      by cases (auto simp: store_coherent_def files_coherent_def)
  qed
  ultimately show ?thesis using assms(1) fr by (auto simp: store_coherent_def files_coherent_def)
qed

lemma putDisk_sync:
  assumes "disk_sync s" "putDisk os k d s = (e, t)"
  shows "disk_sync t"
  using assms(2)
proof (cases rule: putDisk_cases)
  case (temp x)
  with assms show ?thesis by (simp add: disk_sync_def)
qed (use assms in \<open>simp_all add: trimDiskLocked_sync addDiskLocked_sync\<close>)

subsection \<open>A persisted chunk is served from disk\<close>

definition disk_paths :: "chunkStore \<Rightarrow> bool" where
  "disk_paths s \<longleftrightarrow> (\<forall>(k, e)\<in>set (diskLRU s). key_ok k \<and> dePath e = chunkPath s k)"

lemma removeDiskLocked_ready [simp]: "diskReady (removeDiskLocked k s) = (diskReady s)(k := None)"
  by (simp add: removeDiskLocked_def Let_def split: option.split)

lemma trimDiskList_forgotten:
  "diskReady s j = None \<Longrightarrow> diskReady (snd (trimDiskList os es s)) j = None"
  by (induction os es s rule: trimDiskList.induct) (auto split: option.split)

lemma trimDiskList_keeps:
  "(\<And>k e. (k, e) \<in> set es \<Longrightarrow> k \<noteq> j \<Longrightarrow> dePath e \<noteq> p) \<Longrightarrow>
   diskReady (snd (trimDiskList os es s)) j \<noteq> None \<Longrightarrow> files (snd (trimDiskList os es s)) p = files s p"
proof (induction os es s rule: trimDiskList.induct)
  case (2 os k e es s)
  let ?t = "removeDiskLocked k (s\<lparr>files := (files s)(dePath e := None)\<rparr>)"
  show ?case
  proof (cases "diskLimit s < diskBytes s \<and> removeErr os (dePath e) = None")
    case False
    then show ?thesis by (auto split: option.split)
  next
    case True
    with "2.prems"(2) have "k \<noteq> j" using trimDiskList_forgotten [of ?t j os es] by auto
    with "2.prems"(1) [of k e] have "dePath e \<noteq> p" by simp
    with True 2 show ?thesis by auto
  qed
qed simp

lemma putDisk_get:
  assumes "disk_sync s" "disk_paths s" "key_ok k" "\<not> diskOff s" "temp_ok os s"
    and "d \<noteq> []" "len d \<le> diskLimit s" "memory s k = None"
    and "createErr os = None" "writeErr os = None" "closeErr os = None" "renameErr os = None"
    and "\<And>p. removeErr os p = None" "\<not> readErr os (chunkPath s k)"
  shows "fst (putDisk os k d s) = None \<and>
         fst (getWithTouch os k touch (snd (putDisk os k d s))) = Some d"
proof -
  let ?f = "s\<lparr>files := (files s)(tempName os := None, chunkPath s k \<mapsto> d)\<rparr>"
  let ?a = "addDiskLocked k (chunkPath s k) (len d) ?f"
  let ?t = "snd (trimDiskLocked os ?a)"
  have put: "putDisk os k d s = trimDiskLocked os ?a"
    using assms by (simp add: putDisk_def Let_def)
  have sync: "disk_sync ?f" using assms(1) by simp
  have a: "disk_sync ?a" by (rule addDiskLocked_sync [OF sync]) simp
  from trimDiskList_lru [OF a refl assms(13)]
  have ok: "fst (trimDiskLocked os ?a) = None" by (simp add: trimDiskLocked_def)
  have "disk_sizes ?t = trim int (diskLimit s) (without k (disk_sizes ?f) @ [(k, length d)])"
    using trimDiskLocked_sizes [OF a assms(13)] addDiskLocked_sizes [OF sync] by simp
  with trim_keeps_last [of int "length d" "diskLimit s" "without k (disk_sizes ?f)" k] assms(7)
  have "k \<in> fst ` set (disk_sizes ?t)" by auto
  then have "k \<in> fst ` set (diskLRU ?t)" by (metis map_fst_disk_sizes set_map)
  then have ready: "diskReady ?t k \<noteq> None"
    using trimDiskLocked_sync [OF a, of os] by (auto simp: disk_sync_def map_of_eq_None_iff)
  have "dePath e \<noteq> chunkPath s k" if "(j, e) \<in> set (diskLRU ?a)" "j \<noteq> k" for j e
    using that assms(2,3,4) chunkPath_inj [of s j k] sync
    by (auto simp: addDiskLocked_lru disk_paths_def diskOff_def dest!: set_without_subset)
  from trimDiskList_keeps [OF this, of "diskLRU ?a"] ready
  have "files ?t (chunkPath s k) = Some d" by (simp add: trimDiskLocked_def)
  moreover have "chunkPath ?t k = chunkPath s k" by (simp add: chunkPath_def)
  moreover have "\<not> diskOff ?t" "memory ?t k = None" using assms by (simp_all add: diskOff_def)
  ultimately have "fst (getWithTouch os k touch ?t) = Some d"
    using ready assms(14) by (auto simp: getWithTouch_def Let_def)
  with ok put show ?thesis by simp
qed

end
