(* ===== verification/TaskHeap.thy ===== *)
theory TaskHeap
  imports Prelude "HOL-Library.Multiset"
begin

text \<open>
  The manager's queue of downloads (\<open>taskHeap\<close> in \<open>internal/stream/manager.go\<close>) and the
  \<open>container/heap\<close> algorithms that run over it. A task is a pointer, a \<open>nat\<close>; the heap is the
  slice of pointers, and \<open>hIndex\<close> is the \<open>index\<close> field of every task, which \<open>Swap\<close>, \<open>Push\<close> and
  \<open>Pop\<close> write. The order is given by the rank of a task: its priority, then its sequence number.

  The locale \<open>prio_queue\<close> states what a priority queue promises; the binary heap interprets it.
\<close>

section \<open>The slice and its index fields\<close>

record taskHeap =
  hItems :: "nat list"
  hIndex :: "nat \<Rightarrow> int"

type_synonym rank = "nat \<times> int"

definition rankLess :: "rank \<Rightarrow> rank \<Rightarrow> bool" where
  "rankLess a b = (if fst a \<noteq> fst b then fst a < fst b else snd a < snd b)"

definition heapLess :: "(nat \<Rightarrow> rank) \<Rightarrow> taskHeap \<Rightarrow> nat \<Rightarrow> nat \<Rightarrow> bool" where
  "heapLess r h i j = rankLess (r (hItems h ! i)) (r (hItems h ! j))"

definition heapSwap :: "nat \<Rightarrow> nat \<Rightarrow> taskHeap \<Rightarrow> taskHeap" where
  "heapSwap i j h =
     (let a = hItems h ! i; b = hItems h ! j
      in h\<lparr>hItems := (hItems h)[i := b, j := a],
           hIndex := (hIndex h)(b := int i, a := int j)\<rparr>)"

definition heapAppend :: "nat \<Rightarrow> taskHeap \<Rightarrow> taskHeap" where
  "heapAppend t h =
     h\<lparr>hIndex := (hIndex h)(t := len (hItems h)), hItems := hItems h @ [t]\<rparr>"

definition heapDropLast :: "taskHeap \<Rightarrow> nat \<times> taskHeap" where
  "heapDropLast h =
     (let t = last (hItems h)
      in (t, h\<lparr>hIndex := (hIndex h)(t := - 1), hItems := butlast (hItems h)\<rparr>))"

section \<open>Package container/heap\<close>

text \<open>\<open>up\<close>: at \<open>j = 0\<close> Go's \<open>(j - 1) / 2\<close> is \<open>0\<close>, and the loop stops on \<open>i = j\<close>.\<close>

function heapUp :: "(nat \<Rightarrow> rank) \<Rightarrow> nat \<Rightarrow> taskHeap \<Rightarrow> taskHeap" where
  "heapUp r j h =
     (let i = (j - 1) div 2
      in if i = j \<or> \<not> heapLess r h j i then h else heapUp r i (heapSwap i j h))"
  by pat_completeness auto
termination
  by (relation "measure (\<lambda>(r, j, h). j)") auto

declare heapUp.simps [simp del]

text \<open>The child that \<open>down\<close> compares with its parent.\<close>

definition minChild :: "(nat \<Rightarrow> rank) \<Rightarrow> nat \<Rightarrow> nat \<Rightarrow> taskHeap \<Rightarrow> nat" where
  "minChild r i n h =
     (let j1 = 2 * i + 1; j2 = j1 + 1 in if j2 < n \<and> heapLess r h j2 j1 then j2 else j1)"

function heapDown :: "(nat \<Rightarrow> rank) \<Rightarrow> nat \<Rightarrow> nat \<Rightarrow> taskHeap \<Rightarrow> nat \<times> taskHeap" where
  "heapDown r i n h =
     (if n \<le> 2 * i + 1 then (i, h)
      else let j = minChild r i n h
           in if \<not> heapLess r h j i then (i, h) else heapDown r j n (heapSwap i j h))"
  by pat_completeness auto
termination
  by (relation "measure (\<lambda>(r, i, n, h). n - i)") (auto simp: minChild_def Let_def)

declare heapDown.simps [simp del]

definition heapPush :: "(nat \<Rightarrow> rank) \<Rightarrow> nat \<Rightarrow> taskHeap \<Rightarrow> taskHeap" where
  "heapPush r t h = (let h1 = heapAppend t h in heapUp r (length (hItems h1) - 1) h1)"

definition heapPop :: "(nat \<Rightarrow> rank) \<Rightarrow> taskHeap \<Rightarrow> nat \<times> taskHeap" where
  "heapPop r h =
     (let n = length (hItems h) - 1
      in heapDropLast (snd (heapDown r 0 n (heapSwap 0 n h))))"

definition heapFix :: "(nat \<Rightarrow> rank) \<Rightarrow> nat \<Rightarrow> taskHeap \<Rightarrow> taskHeap" where
  "heapFix r i h =
     (let (i', h1) = heapDown r i (length (hItems h)) h
      in if i < i' then h1 else heapUp r i h1)"

section \<open>The order of ranks\<close>

definition rankLe :: "rank \<Rightarrow> rank \<Rightarrow> bool" where
  "rankLe a b \<longleftrightarrow> \<not> rankLess b a"

lemma rankLe_refl [simp]: "rankLe a a"
  by (simp add: rankLe_def rankLess_def)

lemma rankLe_trans: "rankLe a b \<Longrightarrow> rankLe b c \<Longrightarrow> rankLe a c"
  by (auto simp: rankLe_def rankLess_def split: if_splits)

lemma rankLess_le: "rankLess a b \<Longrightarrow> rankLe a b"
  by (auto simp: rankLe_def rankLess_def split: if_splits)

lemma rankLe_antisym: "rankLe a b \<Longrightarrow> rankLe b a \<Longrightarrow> a = b"
  by (cases a; cases b) (auto simp: rankLe_def rankLess_def split: if_splits)

lemma rankLe_total: "rankLe a b \<or> rankLe b a"
  using rankLess_le by (auto simp: rankLe_def)

lemma not_rankLeD: "\<not> rankLe a b \<Longrightarrow> rankLe b a"
  using rankLe_total by blast

lemma not_rankLess [simp]: "\<not> rankLess a b \<longleftrightarrow> rankLe b a"
  by (simp add: rankLe_def)

section \<open>What a priority queue promises\<close>

locale prio_queue =
  fixes items :: "'q \<Rightarrow> 'a list"
    and le :: "'a \<Rightarrow> 'a \<Rightarrow> bool"
    and ok :: "'q \<Rightarrow> bool"
    and push :: "'a \<Rightarrow> 'q \<Rightarrow> 'q"
    and pop :: "'q \<Rightarrow> 'a \<times> 'q"
  assumes push_ok: "ok q \<Longrightarrow> x \<notin> set (items q) \<Longrightarrow> ok (push x q)"
    and push_mset: "ok q \<Longrightarrow> x \<notin> set (items q) \<Longrightarrow> mset (items (push x q)) = add_mset x (mset (items q))"
    and pop_ok: "ok q \<Longrightarrow> items q \<noteq> [] \<Longrightarrow> ok (snd (pop q))"
    and pop_mset: "ok q \<Longrightarrow> items q \<noteq> [] \<Longrightarrow> mset (items q) = add_mset (fst (pop q)) (mset (items (snd (pop q))))"
    and pop_least: "ok q \<Longrightarrow> x \<in> set (items q) \<Longrightarrow> le (fst (pop q)) x"
begin

lemma pop_set:
  assumes "ok q" "items q \<noteq> []"
  shows "set (items q) = insert (fst (pop q)) (set (items (snd (pop q))))"
proof -
  have "set_mset (mset (items q)) = set_mset (add_mset (fst (pop q)) (mset (items (snd (pop q)))))"
    using pop_mset [OF assms] by simp
  then show ?thesis by simp
qed

lemma pop_length:
  assumes "ok q" "items q \<noteq> []"
  shows "length (items q) = Suc (length (items (snd (pop q))))"
proof -
  have "size (mset (items q)) = size (add_mset (fst (pop q)) (mset (items (snd (pop q)))))"
    using pop_mset [OF assms] by simp
  then show ?thesis by simp
qed

lemma push_set:
  assumes "ok q" "x \<notin> set (items q)"
  shows "set (items (push x q)) = insert x (set (items q))"
proof -
  have "set_mset (mset (items (push x q))) = set_mset (add_mset x (mset (items q)))"
    using push_mset [OF assms] by simp
  then show ?thesis by simp
qed

text \<open>Popping an element and pushing it back changes the contents only in their order.\<close>

lemma push_pop_mset:
  assumes "ok q" "items q \<noteq> []" "distinct (items q)"
  shows "mset (items (push (fst (pop q)) (snd (pop q)))) = mset (items q)"
proof -
  have "fst (pop q) \<notin> set (items (snd (pop q)))"
    using pop_mset [OF assms(1,2)] assms(3)
    by (metis distinct.simps(2) mset.simps(2) mset_eq_imp_distinct_iff)
  with assms pop_mset [OF assms(1,2)] show ?thesis
    by (simp add: push_mset pop_ok)
qed

end

section \<open>The heap invariant\<close>

text \<open>
  Every element of the first \<open>n\<close> is at least its parent, and every task's index field is its
  position.
\<close>

definition parent :: "nat \<Rightarrow> nat" where
  "parent i = (i - 1) div 2"

definition heap_upto :: "(nat \<Rightarrow> rank) \<Rightarrow> nat \<Rightarrow> nat list \<Rightarrow> bool" where
  "heap_upto r n xs \<longleftrightarrow> (\<forall>i. 0 < i \<and> i < n \<longrightarrow> rankLe (r (xs ! parent i)) (r (xs ! i)))"

definition indexed :: "taskHeap \<Rightarrow> bool" where
  "indexed h \<longleftrightarrow> distinct (hItems h) \<and> (\<forall>i < length (hItems h). hIndex h (hItems h ! i) = int i)"

definition heap_ok :: "(nat \<Rightarrow> rank) \<Rightarrow> taskHeap \<Rightarrow> bool" where
  "heap_ok r h \<longleftrightarrow> heap_upto r (length (hItems h)) (hItems h) \<and> indexed h"

lemma parent_less: "0 < i \<Longrightarrow> parent i < i"
  by (simp add: parent_def)

lemma parent_child: "parent i = p \<Longrightarrow> 0 < i \<Longrightarrow> i = 2 * p + 1 \<or> i = 2 * p + 2"
  by (auto simp: parent_def)

lemma heap_root_least:
  assumes "heap_upto r n xs" "i < n"
  shows "rankLe (r (xs ! 0)) (r (xs ! i))"
  using assms(2)
proof (induction i rule: less_induct)
  case (less i)
  show ?case
  proof (cases "i = 0")
    case False
    with less parent_less [of i] have "rankLe (r (xs ! 0)) (r (xs ! parent i))" by simp
    moreover have "rankLe (r (xs ! parent i)) (r (xs ! i))"
      using assms(1) less.prems False by (simp add: heap_upto_def)
    ultimately show ?thesis by (rule rankLe_trans)
  qed simp
qed

subsection \<open>Swaps keep the contents and the index fields\<close>

lemma heapSwap_items:
  "hItems (heapSwap i j h) = (hItems h)[i := hItems h ! j, j := hItems h ! i]"
  by (simp add: heapSwap_def Let_def)

lemma heapSwap_length [simp]: "length (hItems (heapSwap i j h)) = length (hItems h)"
  by (simp add: heapSwap_items)

lemma heapSwap_mset [simp]:
  "i < length (hItems h) \<Longrightarrow> j < length (hItems h) \<Longrightarrow> mset (hItems (heapSwap i j h)) = mset (hItems h)"
  by (simp add: heapSwap_items mset_swap)

lemma heapSwap_nth:
  "i < length (hItems h) \<Longrightarrow> j < length (hItems h) \<Longrightarrow> k < length (hItems h) \<Longrightarrow>
   hItems (heapSwap i j h) ! k = hItems h ! (if k = i then j else if k = j then i else k)"
  by (auto simp: heapSwap_items nth_list_update)

lemma heapSwap_index:
  "hIndex (heapSwap i j h) = (hIndex h)(hItems h ! j := int i, hItems h ! i := int j)"
  by (simp add: heapSwap_def Let_def)

lemma heapSwap_indexed:
  assumes "indexed h" "i < length (hItems h)" "j < length (hItems h)"
  shows "indexed (heapSwap i j h)"
proof -
  have "distinct (hItems (heapSwap i j h))"
    using assms by (metis heapSwap_mset indexed_def mset_eq_imp_distinct_iff)
  moreover have "hIndex (heapSwap i j h) (hItems (heapSwap i j h) ! k) = int k"
    if "k < length (hItems h)" for k
    unfolding heapSwap_nth [OF assms(2,3) that] heapSwap_index
    using assms that by (auto simp: indexed_def nth_eq_iff_index_eq)
  ultimately show ?thesis by (simp add: indexed_def)
qed

subsection \<open>Sifting up\<close>

text \<open>The heap order holds except between \<open>j\<close> and its parent.\<close>

definition up_inv :: "(nat \<Rightarrow> rank) \<Rightarrow> nat \<Rightarrow> nat \<Rightarrow> nat list \<Rightarrow> bool" where
  "up_inv r j n xs \<longleftrightarrow>
     (\<forall>k. 0 < k \<and> k < n \<and> k \<noteq> j \<longrightarrow> rankLe (r (xs ! parent k)) (r (xs ! k))) \<and>
     (\<forall>c. 0 < j \<and> 0 < c \<and> c < n \<and> parent c = j \<longrightarrow> rankLe (r (xs ! parent j)) (r (xs ! c)))"

lemma up_inv_step:
  assumes inv: "up_inv r j n (hItems h)" and n: "n = length (hItems h)"
    and j: "0 < j" "j < n" and less: "rankLe (r (hItems h ! j)) (r (hItems h ! parent j))"
  shows "up_inv r (parent j) n (hItems (heapSwap (parent j) j h))"
proof -
  let ?i = "parent j" and ?xs = "hItems h"
  have i: "?i < j" using j by (simp add: parent_less)
  have nth: "hItems (heapSwap ?i j h) ! k = ?xs ! (if k = ?i then j else if k = j then ?i else k)"
    if "k < n" for k
    using i j n that by (intro heapSwap_nth) auto
  have le: "rankLe (r (?xs ! parent k)) (r (?xs ! k))" if "0 < k" "k < n" "k \<noteq> j" for k
    using inv that by (simp add: up_inv_def)
  have ch: "rankLe (r (?xs ! ?i)) (r (?xs ! c))" if "0 < c" "c < n" "parent c = j" for c
    using inv that j by (simp add: up_inv_def)
  have pl: "parent k < n" if "0 < k" "k < n" for k using parent_less [of k] that by simp
  show ?thesis
    unfolding up_inv_def
  proof (intro conjI allI impI)
    fix k assume k: "0 < k \<and> k < n \<and> k \<noteq> ?i"
    show "rankLe (r (hItems (heapSwap ?i j h) ! parent k)) (r (hItems (heapSwap ?i j h) ! k))"
      using k nth pl [of k] less le [of k] ch [of k] i rankLe_trans [OF less, of "r (?xs ! k)"]
      by (cases "k = j"; cases "parent k = j"; cases "parent k = ?i") auto
  next
    fix c assume c: "0 < ?i \<and> 0 < c \<and> c < n \<and> parent c = ?i"
    then have "parent ?i < ?i" by (simp add: parent_less)
    moreover have "rankLe (r (?xs ! parent ?i)) (r (?xs ! ?i))" using c i j by (intro le) auto
    moreover have "rankLe (r (?xs ! ?i)) (r (?xs ! c))" if "c \<noteq> j" using le [of c] c that by simp
    ultimately show "rankLe (r (hItems (heapSwap ?i j h) ! parent ?i)) (r (hItems (heapSwap ?i j h) ! c))"
      using nth c i j parent_less [of c] by (auto intro: rankLe_trans)
  qed
qed

lemma heapUp_props:
  "j < length (hItems h) \<Longrightarrow> indexed h \<Longrightarrow>
   indexed (heapUp r j h) \<and> mset (hItems (heapUp r j h)) = mset (hItems h) \<and>
   length (hItems (heapUp r j h)) = length (hItems h)"
proof (induction r j h rule: heapUp.induct)
  case (1 r j h)
  show ?case
  proof (cases "(j - 1) div 2 = j \<or> \<not> heapLess r h j ((j - 1) div 2)")
    case True
    with "1.prems" show ?thesis by (simp add: heapUp.simps [of r j h] Let_def del: not_rankLess)
  next
    case False
    with "1.prems" have "(j - 1) div 2 < length (hItems h)" by simp
    with "1.IH" [OF refl False] "1.prems" False show ?thesis
      by (simp add: heapUp.simps [of r j h] Let_def heapSwap_indexed)
  qed
qed

lemma heapUp_heap:
  "up_inv r j (length (hItems h)) (hItems h) \<Longrightarrow> j < length (hItems h) \<Longrightarrow>
   heap_upto r (length (hItems h)) (hItems (heapUp r j h))"
proof (induction r j h rule: heapUp.induct)
  case (1 r j h)
  let ?i = "(j - 1) div 2"
  show ?case
  proof (cases "?i = j \<or> \<not> heapLess r h j ?i")
    case True
    then have "j = 0 \<or> rankLe (r (hItems h ! parent j)) (r (hItems h ! j))"
      by (auto simp: heapLess_def parent_def)
    with True "1.prems" show ?thesis
      by (auto simp: heapUp.simps [of r j h] Let_def up_inv_def heap_upto_def)
  next
    case False
    then have "0 < j" by (cases j) auto
    moreover have "rankLe (r (hItems h ! j)) (r (hItems h ! parent j))"
      using False by (auto simp: heapLess_def parent_def intro: not_rankLeD)
    ultimately have "up_inv r ?i (length (hItems h)) (hItems (heapSwap ?i j h))"
      using up_inv_step [OF "1.prems"(1) refl] "1.prems"(2) by (simp add: parent_def)
    with "1.IH" [OF refl False] "1.prems" False show ?thesis
      by (simp add: heapUp.simps [of r j h] Let_def)
  qed
qed

subsection \<open>Sifting down\<close>

text \<open>The heap order holds except between \<open>i\<close> and its children, which are at least \<open>i\<close>'s parent.
  \<open>fix_inv\<close> is the same without the order between \<open>i\<close> and its parent.\<close>

definition fix_inv :: "(nat \<Rightarrow> rank) \<Rightarrow> nat \<Rightarrow> nat \<Rightarrow> nat list \<Rightarrow> bool" where
  "fix_inv r i n xs \<longleftrightarrow>
     (\<forall>k. 0 < k \<and> k < n \<and> k \<noteq> i \<and> parent k \<noteq> i \<longrightarrow> rankLe (r (xs ! parent k)) (r (xs ! k))) \<and>
     (\<forall>c. 0 < i \<and> 0 < c \<and> c < n \<and> parent c = i \<longrightarrow> rankLe (r (xs ! parent i)) (r (xs ! c)))"

definition down_inv :: "(nat \<Rightarrow> rank) \<Rightarrow> nat \<Rightarrow> nat \<Rightarrow> nat list \<Rightarrow> bool" where
  "down_inv r i n xs \<longleftrightarrow>
     fix_inv r i n xs \<and> (0 < i \<longrightarrow> rankLe (r (xs ! parent i)) (r (xs ! i)))"

lemma minChild_bounds:
  assumes "2 * i + 1 < n"
  shows "minChild r i n h < n" "i < minChild r i n h" "parent (minChild r i n h) = i"
  using assms by (auto simp: minChild_def Let_def parent_def)

lemma minChild_least:
  assumes "2 * i + 1 < n" "0 < c" "c < n" "parent c = i"
  shows "rankLe (r (hItems h ! minChild r i n h)) (r (hItems h ! c))"
  using parent_child [OF assms(4,2)] assms(3)
  by (auto simp: minChild_def Let_def heapLess_def intro: rankLess_le)

lemma down_step:
  assumes inv: "fix_inv r i n (hItems h)" and n: "n \<le> length (hItems h)" "2 * i + 1 < n"
    and less: "rankLe (r (hItems h ! minChild r i n h)) (r (hItems h ! i))"
  shows "down_inv r (minChild r i n h) n (hItems (heapSwap i (minChild r i n h) h))"
proof -
  let ?j = "minChild r i n h" and ?xs = "hItems h"
  note j = minChild_bounds [OF n(2), of r h]
  have nth: "hItems (heapSwap i ?j h) ! k = ?xs ! (if k = i then ?j else if k = ?j then i else k)"
    if "k < n" for k
    using j n that by (intro heapSwap_nth) auto
  have le: "rankLe (r (?xs ! parent k)) (r (?xs ! k))"
    if "0 < k" "k < n" "k \<noteq> i" "parent k \<noteq> i" for k
    using inv that by (simp add: fix_inv_def)
  have ch: "rankLe (r (?xs ! parent i)) (r (?xs ! c))" if "0 < i" "0 < c" "c < n" "parent c = i" for c
    using inv that by (simp add: fix_inv_def)
  have mn: "rankLe (r (?xs ! ?j)) (r (?xs ! c))" if "0 < c" "c < n" "parent c = i" for c
    using minChild_least [OF n(2)] that by simp
  have pl: "parent k < k" "parent k < n" if "0 < k" "k < n" for k using parent_less [of k] that by auto
  have "rankLe (r (hItems (heapSwap i ?j h) ! parent k)) (r (hItems (heapSwap i ?j h) ! k))"
    if "0 < k" "k < n" "k \<noteq> ?j" "parent k \<noteq> ?j" for k
    using that nth [of k] nth [of "parent k"] pl [of k] le [of k] ch [of ?j] mn [of k] j
    by (cases "k = i"; cases "parent k = i") auto
  moreover have "rankLe (r (hItems (heapSwap i ?j h) ! i)) (r (hItems (heapSwap i ?j h) ! c))"
    if "0 < c" "c < n" "parent c = ?j" for c
    using that nth [of c] nth [of i] le [of c] j pl [of c] by auto
  moreover have "rankLe (r (hItems (heapSwap i ?j h) ! i)) (r (hItems (heapSwap i ?j h) ! ?j))"
    using nth [of i] nth [of ?j] less j by auto
  ultimately show ?thesis using j by (simp add: down_inv_def fix_inv_def)
qed

lemma fix_inv_leaf:
  "fix_inv r i n xs \<Longrightarrow> (\<And>c. 0 < c \<Longrightarrow> c < n \<Longrightarrow> parent c = i \<Longrightarrow> rankLe (r (xs ! i)) (r (xs ! c))) \<Longrightarrow>
   up_inv r i n xs"
  by (auto simp: fix_inv_def up_inv_def)

lemma down_inv_leaf:
  "down_inv r i n xs \<Longrightarrow> (\<And>c. 0 < c \<Longrightarrow> c < n \<Longrightarrow> parent c = i \<Longrightarrow> rankLe (r (xs ! i)) (r (xs ! c))) \<Longrightarrow>
   heap_upto r n xs"
  unfolding heap_upto_def
proof (intro allI impI)
  fix k
  assume d: "down_inv r i n xs"
    and c: "\<And>c. 0 < c \<Longrightarrow> c < n \<Longrightarrow> parent c = i \<Longrightarrow> rankLe (r (xs ! i)) (r (xs ! c))"
    and k: "0 < k \<and> k < n"
  show "rankLe (r (xs ! parent k)) (r (xs ! k))"
    using d c [of k] k by (cases "k = i"; cases "parent k = i") (auto simp: down_inv_def fix_inv_def)
qed

lemma no_children: "n \<le> 2 * i + 1 \<Longrightarrow> 0 < c \<Longrightarrow> parent c = i \<Longrightarrow> \<not> c < n"
  using parent_child [of c i] by auto

lemma children_ge:
  assumes "2 * i + 1 < n" "\<not> heapLess r h (minChild r i n h) i" "0 < c" "c < n" "parent c = i"
  shows "rankLe (r (hItems h ! i)) (r (hItems h ! c))"
  using minChild_least [OF assms(1,3,4,5), of r h] assms(2) rankLe_trans
  by (auto simp: heapLess_def)

lemma heapDown_heap:
  "down_inv r i n (hItems h) \<Longrightarrow> n \<le> length (hItems h) \<Longrightarrow>
   heap_upto r n (hItems (snd (heapDown r i n h)))"
proof (induction r i n h rule: heapDown.induct)
  case (1 r i n h)
  let ?j = "minChild r i n h"
  consider "n \<le> 2 * i + 1" | "2 * i + 1 < n" "\<not> heapLess r h ?j i" | "2 * i + 1 < n" "heapLess r h ?j i"
    by linarith
  then show ?case
  proof cases
    case 1
    with "1.prems" no_children show ?thesis
      by (simp add: heapDown.simps [of r i n h]) (blast intro: down_inv_leaf)
  next
    case 2
    with "1.prems"(1) have "heap_upto r n (hItems h)"
      by (rule_tac down_inv_leaf) (auto intro: children_ge)
    with 2 show ?thesis by (simp add: heapDown.simps [of r i n h] Let_def)
  next
    case 3
    then have "rankLe (r (hItems h ! ?j)) (r (hItems h ! i))"
      by (auto simp: heapLess_def intro: rankLess_le)
    with 3 "1.prems" have "down_inv r ?j n (hItems (heapSwap i ?j h))"
      by (intro down_step) (auto simp: down_inv_def)
    with "1.IH" [OF _ refl] "1.prems" 3 show ?thesis
      by (simp add: heapDown.simps [of r i n h] Let_def)
  qed
qed

lemma heapDown_props:
  "n \<le> length (hItems h) \<Longrightarrow> indexed h \<Longrightarrow>
   indexed (snd (heapDown r i n h)) \<and> mset (hItems (snd (heapDown r i n h))) = mset (hItems h) \<and>
   length (hItems (snd (heapDown r i n h))) = length (hItems h) \<and> i \<le> fst (heapDown r i n h) \<and>
   (\<forall>k. n \<le> k \<longrightarrow> hItems (snd (heapDown r i n h)) ! k = hItems h ! k) \<and>
   (fst (heapDown r i n h) = i \<longrightarrow> snd (heapDown r i n h) = h)"
proof (induction r i n h rule: heapDown.induct)
  case (1 r i n h)
  let ?j = "minChild r i n h"
  show ?case
  proof (cases "2 * i + 1 < n \<and> heapLess r h ?j i")
    case False
    then show ?thesis using "1.prems" by (auto simp: heapDown.simps [of r i n h] Let_def)
  next
    case True
    then have j: "?j < n" "i < ?j" using minChild_bounds by auto
    with "1.prems" have "indexed (heapSwap i ?j h)" by (intro heapSwap_indexed) auto
    moreover have "mset (hItems (heapSwap i ?j h)) = mset (hItems h)" using j "1.prems" by simp
    moreover have "hItems (heapSwap i ?j h) ! k = hItems h ! k" if "n \<le> k" for k
      using j that by (simp add: heapSwap_items)
    moreover have "heapDown r i n h = heapDown r ?j n (heapSwap i ?j h)"
      using True by (subst heapDown.simps) (simp add: Let_def)
    ultimately show ?thesis using "1.IH" [OF _ refl] "1.prems" True j by simp
  qed
qed

lemma heapDown_length: "length (hItems (snd (heapDown r i n h))) = length (hItems h)"
proof (induction r i n h rule: heapDown.induct)
  case (1 r i n h)
  then show ?case by (subst heapDown.simps) (simp add: Let_def)
qed

subsection \<open>The operations keep the heap\<close>

lemma heap_ok_indexed: "heap_ok r h \<Longrightarrow> indexed h"
  by (simp add: heap_ok_def)

lemma heapAppend_indexed: "indexed h \<Longrightarrow> t \<notin> set (hItems h) \<Longrightarrow> indexed (heapAppend t h)"
  by (auto simp: indexed_def heapAppend_def nth_append less_Suc_eq)

lemma heapAppend_up_inv:
  assumes "heap_upto r (length xs) xs"
  shows "up_inv r (length xs) (Suc (length xs)) (xs @ [t])"
proof -
  have "rankLe (r ((xs @ [t]) ! parent k)) (r ((xs @ [t]) ! k))" if "0 < k" "k < length xs" for k
    using assms that parent_less [of k] by (simp add: heap_upto_def nth_append)
  moreover have "parent c \<noteq> length xs" if "0 < c" "c < Suc (length xs)" for c
    using parent_less [of c] that by simp
  ultimately show ?thesis by (auto simp: up_inv_def less_Suc_eq)
qed

lemma heapPush_props:
  assumes "heap_ok r h" "t \<notin> set (hItems h)"
  shows "heap_ok r (heapPush r t h)" "mset (hItems (heapPush r t h)) = add_mset t (mset (hItems h))"
proof -
  let ?a = "heapAppend t h" and ?n = "length (hItems h)"
  have a: "hItems ?a = hItems h @ [t]" "indexed ?a"
    using assms by (simp_all add: heapAppend_indexed heap_ok_def) (simp add: heapAppend_def)
  have up: "heapPush r t h = heapUp r ?n ?a" by (simp add: heapPush_def a)
  have "heap_upto r (Suc ?n) (hItems (heapUp r ?n ?a))"
    using heapUp_heap [of r ?n ?a] heapAppend_up_inv [of r "hItems h" t] assms(1)
    by (simp add: a heap_ok_def)
  with heapUp_props [of ?n ?a r] a up
  show "heap_ok r (heapPush r t h)" "mset (hItems (heapPush r t h)) = add_mset t (mset (hItems h))"
    by (simp_all add: heap_ok_def)
qed

lemma heapDropLast_indexed: "indexed h \<Longrightarrow> hItems h \<noteq> [] \<Longrightarrow> indexed (snd (heapDropLast h))"
  by (auto simp: indexed_def heapDropLast_def Let_def distinct_butlast nth_butlast
      last_conv_nth nth_eq_iff_index_eq)

lemma heap_upto_butlast:
  "heap_upto r (length xs - 1) xs \<Longrightarrow> heap_upto r (length xs - 1) (butlast xs)"
  unfolding heap_upto_def
proof (intro allI impI)
  fix i
  assume h: "\<forall>i. 0 < i \<and> i < length xs - 1 \<longrightarrow> rankLe (r (xs ! parent i)) (r (xs ! i))"
    and i: "0 < i \<and> i < length xs - 1"
  then have "parent i < length xs - 1" using parent_less [of i] by simp
  with h i show "rankLe (r (butlast xs ! parent i)) (r (butlast xs ! i))"
    by (simp add: nth_butlast)
qed

lemma heapPop_props:
  assumes "heap_ok r h" "hItems h \<noteq> []"
  shows "heap_ok r (snd (heapPop r h))" "fst (heapPop r h) = hItems h ! 0"
    "mset (hItems h) = add_mset (hItems h ! 0) (mset (hItems (snd (heapPop r h))))"
proof -
  let ?n = "length (hItems h) - 1"
  let ?s = "heapSwap 0 ?n h"
  let ?d = "snd (heapDown r 0 ?n ?s)"
  have n: "?n < length (hItems h)" "0 < length (hItems h)" using assms(2) by auto
  have idx: "indexed ?s" using assms n by (intro heapSwap_indexed) (auto simp: heap_ok_def)
  have nth: "hItems ?s ! k = hItems h ! (if k = 0 then ?n else if k = ?n then 0 else k)"
    if "k < length (hItems h)" for k
    using heapSwap_nth [OF n(2,1) that] .
  have "rankLe (r (hItems ?s ! parent k)) (r (hItems ?s ! k))" if "0 < k" "k < ?n" "parent k \<noteq> 0" for k
    using that parent_less [of k] assms(1) nth [of k] nth [of "parent k"]
    by (simp add: heap_ok_def heap_upto_def)
  then have "down_inv r 0 ?n (hItems ?s)" by (simp add: down_inv_def fix_inv_def)
  then have heap: "heap_upto r ?n (hItems ?d)" by (intro heapDown_heap) auto
  have d: "indexed ?d" "mset (hItems ?d) = mset (hItems h)" "length (hItems ?d) = length (hItems h)"
    "hItems ?d ! ?n = hItems ?s ! ?n"
    using heapDown_props [of ?n ?s r 0] idx n by simp_all
  have ne: "hItems ?d \<noteq> []" using d(3) assms(2) by auto
  have "hItems ?s ! ?n = hItems h ! 0" unfolding nth [OF n(1)] by simp
  then have last: "last (hItems ?d) = hItems h ! 0" "hItems ?d \<noteq> []"
    unfolding last_conv_nth [OF ne] d(3) d(4) using ne by simp_all
  have pop: "heapPop r h = heapDropLast ?d" by (simp add: heapPop_def Let_def)
  then show "fst (heapPop r h) = hItems h ! 0" using last by (simp add: heapDropLast_def Let_def)
  have items: "hItems (snd (heapPop r h)) = butlast (hItems ?d)"
    by (simp add: pop heapDropLast_def Let_def)
  have "hItems ?d = butlast (hItems ?d) @ [hItems h ! 0]"
    using last append_butlast_last_id [of "hItems ?d"] by simp
  then have "mset (hItems ?d) = mset (butlast (hItems ?d) @ [hItems h ! 0])" by (rule arg_cong)
  then have "mset (hItems ?d) = add_mset (hItems h ! 0) (mset (butlast (hItems ?d)))" by simp
  then show "mset (hItems h) = add_mset (hItems h ! 0) (mset (hItems (snd (heapPop r h))))"
    using d(2) items by simp
  have "heap_upto r ?n (butlast (hItems ?d))"
    using heap_upto_butlast [of r "hItems ?d"] heap unfolding d(3) by simp
  moreover have "indexed (snd (heapPop r h))" unfolding pop using d(1) last(2) by (rule heapDropLast_indexed)
  ultimately show "heap_ok r (snd (heapPop r h))" using items d(3) by (simp add: heap_ok_def)
qed

lemma heapDown_ge: "i \<le> fst (heapDown r i n h)"
proof (induction r i n h rule: heapDown.induct)
  case (1 r i n h)
  let ?j = "minChild r i n h"
  show ?case
  proof (cases "2 * i + 1 < n \<and> heapLess r h ?j i")
    case False
    then show ?thesis by (auto simp: heapDown.simps [of r i n h] Let_def)
  next
    case True
    then have "i < ?j" using minChild_bounds by auto
    moreover have "heapDown r i n h = heapDown r ?j n (heapSwap i ?j h)"
      using True by (subst heapDown.simps) (simp add: Let_def)
    ultimately show ?thesis using "1.IH" [OF _ refl] True by simp
  qed
qed

lemma heapDown_fix:
  assumes "fix_inv r i n (hItems h)" "n \<le> length (hItems h)"
  shows "if fst (heapDown r i n h) = i then up_inv r i n (hItems h)
         else heap_upto r n (hItems (snd (heapDown r i n h)))"
proof -
  let ?j = "minChild r i n h"
  consider "n \<le> 2 * i + 1" | "2 * i + 1 < n" "\<not> heapLess r h ?j i" | "2 * i + 1 < n" "heapLess r h ?j i"
    by linarith
  then show ?thesis
  proof cases
    case 1
    with assms(1) no_children [of n i] have "up_inv r i n (hItems h)" by (blast intro: fix_inv_leaf)
    with 1 show ?thesis by (simp add: heapDown.simps [of r i n h])
  next
    case 2
    from assms(1) have "up_inv r i n (hItems h)"
      by (rule fix_inv_leaf) (rule children_ge [OF 2])
    with 2 show ?thesis by (simp add: heapDown.simps [of r i n h] Let_def)
  next
    case 3
    then have "rankLe (r (hItems h ! ?j)) (r (hItems h ! i))"
      by (auto simp: heapLess_def intro: rankLess_le)
    from heapDown_heap [OF down_step [OF assms 3(1) this]] assms(2)
    have "heap_upto r n (hItems (snd (heapDown r ?j n (heapSwap i ?j h))))" by simp
    moreover have "heapDown r i n h = heapDown r ?j n (heapSwap i ?j h)"
      using 3 by (subst heapDown.simps) (simp add: Let_def)
    moreover have "i < fst (heapDown r ?j n (heapSwap i ?j h))"
      using minChild_bounds(2) [OF 3(1)] heapDown_ge less_le_trans by blast
    ultimately show ?thesis by simp
  qed
qed

text \<open>After the rank of the task at position \<open>i\<close> went down or up, \<open>heap.Fix\<close> restores the order.\<close>

lemma heapFix_props:
  assumes "heap_ok r h" "i < length (hItems h)" "\<And>t. t \<noteq> hItems h ! i \<Longrightarrow> r' t = r t"
  shows "heap_ok r' (heapFix r' i h)" "mset (hItems (heapFix r' i h)) = mset (hItems h)"
proof -
  let ?n = "length (hItems h)" and ?D = "heapDown r' i (length (hItems h)) h"
  have idx: "indexed h" and ord: "heap_upto r ?n (hItems h)" using assms(1) by (simp_all add: heap_ok_def)
  have r': "r' (hItems h ! k) = r (hItems h ! k)" if "k < ?n" "k \<noteq> i" for k
    using assms(2,3) idx that by (metis indexed_def nth_eq_iff_index_eq)
  have le: "rankLe (r (hItems h ! parent k)) (r (hItems h ! k))" if "0 < k" "k < ?n" for k
    using ord that by (simp add: heap_upto_def)
  have pl: "parent k < k" if "0 < k" for k using that by (rule parent_less)
  have fix_i: "fix_inv r' i ?n (hItems h)"
    unfolding fix_inv_def
  proof (intro conjI allI impI)
    fix k assume "0 < k \<and> k < ?n \<and> k \<noteq> i \<and> parent k \<noteq> i"
    then show "rankLe (r' (hItems h ! parent k)) (r' (hItems h ! k))"
      using le [of k] pl [of k] by (simp add: r')
  next
    fix c assume c: "0 < i \<and> 0 < c \<and> c < ?n \<and> parent c = i"
    then have "rankLe (r (hItems h ! parent i)) (r (hItems h ! c))"
      using le [of i] le [of c] assms(2) rankLe_trans by metis
    with c pl [of i] pl [of c] assms(2) show "rankLe (r' (hItems h ! parent i)) (r' (hItems h ! c))"
      by (simp add: r')
  qed
  note props = heapDown_props [OF order_refl idx, of r' i]
  note fixed = heapDown_fix [OF fix_i order_refl]
  have "heap_ok r' (heapFix r' i h) \<and> mset (hItems (heapFix r' i h)) = mset (hItems h)"
  proof (cases "fst ?D = i")
    case True
    then have "heapFix r' i h = heapUp r' i h"
      using props by (simp add: heapFix_def case_prod_beta Let_def)
    with True fixed heapUp_heap [of r' i h] heapUp_props [OF assms(2) idx, of r'] assms(2)
    show ?thesis by (simp add: heap_ok_def)
  next
    case False
    then have "heapFix r' i h = snd ?D"
      using props by (simp add: heapFix_def case_prod_beta Let_def)
    with False fixed props show ?thesis by (simp add: heap_ok_def)
  qed
  then show "heap_ok r' (heapFix r' i h)" "mset (hItems (heapFix r' i h)) = mset (hItems h)"
    by simp_all
qed

lemma heap_ok_fix_least:
  "heap_ok r h \<Longrightarrow> t \<in> set (hItems h) \<Longrightarrow> rankLe (r (hItems h ! 0)) (r t)"
  by (auto simp: heap_ok_def in_set_conv_nth intro: heap_root_least)

interpretation task_heap: prio_queue hItems "\<lambda>a b. rankLe (r a) (r b)" "heap_ok r" "heapPush r" "heapPop r"
  for r
proof (unfold_locales, goal_cases)
  case (5 q x)
  then have "hItems q \<noteq> []" by auto
  with 5 show ?case by (simp add: heapPop_props heap_ok_fix_least)
qed (simp_all add: heapPush_props heapPop_props)

end
