(* ===== verification/StreamManager.thy ===== *)
theory StreamManager
  imports AccessMode ChunkStoreLaws TaskHeap
begin

text \<open>
  The stream manager (\<open>internal/stream/manager.go\<close>): sessions, download tasks, the worker queue,
  read-ahead scheduling, hedged requests, the disk write queue and idle reclaim.

  A task pointer is a \<open>nat\<close>; \<open>mObjs\<close> is the heap of task objects and \<open>mNext\<close> the next free pointer.
  The field \<open>index\<close> of a task lives in the queue (\<open>hIndex\<close>). The maps \<open>m.tasks\<close> and
  \<open>m.sessions\<close> are association lists without duplicate keys; every loop over them in the source is
  independent of the order. \<open>done\<close> is true once the channel \<open>task.done\<close> is closed, and \<open>mPanic\<close>
  records what would be a run-time panic: a second close of that channel, or \<open>heap.Fix\<close> outside
  of the slice. Every function that runs under \<open>m.mu\<close> is one step of the model; a function that
  takes the lock several times is the composition of its critical sections.

  Event counters (\<open>sequence\<close>, \<open>nextHandle\<close>, epochs, statistics) are unbounded integers, as they
  count single events; offsets, lengths and durations wrap at 64 bits.
\<close>

section \<open>Data\<close>

datatype priority = PriorityForeground | PriorityNear | PriorityAhead | PriorityBack

primrec prioNum :: "priority \<Rightarrow> nat" where
  "prioNum PriorityForeground = 0"
| "prioNum PriorityNear = 1"
| "prioNum PriorityAhead = 2"
| "prioNum PriorityBack = 3"

lemma prioNum_inj [simp]: "prioNum p = prioNum q \<longleftrightarrow> p = q"
  by (cases p; cases q) simp_all

instantiation priority :: linorder
begin

definition less_eq_priority :: "priority \<Rightarrow> priority \<Rightarrow> bool" where
  "less_eq_priority p q \<longleftrightarrow> prioNum p \<le> prioNum q"

definition less_priority :: "priority \<Rightarrow> priority \<Rightarrow> bool" where
  "less_priority p q \<longleftrightarrow> prioNum p < prioNum q"

instance
  by standard (auto simp: less_eq_priority_def less_priority_def)

end

record session =
  ssFile :: File
  ssEpoch :: int
  activeHandle :: nat
  streamAnchor :: int
  cursor :: int
  refs :: int
  inflight :: int
  slowStreak :: int
  lastAccess :: int
  lastSummary :: "int option"
  scheduleSet :: bool
  scheduleEpoch :: int
  scheduledFloor :: int
  scheduledNear :: int
  scheduledEnd :: int
  ssHedges :: int
  dlinkRefreshes :: int

record task =
  tKey :: chunkKey
  tFile :: File
  tOffset :: int
  tLength :: int
  tPriority :: priority
  tEpoch :: int
  tSeq :: int
  tHasCtx :: bool
  tCanceled :: bool
  tDone :: bool
  tData :: bytes
  tErr :: "goerr option"
  tStarted :: bool
  tFinished :: bool
  tForeground :: bool
  tHedged :: bool
  tHedgeCancel :: bool
  tStartedAt :: "int option"

type_synonym summaryRequest = "File \<times> int \<times> int"

record mgr =
  mCfg :: Config
  mStore :: chunkStore
  mObjs :: "nat \<Rightarrow> task"
  mNext :: nat
  mQueue :: taskHeap
  mTasks :: "(chunkKey \<times> nat) list"
  mSessions :: "(string \<times> session) list"
  mClosed :: bool
  mSequence :: int
  mNextHandle :: nat
  mDiskWrites :: "cacheEntry list"
  mSummaries :: "summaryRequest list"
  mFreeOS :: "(int \<times> int) list"
  mLatencies :: "int list"
  mLatencyNext :: nat
  mIdleTimer :: "(int \<times> int) option"
  mIdleEpoch :: int
  mLastActivity :: int
  mDownloaded :: int
  mRetries :: int
  mHedges :: int
  mPanic :: bool

section \<open>Access to the heap and the maps\<close>

definition updTask :: "nat \<Rightarrow> (task \<Rightarrow> task) \<Rightarrow> mgr \<Rightarrow> mgr" where
  "updTask t f m = m\<lparr>mObjs := (mObjs m)(t := f (mObjs m t))\<rparr>"

definition setSession :: "string \<Rightarrow> session \<Rightarrow> mgr \<Rightarrow> mgr" where
  "setSession v s m = m\<lparr>mSessions := AList.update v s (mSessions m)\<rparr>"

definition getSession :: "string \<Rightarrow> mgr \<Rightarrow> session option" where
  "getSession v m = map_of (mSessions m) v"

definition onSession :: "string \<Rightarrow> (session \<Rightarrow> session) \<Rightarrow> mgr \<Rightarrow> mgr" where
  "onSession v f m = (case getSession v m of None \<Rightarrow> m | Some s \<Rightarrow> setSession v (f s) m)"

definition rankOf :: "mgr \<Rightarrow> nat \<Rightarrow> rank" where
  "rankOf m t = (prioNum (tPriority (mObjs m t)), tSeq (mObjs m t))"

text \<open>\<open>task.ctx.Err()\<close>: the context of a task is canceled by \<open>task.cancel\<close> or, with its parent
  \<open>m.ctx\<close>, by \<open>Close\<close>.\<close>

definition ctxErr :: "mgr \<Rightarrow> nat \<Rightarrow> goerr option" where
  "ctxErr m t = (if tCanceled (mObjs m t) \<or> mClosed m then Some ErrCanceled else None)"

text \<open>\<open>close(task.done)\<close>: closing a closed channel panics.\<close>

definition closeDone :: "nat \<Rightarrow> mgr \<Rightarrow> mgr" where
  "closeDone t m =
     (if tDone (mObjs m t) then m\<lparr>mPanic := True\<rparr> else updTask t (\<lambda>k. k\<lparr>tDone := True\<rparr>) m)"

text \<open>\<open>if m.tasks[task.key] == task { delete(m.tasks, task.key) }\<close>\<close>

definition unregister :: "nat \<Rightarrow> mgr \<Rightarrow> mgr" where
  "unregister t m =
     (let k = tKey (mObjs m t)
      in if map_of (mTasks m) k = Some t then m\<lparr>mTasks := AList.delete k (mTasks m)\<rparr> else m)"

definition cancelTasks :: "(task \<Rightarrow> bool) \<Rightarrow> mgr \<Rightarrow> mgr" where
  "cancelTasks P m =
     m\<lparr>mObjs := (\<lambda>t. if t \<in> snd ` set (mTasks m) \<and> P (mObjs m t) \<and> tHasCtx (mObjs m t)
                    then (mObjs m t)\<lparr>tCanceled := True\<rparr> else mObjs m t)\<rparr>"

definition emptyTask :: task where
  "emptyTask = \<lparr>tKey = ChunkKey [] 0, tFile = \<lparr>flFSID = [], flSize = 0, flMTM = 0\<rparr>, tOffset = 0,
     tLength = 0, tPriority = PriorityForeground, tEpoch = 0, tSeq = 0, tHasCtx = False,
     tCanceled = False, tDone = False, tData = [], tErr = None, tStarted = False,
     tFinished = False, tForeground = False, tHedged = False, tHedgeCancel = False,
     tStartedAt = None\<rparr>"

text \<open>A new task object; its \<open>index\<close> field is set to \<open>-1\<close> by the composite literal in \<open>ensureTask\<close>
  and to \<open>0\<close> in the literals that leave it out, which are never in the queue.\<close>

definition allocTask :: "int \<Rightarrow> task \<Rightarrow> mgr \<Rightarrow> nat \<times> mgr" where
  "allocTask i k m =
     (mNext m, m\<lparr>mObjs := (mObjs m)(mNext m := k), mNext := mNext m + 1,
                 mQueue := (mQueue m)\<lparr>hIndex := (hIndex (mQueue m))(mNext m := i)\<rparr>\<rparr>)"

section \<open>Construction\<close>

definition newMgr :: "Config \<Rightarrow> chunkStore \<Rightarrow> mgr" where
  "newMgr cfg st =
     \<lparr>mCfg = cfg, mStore = st, mObjs = (\<lambda>_. emptyTask), mNext = 0,
      mQueue = \<lparr>hItems = [], hIndex = (\<lambda>_. - 1)\<rparr>, mTasks = [], mSessions = [], mClosed = False,
      mSequence = 0, mNextHandle = 0, mDiskWrites = [], mSummaries = [], mFreeOS = [],
      mLatencies = [], mLatencyNext = 0, mIdleTimer = None, mIdleEpoch = 0, mLastActivity = 0,
      mDownloaded = 0, mRetries = 0, mHedges = 0, mPanic = False\<rparr>"

definition NewManager ::
  "os_env \<Rightarrow> goerr option \<Rightarrow> (goerr + dirEntry list) \<Rightarrow> (goerr + dirEntry list) \<Rightarrow>
   (string \<rightharpoonup> bytes) \<Rightarrow> bool \<Rightarrow> Config \<Rightarrow> goerr + mgr" where
  "NewManager os mkdirErr dir1 dir2 fs hasReader cfg =
     (if \<not> hasReader then Inl (ErrText ''stream reader is required'')
      else case normalizeConfig cfg of Inl e \<Rightarrow> Inl e | Inr c \<Rightarrow>
        case newChunkStore os mkdirErr dir1 dir2 (MemoryCache c) (CachePath c) (DiskCache c) fs of
          Inl e \<Rightarrow> Inl e | Inr st \<Rightarrow> Inr (newMgr c st))"

section \<open>Idle reclaim\<close>

definition cancelIdleReclaimLocked :: "mgr \<Rightarrow> mgr" where
  "cancelIdleReclaimLocked m = m\<lparr>mIdleEpoch := mIdleEpoch m + 1, mIdleTimer := None\<rparr>"

text \<open>The timer is the pair of the delay and the epoch its callback passes on.\<close>

definition scheduleIdleReclaimAfterLocked :: "int \<Rightarrow> mgr \<Rightarrow> mgr" where
  "scheduleIdleReclaimAfterLocked delay m =
     (if mClosed m then m
      else m\<lparr>mIdleEpoch := mIdleEpoch m + 1,
             mIdleTimer := Some (if delay \<le> 0 then milliseconds else delay, mIdleEpoch m + 1)\<rparr>)"

definition markActivityLocked :: "int \<Rightarrow> mgr \<Rightarrow> mgr" where
  "markActivityLocked now m =
     (if mClosed m then m
      else let m1 = m\<lparr>mLastActivity := now\<rparr>
           in if mIdleTimer m1 = None then scheduleIdleReclaimAfterLocked (IdleReclaim (mCfg m)) m1 else m1)"

definition forgetSchedule :: "session \<Rightarrow> session" where
  "forgetSchedule s = s\<lparr>scheduleSet := False, scheduledFloor := 0, scheduledNear := 0, scheduledEnd := 0\<rparr>"

text \<open>\<open>readerBytes\<close> is what \<open>ClearReadCache\<close> of the reader returns (\<open>0\<close> without that method);
  the result says whether memory was reclaimed, and then the request goes to \<open>m.freeOS\<close>.\<close>

definition reclaimIdleMemory :: "int \<Rightarrow> int \<Rightarrow> int \<Rightarrow> mgr \<Rightarrow> mgr \<times> bool" where
  "reclaimIdleMemory now readerBytes epoch m =
     (if mClosed m \<or> epoch \<noteq> mIdleEpoch m then (m, False)
      else let m1 = m\<lparr>mIdleTimer := None\<rparr>;
               remaining = IdleReclaim (mCfg m) - (now - mLastActivity m)
           in if 0 < remaining then (scheduleIdleReclaimAfterLocked remaining m1, False)
              else if mTasks m \<noteq> [] then (scheduleIdleReclaimAfterLocked seconds m1, False)
              else if list_ex (\<lambda>(v, s). 0 < inflight s) (mSessions m)
              then (scheduleIdleReclaimAfterLocked seconds m1, False)
              else let (streamBytes, st) = clearMemory (mStore m)
                   in (m1\<lparr>mSessions := map (\<lambda>(v, s). (v, forgetSchedule s)) (mSessions m),
                          mStore := st, mFreeOS := mFreeOS m @ [(streamBytes, readerBytes)]\<rparr>, True))"

section \<open>Sessions and handles\<close>

definition newSession :: "int \<Rightarrow> File \<Rightarrow> session" where
  "newSession now f =
     \<lparr>ssFile = f, ssEpoch = 0, activeHandle = 0, streamAnchor = 0, cursor = 0, refs = 0,
      inflight = 0, slowStreak = 0, lastAccess = now, lastSummary = None, scheduleSet = False,
      scheduleEpoch = 0, scheduledFloor = 0, scheduledNear = 0, scheduledEnd = 0, ssHedges = 0,
      dlinkRefreshes = 0\<rparr>"

abbreviation versionOf :: "mgr \<Rightarrow> File \<Rightarrow> string" where
  "versionOf m f \<equiv> chunkVersion f (ChunkSize (mCfg m))"

definition sessionLocked :: "int \<Rightarrow> File \<Rightarrow> mgr \<Rightarrow> session \<times> mgr" where
  "sessionLocked now f m =
     (case getSession (versionOf m f) m of
        Some s \<Rightarrow> (s, m)
      | None \<Rightarrow> (newSession now f, setSession (versionOf m f) (newSession now f) m))"

definition OpenHandle :: "int \<Rightarrow> File \<Rightarrow> mgr \<Rightarrow> Handle option \<times> mgr" where
  "OpenHandle now f m =
     (if flFSID f = [] \<or> mClosed m then (None, m)
      else let (s, m1) = sessionLocked now f (markActivityLocked now m);
               m2 = setSession (versionOf m f) (s\<lparr>refs := refs s + 1, lastAccess := mLastActivity m1\<rparr>) m1;
               i = mNextHandle m2 + 1
           in (Some (newHandle f i), m2\<lparr>mNextHandle := i\<rparr>))"

definition cleanupSessionLocked :: "string \<Rightarrow> mgr \<Rightarrow> mgr" where
  "cleanupSessionLocked v m =
     (case getSession v m of
        None \<Rightarrow> m
      | Some s \<Rightarrow>
          if 0 < refs s \<or> 0 < inflight s then m
          else if list_ex (\<lambda>(k, t). ckVersion (tKey (mObjs m t)) = v \<and> \<not> tFinished (mObjs m t)) (mTasks m)
          then m
          else m\<lparr>mSessions := AList.delete v (mSessions m)\<rparr>)"

definition cancelSessionTasksLocked :: "string \<Rightarrow> int \<Rightarrow> mgr \<Rightarrow> mgr" where
  "cancelSessionTasksLocked v currentEpoch m =
     cancelTasks (\<lambda>k. ckVersion (tKey k) = v \<and> tEpoch k < currentEpoch \<and>
                      tPriority k \<noteq> PriorityForeground) m"

definition Release :: "int \<Rightarrow> Handle \<Rightarrow> mgr \<Rightarrow> Handle \<times> mgr" where
  "Release now h m =
     (if released h then (h, m)
      else let v = versionOf m (hFile h) in
        (h\<lparr>released := True\<rparr>,
         case getSession v m of
           None \<Rightarrow> m
         | Some s \<Rightarrow>
             let s1 = (if 0 < refs s then s\<lparr>refs := refs s - 1\<rparr> else s);
                 (s2, m1) = (if activeHandle s1 = hId h
                             then (s1\<lparr>ssEpoch := ssEpoch s1 + 1, activeHandle := 0\<rparr>,
                                   cancelSessionTasksLocked v (ssEpoch s1 + 1) m)
                             else (s1, m))
             in cleanupSessionLocked v (setSession v (s2\<lparr>lastAccess := now\<rparr>) m1)))"

definition inScheduledWindowLocked :: "Config \<Rightarrow> session \<Rightarrow> int \<Rightarrow> bool" where
  "inScheduledWindowLocked cfg s offset \<longleftrightarrow>
     scheduleSet s \<and> scheduleEpoch s = ssEpoch s \<and> 0 < ChunkSize cfg \<and> 0 \<le> offset \<and>
     scheduledFloor s \<le> go_div offset (ChunkSize cfg) \<and>
     go_div offset (ChunkSize cfg) \<le> scheduledEnd s"

record prepared =
  prEpoch :: int
  prMode :: accessMode
  prStream :: bool
  prEvent :: readEvent
  prLog :: bool

text \<open>The decision of \<open>prepareRead\<close> on the session: a new epoch (which cancels the tasks of older
  ones), the active handle, and whether this is an independent read of another handle.\<close>

definition prepareSession ::
  "Config \<Rightarrow> nat \<Rightarrow> int \<Rightarrow> observation \<Rightarrow> session \<Rightarrow> session \<times> readEvent \<times> bool" where
  "prepareSession cfg hid offset ob s =
     (let within = inScheduledWindowLocked cfg s offset;
          event = (if within \<and> obEvent ob = EventSeek then EventNone else obEvent ob);
          take_over = s\<lparr>activeHandle := hid, streamAnchor := offset\<rparr>;
          restart = take_over\<lparr>ssEpoch := ssEpoch s + 1\<rparr>
      in if event = EventSeek then
           if activeHandle s \<noteq> 0 \<and> activeHandle s \<noteq> hid then (s, EventNone, True)
           else (restart, event, False)
         else if event = EventStart then
           if activeHandle s \<noteq> 0 \<and> activeHandle s \<noteq> hid \<and> \<not> within then (restart, event, False)
           else if activeHandle s = 0 then (take_over, event, False)
           else (s, event, False)
         else if obMode ob = ModeStream \<and> activeHandle s = 0 then (take_over, EventStart, False)
         else (s, event, False))"

definition prepareRead ::
  "int \<Rightarrow> Handle \<Rightarrow> int \<Rightarrow> int \<Rightarrow> mgr \<Rightarrow> (goerr + prepared) \<times> Handle \<times> mgr" where
  "prepareRead now h offset n m =
     (if released h then (Inl (ErrText ''stream handle is released''), h, m)
      else let (h1, ob) = observeHandleLocked (mCfg m) h offset n in
        if mClosed m then (Inl (ErrText ''stream manager is closed''), h1, m)
        else let (s, m1) = sessionLocked now (hFile h) (markActivityLocked now m);
                 v = versionOf m (hFile h);
                 within = inScheduledWindowLocked (mCfg m) s offset;
                 (s1, event, independent) = prepareSession (mCfg m) (hId h) offset ob s;
                 m2 = (if ssEpoch s1 \<noteq> ssEpoch s then cancelSessionTasksLocked v (ssEpoch s1) m1 else m1);
                 streamRead = (\<not> independent \<and> obStream ob \<and> (activeHandle s1 = hId h \<or> within));
                 e = i64 (offset + n);
                 s2 = s1\<lparr>lastAccess := now,
                         cursor := (if streamRead \<and> cursor s1 < e then e else cursor s1)\<rparr>;
                 logEvent = (ssEpoch s1 \<noteq> ssEpoch s \<or>
                   event = EventStart \<and> activeHandle s = 0 \<and> activeHandle s1 = hId h)
             in (Inr \<lparr>prEpoch = ssEpoch s1, prMode = obMode ob, prStream = streamRead,
                      prEvent = event, prLog = logEvent\<rparr>,
                 h1\<lparr>hEpoch := ssEpoch s1\<rparr>, setSession v s2 m2))"

section \<open>Tasks\<close>

abbreviation keyOf :: "mgr \<Rightarrow> File \<Rightarrow> int \<Rightarrow> chunkKey" where
  "keyOf m f index \<equiv> ChunkKey (versionOf m f) index"

text \<open>A task that was never queued: its channel is closed and it is finished.\<close>

definition finishedTask :: "chunkKey \<Rightarrow> File \<Rightarrow> int \<Rightarrow> priority \<Rightarrow> bytes \<Rightarrow> task" where
  "finishedTask key f epoch prio d =
     emptyTask\<lparr>tKey := key, tFile := f, tEpoch := epoch, tPriority := prio, tDone := True,
       tData := d, tFinished := True\<rparr>"

definition taskLength :: "Config \<Rightarrow> File \<Rightarrow> int \<Rightarrow> int" where
  "taskLength cfg f index =
     (let offset = i64 (index * ChunkSize cfg)
      in if 0 < flSize f \<and> flSize f < i64 (offset + ChunkSize cfg)
         then i64 (flSize f - offset) else ChunkSize cfg)"

definition newTask :: "Config \<Rightarrow> chunkKey \<Rightarrow> File \<Rightarrow> int \<Rightarrow> int \<Rightarrow> priority \<Rightarrow> int \<Rightarrow> task" where
  "newTask cfg key f index epoch prio seq =
     emptyTask\<lparr>tKey := key, tFile := f, tOffset := i64 (index * ChunkSize cfg),
       tLength := taskLength cfg f index, tPriority := prio, tEpoch := epoch, tSeq := seq,
       tHasCtx := True\<rparr>"

text \<open>\<open>heap.Fix(&m.queue, i)\<close>. At \<open>-1\<close> both loops of \<open>heap.Fix\<close> stop at once; outside of the slice
  the comparison in \<open>up\<close> is out of range.\<close>

definition fixQueue :: "int \<Rightarrow> mgr \<Rightarrow> mgr" where
  "fixQueue i m =
     (if i = - 1 then m
      else if i < 0 \<or> len (hItems (mQueue m)) \<le> i then m\<lparr>mPanic := True\<rparr>
      else m\<lparr>mQueue := heapFix (rankOf m) (nat i) (mQueue m)\<rparr>)"

definition pushQueue :: "nat \<Rightarrow> mgr \<Rightarrow> mgr" where
  "pushQueue t m = m\<lparr>mQueue := heapPush (rankOf m) t (mQueue m)\<rparr>"

definition liveTask :: "mgr \<Rightarrow> chunkKey \<Rightarrow> nat option" where
  "liveTask m key =
     (case map_of (mTasks m) key of
        Some t \<Rightarrow> if \<not> tFinished (mObjs m t) \<and> ctxErr m t = None then Some t else None
      | None \<Rightarrow> None)"

text \<open>The critical section of \<open>ensureTask\<close>.\<close>

definition ensureTaskLocked :: "File \<Rightarrow> int \<Rightarrow> int \<Rightarrow> priority \<Rightarrow> mgr \<Rightarrow> nat option \<times> mgr" where
  "ensureTaskLocked f index epoch prio m =
     (if mClosed m then (None, m)
      else let key = keyOf m f index in
        case liveTask m key of
          Some t \<Rightarrow>
            (Some t,
             if prio < tPriority (mObjs m t) \<and> \<not> tStarted (mObjs m t)
             then fixQueue (hIndex (mQueue m) t) (updTask t (\<lambda>k. k\<lparr>tPriority := prio\<rparr>) m)
             else m)
        | None \<Rightarrow>
            if taskLength (mCfg m) f index \<le> 0 then
              let (t, m1) = allocTask 0 (finishedTask key f epoch prio []) m in (Some t, m1)
            else
              let seq = mSequence m + 1;
                  (t, m1) = allocTask (- 1) (newTask (mCfg m) key f index epoch prio seq)
                              (m\<lparr>mSequence := seq\<rparr>)
              in (Some t, pushQueue t (m1\<lparr>mTasks := AList.update key t (mTasks m1)\<rparr>)))"

definition ensureTask ::
  "os_env \<Rightarrow> File \<Rightarrow> int \<Rightarrow> int \<Rightarrow> priority \<Rightarrow> mgr \<Rightarrow> nat option \<times> mgr" where
  "ensureTask os f index epoch prio m =
     (let key = keyOf m f index; (r, st) = store_get os key (mStore m); m1 = m\<lparr>mStore := st\<rparr>
      in case r of
           Some d \<Rightarrow> let (t, m2) = allocTask 0 (finishedTask key f epoch prio d) m1 in (Some t, m2)
         | None \<Rightarrow> ensureTaskLocked f index epoch prio m1)"

definition ensureBackgroundTask ::
  "os_env \<Rightarrow> File \<Rightarrow> int \<Rightarrow> int \<Rightarrow> priority \<Rightarrow> mgr \<Rightarrow> mgr" where
  "ensureBackgroundTask os f index epoch prio m =
     (let (r, st) = store_length (keyOf m f index) (mStore m); m1 = m\<lparr>mStore := st\<rparr>
      in if r \<noteq> None then m1 else snd (ensureTask os f index epoch prio m1))"

definition ensureRange ::
  "os_env \<Rightarrow> File \<Rightarrow> int \<Rightarrow> (int \<Rightarrow> priority) \<Rightarrow> int \<Rightarrow> int \<Rightarrow> mgr \<Rightarrow> mgr" where
  "ensureRange os f epoch prio a b m =
     fold (\<lambda>index. ensureBackgroundTask os f index epoch (prio index)) [a..b] m"

definition markForeground :: "nat \<Rightarrow> mgr \<Rightarrow> mgr" where
  "markForeground t m =
     (if tFinished (mObjs m t) then m else updTask t (\<lambda>k. k\<lparr>tForeground := True\<rparr>) m)"

section \<open>Read-ahead\<close>

definition isProbeEdge :: "File \<Rightarrow> int \<Rightarrow> bool" where
  "isProbeEdge f offset \<longleftrightarrow>
     0 < flSize f \<and> 0 \<le> offset \<and> (offset < 8 * MiB \<or> i64 (flSize f - 8 * MiB) \<le> offset)"

definition scheduleProbe :: "os_env \<Rightarrow> File \<Rightarrow> int \<Rightarrow> int \<Rightarrow> mgr \<Rightarrow> mgr" where
  "scheduleProbe os f offset epoch m =
     (if ChunkSize (mCfg m) \<le> 0 \<or> flSize f \<le> 0 \<or> offset < 0 \<or> flSize f \<le> offset then m
      else let e = i64 (offset + 16 * MiB);
               endOffset = (if flSize f < e then flSize f else e)
           in ensureRange os f epoch (\<lambda>_. PriorityNear) (go_div offset (ChunkSize (mCfg m)))
                (go_div (i64 (endOffset - 1)) (ChunkSize (mCfg m))) m)"

text \<open>The chunk numbers that \<open>scheduleBuffer\<close> computes from a cursor: \<open>start\<close>, \<open>nearEnd\<close>, \<open>end\<close>
  and \<open>floor\<close>; \<open>None\<close> for the two early returns.\<close>

record window =
  wStart :: int
  wNear :: int
  wEnd :: int
  wFloor :: int

definition scheduleWindow :: "Config \<Rightarrow> File \<Rightarrow> int \<Rightarrow> window option" where
  "scheduleWindow cfg f cur =
     (if flSize f \<le> cur \<and> 0 < flSize f then None
      else let e = i64 (cur + TargetBuffer cfg);
               endOffset = (if 0 < flSize f \<and> flSize f < e then flSize f else e)
           in if endOffset \<le> cur then None
              else let end = go_div (i64 (endOffset - 1)) (ChunkSize cfg);
                       near = go_div (i64 (cur + 64 * MiB)) (ChunkSize cfg);
                       floorOffset = i64 (cur - BackBuffer cfg)
                   in Some \<lparr>wStart = go_div cur (ChunkSize cfg),
                            wNear = (if end < near then end else near), wEnd = end,
                            wFloor = go_div (if floorOffset < 0 then 0 else floorOffset) (ChunkSize cfg)\<rparr>)"

text \<open>The critical section of \<open>scheduleBuffer\<close>: it returns the session as it was before, and
  whether the window starts afresh.\<close>

definition scheduleLocked :: "File \<Rightarrow> int \<Rightarrow> window \<Rightarrow> mgr \<Rightarrow> (bool \<times> session) option \<times> mgr" where
  "scheduleLocked f epoch w m =
     (case getSession (versionOf m f) m of
        None \<Rightarrow> (None, m)
      | Some s \<Rightarrow>
          if ssEpoch s \<noteq> epoch \<or> activeHandle s = 0 then (None, m)
          else let reset = (\<not> scheduleSet s \<or> scheduleEpoch s \<noteq> epoch);
                   s1 = (if reset
                         then s\<lparr>scheduleSet := True, scheduleEpoch := epoch, scheduledFloor := wFloor w,
                                scheduledNear := wNear w, scheduledEnd := wEnd w\<rparr>
                         else s\<lparr>scheduledFloor := max (scheduledFloor s) (wFloor w),
                                scheduledNear := max (scheduledNear s) (wNear w),
                                scheduledEnd := max (scheduledEnd s) (wEnd w)\<rparr>)
               in (Some (reset, s), setSession (versionOf m f) s1 m))"

text \<open>The loops that follow, in the order of the source.\<close>

definition schedulePrune :: "File \<Rightarrow> window \<Rightarrow> bool \<Rightarrow> session \<Rightarrow> mgr \<Rightarrow> mgr" where
  "schedulePrune f w reset old m =
     (if reset then m\<lparr>mStore := pruneMemoryWindow (versionOf m f) (wFloor w) (wEnd w) (mStore m)\<rparr>
      else if scheduledFloor old < wFloor w
      then m\<lparr>mStore := removeMemoryRange (versionOf m f) (scheduledFloor old) (wFloor w) (mStore m)\<rparr>
      else m)"

definition scheduleAhead ::
  "os_env \<Rightarrow> File \<Rightarrow> int \<Rightarrow> window \<Rightarrow> bool \<Rightarrow> session \<Rightarrow> mgr \<Rightarrow> mgr" where
  "scheduleAhead os f epoch w reset old m =
     (if reset then
        ensureRange os f epoch (\<lambda>_. PriorityAhead) (wNear w + 1) (wEnd w)
          (ensureRange os f epoch (\<lambda>_. PriorityNear) (wStart w) (wNear w) m)
      else
        ensureRange os f epoch (\<lambda>i. if i \<le> wNear w then PriorityNear else PriorityAhead)
          (scheduledEnd old + 1) (wEnd w)
          (ensureRange os f epoch (\<lambda>_. PriorityNear) (max (scheduledNear old + 1) (wStart w))
            (min (wNear w) (scheduledEnd old)) m))"

definition scheduleBuffer :: "os_env \<Rightarrow> File \<Rightarrow> int \<Rightarrow> int \<Rightarrow> mgr \<Rightarrow> mgr" where
  "scheduleBuffer os f cur epoch m =
     (case scheduleWindow (mCfg m) f cur of None \<Rightarrow> m | Some w \<Rightarrow>
      case scheduleLocked f epoch w m of
        (None, m1) \<Rightarrow> m1
      | (Some (reset, old), m1) \<Rightarrow>
          let m2 = scheduleAhead os f epoch w reset old (schedulePrune f w reset old m1)
          in if \<not> reset \<or> BackBuffer (mCfg m) \<le> 0 \<or> cur \<le> 0 then m2
             else ensureRange os f epoch (\<lambda>_. PriorityBack) (wFloor w)
                    (go_div (i64 (cur - 1)) (ChunkSize (mCfg m))) m2)"

section \<open>Hedged requests\<close>

definition hedgeDelay :: "mgr \<Rightarrow> int" where
  "hedgeDelay m =
     (if mLatencies m = [] then HedgeMinDelay (mCfg m)
      else let samples = sort (mLatencies m);
               p95 = samples ! ((length samples * 95 - 1) div 100);
               delay = i64 (p95 + go_div p95 2)
           in if delay < HedgeMinDelay (mCfg m) then HedgeMinDelay (mCfg m)
              else if HedgeMaxDelay (mCfg m) < delay then HedgeMaxDelay (mCfg m)
              else delay)"

text \<open>The critical section of \<open>startHedge\<close>. The result is \<open>None\<close> when no hedge starts; otherwise it
  says whether the download link is invalidated. The goroutine it starts is \<open>publishHedge\<close> after a
  full read.\<close>

definition startHedge :: "nat \<Rightarrow> mgr \<Rightarrow> bool option \<times> mgr" where
  "startHedge t m =
     (let k = mObjs m t in
      if mClosed m \<or> tFinished k \<or> tHedged k \<or> ctxErr m t \<noteq> None then (None, m)
      else let m1 = (updTask t (\<lambda>k. k\<lparr>tHedged := True, tHedgeCancel := True\<rparr>) m)
                      \<lparr>mHedges := mHedges m + 1\<rparr>
           in case getSession (ckVersion (tKey k)) m1 of
                None \<Rightarrow> (Some False, m1)
              | Some s \<Rightarrow>
                  let inv = (3 \<le> slowStreak s + 1);
                      s1 = s\<lparr>ssHedges := ssHedges s + 1,
                             slowStreak := (if inv then 0 else slowStreak s + 1),
                             dlinkRefreshes := (if inv then dlinkRefreshes s + 1 else dlinkRefreshes s)\<rparr>
                  in (Some inv, setSession (ckVersion (tKey k)) s1 m1))"

text \<open>\<open>queueDiskWrite\<close>: a send that is dropped when the channel, of capacity \<open>Workers * 8\<close>, is full.\<close>

definition queueDiskWrite :: "chunkKey \<Rightarrow> bytes \<Rightarrow> mgr \<Rightarrow> mgr" where
  "queueDiskWrite key d m =
     (if diskOff (mStore m) \<or> d = [] then m
      else if len (mDiskWrites m) < Workers (mCfg m) * 8
      then m\<lparr>mDiskWrites := mDiskWrites m @ [(key, d)]\<rparr> else m)"

definition putMemoryOf :: "nat \<Rightarrow> bytes \<Rightarrow> mgr \<Rightarrow> mgr" where
  "putMemoryOf t d m = m\<lparr>mStore := putMemory (tKey (mObjs m t)) d (mStore m)\<rparr>"

text \<open>The critical section of \<open>publishHedge\<close>, with its result.\<close>

definition publishLocked :: "nat \<Rightarrow> bytes \<Rightarrow> mgr \<Rightarrow> bool \<times> mgr" where
  "publishLocked t d m =
     (if tFinished (mObjs m t) then (False, m)
      else (True, closeDone t (unregister t
             (updTask t (\<lambda>k. k\<lparr>tFinished := True, tData := d, tHedgeCancel := False,
                               tCanceled := (tCanceled k \<or> tHasCtx k)\<rparr>) m))))"

definition publishHedge :: "nat \<Rightarrow> bytes \<Rightarrow> mgr \<Rightarrow> bool \<times> mgr" where
  "publishHedge t d m =
     (case publishLocked t d (putMemoryOf t d m) of
        (False, m1) \<Rightarrow> (False, m1)
      | (True, m1) \<Rightarrow>
          (True, queueDiskWrite (tKey (mObjs m t)) d (m1\<lparr>mDownloaded := mDownloaded m1 + len d\<rparr>)))"

section \<open>Workers\<close>

definition sessionWorkerLimitLocked :: "mgr \<Rightarrow> int" where
  "sessionWorkerLimitLocked m =
     (if 1 < length (filter (\<lambda>(v, s). 0 < refs s \<and> activeHandle s \<noteq> 0) (mSessions m))
      then SessionWorkers (mCfg m) else Workers (mCfg m))"

definition discardCanceledTaskLocked :: "nat \<Rightarrow> mgr \<Rightarrow> mgr" where
  "discardCanceledTaskLocked t m =
     (if tFinished (mObjs m t) then m
      else cleanupSessionLocked (ckVersion (tKey (mObjs m t)))
             (closeDone t (unregister t
               (updTask t (\<lambda>k. k\<lparr>tFinished := True, tErr := ctxErr m t\<rparr>) m))))"

datatype nextOutcome = NextClosed | NextWait | NextTask nat

definition popQueue :: "mgr \<Rightarrow> nat \<times> mgr" where
  "popQueue m = (let (t, q) = heapPop (rankOf m) (mQueue m) in (t, m\<lparr>mQueue := q\<rparr>))"

definition pushAll :: "nat list \<Rightarrow> mgr \<Rightarrow> mgr" where
  "pushAll ts m = fold pushQueue ts m"

text \<open>A task may not start yet when its session has used up its workers.\<close>

definition overLimit :: "mgr \<Rightarrow> nat \<Rightarrow> bool" where
  "overLimit m t \<longleftrightarrow>
     (case getSession (ckVersion (tKey (mObjs m t))) m of
        None \<Rightarrow> False
      | Some s \<Rightarrow> tPriority (mObjs m t) \<noteq> PriorityForeground \<and> sessionWorkerLimitLocked m \<le> inflight s)"

definition startTask :: "int \<Rightarrow> nat \<Rightarrow> mgr \<Rightarrow> mgr" where
  "startTask now t m =
     onSession (ckVersion (tKey (mObjs m t))) (\<lambda>s. s\<lparr>inflight := inflight s + 1\<rparr>)
       (updTask t (\<lambda>k. k\<lparr>tStarted := True, tStartedAt := Some now\<rparr>) m)"

lemma queue_frame:
  "mQueue (cleanupSessionLocked v m) = mQueue m" "mQueue (closeDone t m) = mQueue m" "mQueue (unregister t m) = mQueue m"
  "mQueue (updTask t f m) = mQueue m"
  by (simp_all add: cleanupSessionLocked_def closeDone_def unregister_def updTask_def Let_def split: option.split)

lemma discard_queue [simp]: "mQueue (discardCanceledTaskLocked t m) = mQueue m"
  by (simp add: discardCanceledTaskLocked_def queue_frame)

lemma popQueue_length:
  "hItems (mQueue m) \<noteq> [] \<Longrightarrow> length (hItems (mQueue (snd (popQueue m)))) < length (hItems (mQueue m))"
  by (simp add: popQueue_def heapPop_def heapDropLast_def Let_def heapDown_length split: prod.split)

function nextScan :: "int \<Rightarrow> nat list \<Rightarrow> mgr \<Rightarrow> nextOutcome \<times> mgr" where
  "nextScan now skipped m =
     (if hItems (mQueue m) = [] then (NextWait, pushAll skipped m)
      else let t = fst (popQueue m); m1 = snd (popQueue m) in
        if tFinished (mObjs m1 t) then nextScan now skipped m1
        else if ctxErr m1 t \<noteq> None then nextScan now skipped (discardCanceledTaskLocked t m1)
        else if overLimit m1 t then nextScan now (skipped @ [t]) m1
        else (NextTask t, pushAll skipped (startTask now t m1)))"
  by pat_completeness auto
termination
  by (relation "measure (\<lambda>(now, sk, m). length (hItems (mQueue m)))") (auto simp: popQueue_length)

declare nextScan.simps [simp del]

text \<open>One round of the outer loop of \<open>nextTask\<close>: \<open>NextWait\<close> is the wait on the condition variable,
  after which the worker runs another round.\<close>

definition nextTask :: "int \<Rightarrow> mgr \<Rightarrow> nextOutcome \<times> mgr" where
  "nextTask now m =
     (if mClosed m then (NextClosed, m)
      else if hItems (mQueue m) = [] then (NextWait, m)
      else nextScan now [] m)"

text \<open>\<open>download\<close>: up to two attempts. \<open>reads i\<close> is what the reader returns on attempt \<open>i\<close>, and
  \<open>ctxAt i\<close> is \<open>task.ctx.Err()\<close> after it.\<close>

fun downloadLoop ::
  "(nat \<Rightarrow> bytes \<times> goerr option) \<Rightarrow> (nat \<Rightarrow> goerr option) \<Rightarrow> task \<Rightarrow> nat \<Rightarrow> nat \<Rightarrow> goerr option \<Rightarrow> mgr \<Rightarrow>
   (bytes \<times> goerr option) \<times> mgr" where
  "downloadLoop reads ctxAt k attempt 0 lastErr m =
     (([], Some (case lastErr of
        Some e \<Rightarrow> ErrWrap (''stream chunk offset='' @ FormatInt (tOffset k) @ '' length='' @
                          FormatInt (tLength k) @ '': '') e
      | None \<Rightarrow> ErrText [])), m)"
| "downloadLoop reads ctxAt k attempt (Suc left) lastErr m =
     (let (d, err) = reads attempt in
      if err = None \<and> len d = tLength k then ((d, None), m\<lparr>mDownloaded := mDownloaded m + len d\<rparr>)
      else let e = (case err of None \<Rightarrow> ErrUnexpectedEOF | Some e \<Rightarrow> e) in
        if ctxAt attempt \<noteq> None then (([], ctxAt attempt), m)
        else downloadLoop reads ctxAt k (attempt + 1) left (Some e) (m\<lparr>mRetries := mRetries m + 1\<rparr>))"

definition download ::
  "(nat \<Rightarrow> bytes \<times> goerr option) \<Rightarrow> (nat \<Rightarrow> goerr option) \<Rightarrow> nat \<Rightarrow> mgr \<Rightarrow> (bytes \<times> goerr option) \<times> mgr" where
  "download reads ctxAt t m = downloadLoop reads ctxAt (mObjs m t) 0 2 None m"

definition recordLatencyLocked :: "int \<Rightarrow> mgr \<Rightarrow> mgr" where
  "recordLatencyLocked latency m =
     (if latency \<le> 0 then m
      else if length (mLatencies m) < 32 then m\<lparr>mLatencies := mLatencies m @ [latency]\<rparr>
      else m\<lparr>mLatencies := (mLatencies m)[mLatencyNext m mod 32 := latency],
             mLatencyNext := mLatencyNext m + 1\<rparr>)"

definition releaseWorker :: "nat \<Rightarrow> mgr \<Rightarrow> mgr" where
  "releaseWorker t m =
     onSession (ckVersion (tKey (mObjs m t)))
       (\<lambda>s. if tStarted (mObjs m t) \<and> 0 < inflight s then s\<lparr>inflight := inflight s - 1\<rparr> else s) m"

definition noteLatency :: "int \<Rightarrow> nat \<Rightarrow> goerr option \<Rightarrow> mgr \<Rightarrow> mgr" where
  "noteLatency now t err m =
     (case tStartedAt (mObjs m t) of
        Some t0 \<Rightarrow> if err = None then recordLatencyLocked (now - t0) m else m
      | None \<Rightarrow> m)"

definition resetStreak :: "nat \<Rightarrow> mgr \<Rightarrow> mgr" where
  "resetStreak t m =
     (if tForeground (mObjs m t) \<and> \<not> tHedged (mObjs m t)
      then onSession (ckVersion (tKey (mObjs m t))) (\<lambda>s. s\<lparr>slowStreak := 0\<rparr>) m else m)"

text \<open>The critical section of \<open>finishTask\<close>; the result says whether the chunk goes to the disk
  queue.\<close>

definition finishLocked :: "int \<Rightarrow> nat \<Rightarrow> bytes \<Rightarrow> goerr option \<Rightarrow> mgr \<Rightarrow> bool \<times> mgr" where
  "finishLocked now t d err m =
     (let v = ckVersion (tKey (mObjs m t)); m1 = releaseWorker t m in
      if tFinished (mObjs m t) then (False, cleanupSessionLocked v m1)
      else let m2 = unregister t (updTask t (\<lambda>k. k\<lparr>tHedgeCancel := False, tFinished := True,
                                                  tData := d, tErr := err\<rparr>) m1)
           in (err = None,
               cleanupSessionLocked v (closeDone t (resetStreak t (noteLatency now t err m2)))))"

definition finishTask :: "int \<Rightarrow> nat \<Rightarrow> bytes \<Rightarrow> goerr option \<Rightarrow> mgr \<Rightarrow> mgr" where
  "finishTask now t d err m =
     (case finishLocked now t d err (if err = None then putMemoryOf t d m else m) of
        (True, m1) \<Rightarrow> queueDiskWrite (tKey (mObjs m t)) d m1
      | (False, m1) \<Rightarrow> m1)"

text \<open>One iteration of \<open>diskWriter\<close>.\<close>

definition diskWriterStep :: "os_env \<Rightarrow> mgr \<Rightarrow> mgr" where
  "diskWriterStep os m =
     (case mDiskWrites m of
        [] \<Rightarrow> m
      | (key, d) # rest \<Rightarrow> m\<lparr>mStore := snd (putDisk os key d (mStore m)), mDiskWrites := rest\<rparr>)"

section \<open>Waiting for a chunk\<close>

definition cacheLookup :: "os_env \<Rightarrow> bool \<Rightarrow> chunkKey \<Rightarrow> mgr \<Rightarrow> bytes option \<times> mgr" where
  "cacheLookup os touch key m =
     (let (r, st) = (if touch then store_get os key (mStore m) else getWithoutTouch os key (mStore m))
      in (r, m\<lparr>mStore := st\<rparr>))"

text \<open>\<open>waitChunk\<close> up to the point where it blocks: the cached bytes, an error, or the task whose
  \<open>done\<close> channel it waits for.\<close>

datatype waitStart = WaitData bytes | WaitErr goerr | WaitTask nat

definition waitChunk ::
  "os_env \<Rightarrow> File \<Rightarrow> int \<Rightarrow> int \<Rightarrow> priority \<Rightarrow> bool \<Rightarrow> mgr \<Rightarrow> waitStart \<times> mgr" where
  "waitChunk os f index epoch prio touch m =
     (case cacheLookup os touch (keyOf m f index) m of
        (Some d, m1) \<Rightarrow> (WaitData d, m1)
      | (None, m1) \<Rightarrow>
          (case ensureTask os f index epoch prio m1 of
             (None, m2) \<Rightarrow> (WaitErr (ErrText ''stream manager is closed''), m2)
           | (Some t, m2) \<Rightarrow>
               (WaitTask t, if prio = PriorityForeground then markForeground t m2 else m2)))"

text \<open>The value of a finished wait.\<close>

definition taskResult :: "mgr \<Rightarrow> nat \<Rightarrow> goerr + bytes" where
  "taskResult m t = (case tErr (mObjs m t) of Some e \<Rightarrow> Inl e | None \<Rightarrow> Inr (tData (mObjs m t)))"

section \<open>Shutdown, statistics, summaries\<close>

text \<open>\<open>Close\<close> up to the wait for the goroutines; the hedge contexts are children of \<open>m.ctx\<close>.\<close>

definition CloseManager :: "mgr \<Rightarrow> mgr" where
  "CloseManager m =
     (if mClosed m then m
      else cancelTasks (\<lambda>_. True) ((cancelIdleReclaimLocked m)\<lparr>mClosed := True\<rparr>))"

record StatsResult =
  stDownloaded :: int
  stRetries :: int
  stHedges :: int

definition Stats :: "mgr \<Rightarrow> StatsResult" where
  "Stats m = \<lparr>stDownloaded = mDownloaded m, stRetries = mRetries m, stHedges = mHedges m\<rparr>"

definition LowWatermarkOf :: "mgr \<Rightarrow> int" where
  "LowWatermarkOf m = LowWatermark (mCfg m)"

definition queueSummary :: "File \<Rightarrow> int \<Rightarrow> int \<Rightarrow> mgr \<Rightarrow> mgr" where
  "queueSummary f cur epoch m =
     (if \<not> Diagnostics (mCfg m) \<or> 1 \<le> length (mSummaries m) then m
      else m\<lparr>mSummaries := mSummaries m @ [(f, cur, epoch)]\<rparr>)"

text \<open>The critical section of \<open>maybeLogSummary\<close>; \<open>now.Sub\<close> of the zero time is larger than any
  interval.\<close>

definition summaryDue :: "int \<Rightarrow> File \<Rightarrow> mgr \<Rightarrow> bool \<times> mgr" where
  "summaryDue now f m =
     (case getSession (versionOf m f) m of
        None \<Rightarrow> (False, m)
      | Some s \<Rightarrow>
          if (case lastSummary s of None \<Rightarrow> False | Some t0 \<Rightarrow> now - t0 < 5 * seconds) then (False, m)
          else (True, setSession (versionOf m f) (s\<lparr>lastSummary := Some now\<rparr>) m))"

text \<open>The loop of \<open>BufferAhead\<close> has no bound of its own: \<open>None\<close> would be a loop that never ends.\<close>

partial_function (option) bufferLoop ::
  "int \<Rightarrow> string \<Rightarrow> int \<Rightarrow> int \<Rightarrow> int \<Rightarrow> int \<Rightarrow> chunkStore \<Rightarrow> (int \<times> chunkStore) option" where
  "bufferLoop cs v first within index ready st =
     (let (r, st1) = store_length (ChunkKey v index) st in
      case r of
        None \<Rightarrow> Some (ready, st1)
      | Some n \<Rightarrow>
          if index = first \<and> n \<le> within then Some (ready, st1)
          else let ready1 = i64 (ready + (if index = first then n - within else n)) in
            if n < cs then Some (ready1, st1)
            else bufferLoop cs v first within (i64 (index + 1)) ready1 st1)"

definition BufferAhead :: "File \<Rightarrow> int \<Rightarrow> mgr \<Rightarrow> (int \<times> mgr) option" where
  "BufferAhead f cur m =
     (if cur < 0 then Some (0, m)
      else let cs = ChunkSize (mCfg m); first = go_div cur cs in
        map_option (\<lambda>(r, st). (r, m\<lparr>mStore := st\<rparr>))
          (bufferLoop cs (versionOf m f) first (go_mod cur cs) first 0 (mStore m)))"

end
