(* ===== verification/StreamTasks.thy ===== *)
theory StreamTasks
  imports StreamManager
begin

text \<open>
  The invariant of the task objects and the download queue, and that every operation of the
  manager on them keeps it: the queue is a heap with correct index fields, every task that is
  neither started nor finished is in the queue (or set aside by the scan of \<open>nextTask\<close>),
  registered tasks are unfinished and stored under their own key, the \<open>done\<close> channel of a task is
  closed exactly when the task is finished, and nothing has panicked.

  \<open>good\<close> is a further property of single task objects, chosen by the client.
\<close>

section \<open>The invariant\<close>

definition tasks_inv :: "(task \<Rightarrow> bool) \<Rightarrow> nat set \<Rightarrow> mgr \<Rightarrow> bool" where
  "tasks_inv good S m \<longleftrightarrow>
     heap_ok (rankOf m) (mQueue m) \<and> set (hItems (mQueue m)) \<subseteq> {..<mNext m} \<and> alist_ok (mTasks m) \<and>
     (\<forall>k t. map_of (mTasks m) k = Some t \<longrightarrow>
        t < mNext m \<and> tKey (mObjs m t) = k \<and> \<not> tFinished (mObjs m t)) \<and>
     (\<forall>t<mNext m. good (mObjs m t) \<and> tDone (mObjs m t) = tFinished (mObjs m t)) \<and>
     (\<forall>t<mNext m. \<not> tFinished (mObjs m t) \<and> \<not> tStarted (mObjs m t) \<longrightarrow>
        t \<in> set (hItems (mQueue m)) \<union> S) \<and>
     (\<forall>t\<in>set (hItems (mQueue m)) \<union> S. \<not> tStarted (mObjs m t)) \<and>
     S \<subseteq> {..<mNext m} \<and> set (hItems (mQueue m)) \<inter> S = {} \<and> \<not> mPanic m"

text \<open>It speaks of five fields only.\<close>

lemma tasks_inv_cong:
  "mObjs m' = mObjs m \<Longrightarrow> mNext m' = mNext m \<Longrightarrow> mQueue m' = mQueue m \<Longrightarrow> mTasks m' = mTasks m \<Longrightarrow>
   mPanic m' = mPanic m \<Longrightarrow> tasks_inv good S m' = tasks_inv good S m"
  by (simp add: tasks_inv_def rankOf_def [abs_def])

lemma tasks_invD:
  assumes "tasks_inv good S m"
  shows "heap_ok (rankOf m) (mQueue m)" "alist_ok (mTasks m)" "\<not> mPanic m"
    "t \<in> set (hItems (mQueue m)) \<Longrightarrow> t < mNext m" "t \<in> S \<Longrightarrow> t < mNext m"
    "map_of (mTasks m) k = Some t \<Longrightarrow> t < mNext m \<and> tKey (mObjs m t) = k \<and> \<not> tFinished (mObjs m t)"
    "t < mNext m \<Longrightarrow> good (mObjs m t)" "t < mNext m \<Longrightarrow> tDone (mObjs m t) = tFinished (mObjs m t)"
    "t < mNext m \<Longrightarrow> \<not> tFinished (mObjs m t) \<Longrightarrow> \<not> tStarted (mObjs m t) \<Longrightarrow>
       t \<in> set (hItems (mQueue m)) \<or> t \<in> S"
    "t \<in> set (hItems (mQueue m)) \<Longrightarrow> \<not> tStarted (mObjs m t)" "t \<in> S \<Longrightarrow> \<not> tStarted (mObjs m t)"
    "t \<in> set (hItems (mQueue m)) \<Longrightarrow> t \<notin> S"
  using assms unfolding tasks_inv_def by (blast+)

lemma tasks_invI:
  assumes "heap_ok (rankOf m) (mQueue m)" "alist_ok (mTasks m)" "\<not> mPanic m"
    and "\<And>t. t \<in> set (hItems (mQueue m)) \<Longrightarrow> t < mNext m \<and> \<not> tStarted (mObjs m t) \<and> t \<notin> S"
    and "\<And>t. t \<in> S \<Longrightarrow> t < mNext m \<and> \<not> tStarted (mObjs m t)"
    and "\<And>k t. map_of (mTasks m) k = Some t \<Longrightarrow>
           t < mNext m \<and> tKey (mObjs m t) = k \<and> \<not> tFinished (mObjs m t)"
    and "\<And>t. t < mNext m \<Longrightarrow> good (mObjs m t) \<and> tDone (mObjs m t) = tFinished (mObjs m t)"
    and "\<And>t. t < mNext m \<Longrightarrow> \<not> tFinished (mObjs m t) \<Longrightarrow> \<not> tStarted (mObjs m t) \<Longrightarrow>
           t \<in> set (hItems (mQueue m)) \<or> t \<in> S"
  shows "tasks_inv good S m"
  using assms unfolding tasks_inv_def by blast

lemma tasks_inv_frame [simp]:
  "tasks_inv good S (m\<lparr>mStore := a\<rparr>) = tasks_inv good S m"
  "tasks_inv good S (m\<lparr>mSessions := b\<rparr>) = tasks_inv good S m"
  "tasks_inv good S (m\<lparr>mClosed := c\<rparr>) = tasks_inv good S m"
  "tasks_inv good S (m\<lparr>mSequence := d\<rparr>) = tasks_inv good S m"
  "tasks_inv good S (m\<lparr>mNextHandle := e\<rparr>) = tasks_inv good S m"
  "tasks_inv good S (m\<lparr>mDiskWrites := f\<rparr>) = tasks_inv good S m"
  "tasks_inv good S (m\<lparr>mSummaries := g\<rparr>) = tasks_inv good S m"
  "tasks_inv good S (m\<lparr>mFreeOS := h\<rparr>) = tasks_inv good S m"
  "tasks_inv good S (m\<lparr>mLatencies := i\<rparr>) = tasks_inv good S m"
  "tasks_inv good S (m\<lparr>mLatencyNext := j\<rparr>) = tasks_inv good S m"
  "tasks_inv good S (m\<lparr>mIdleTimer := k\<rparr>) = tasks_inv good S m"
  "tasks_inv good S (m\<lparr>mIdleEpoch := n\<rparr>) = tasks_inv good S m"
  "tasks_inv good S (m\<lparr>mLastActivity := n\<rparr>) = tasks_inv good S m"
  "tasks_inv good S (m\<lparr>mDownloaded := n\<rparr>) = tasks_inv good S m"
  "tasks_inv good S (m\<lparr>mRetries := n\<rparr>) = tasks_inv good S m"
  "tasks_inv good S (m\<lparr>mHedges := n\<rparr>) = tasks_inv good S m"
  by (rule tasks_inv_cong; simp)+

lemma heap_ok_rank:
  assumes "\<forall>t\<in>set (hItems h). r t = r' t"
  shows "heap_ok r h = heap_ok r' h"
proof -
  have "r (hItems h ! i) = r' (hItems h ! i)" if "i < length (hItems h)" for i
    using assms that by simp
  moreover have "parent i < length (hItems h)" if "0 < i" "i < length (hItems h)" for i
    using parent_less [OF that(1)] that by simp
  ultimately show ?thesis by (auto simp: heap_ok_def heap_upto_def)
qed

text \<open>The fields of a task that the invariant reads.\<close>

definition same_core :: "task \<Rightarrow> task \<Rightarrow> bool" where
  "same_core a b \<longleftrightarrow> tKey a = tKey b \<and> tPriority a = tPriority b \<and> tSeq a = tSeq b \<and>
     tDone a = tDone b \<and> tStarted a = tStarted b \<and> tFinished a = tFinished b"

lemma tasks_inv_objs:
  assumes "tasks_inv good S m" "\<forall>t<mNext m. same_core (g t) (mObjs m t) \<and> good (g t)"
  shows "tasks_inv good S (m\<lparr>mObjs := g\<rparr>)"
proof -
  have "heap_ok (rankOf (m\<lparr>mObjs := g\<rparr>)) (mQueue m) = heap_ok (rankOf m) (mQueue m)"
    using assms by (intro heap_ok_rank) (auto simp: rankOf_def same_core_def tasks_inv_def)
  with assms show ?thesis
    by (intro tasks_invI) (auto dest: tasks_invD simp: same_core_def)
qed

lemma tasks_inv_updTask:
  assumes "tasks_inv good S m" "same_core (f (mObjs m t)) (mObjs m t)" "t < mNext m \<longrightarrow> good (f (mObjs m t))"
  shows "tasks_inv good S (updTask t f m)"
  unfolding updTask_def
  by (rule tasks_inv_objs [OF assms(1)]) (use assms in \<open>auto simp: tasks_inv_def same_core_def\<close>)

section \<open>Session operations do not touch tasks, except to cancel them\<close>

lemma tasks_inv_setSession [simp]: "tasks_inv good S (setSession v s m) = tasks_inv good S m"
  by (simp add: setSession_def)

lemma tasks_inv_onSession [simp]: "tasks_inv good S (onSession v f m) = tasks_inv good S m"
  by (simp add: onSession_def split: option.split)

lemma tasks_inv_cleanup [simp]: "tasks_inv good S (cleanupSessionLocked v m) = tasks_inv good S m"
  by (simp add: cleanupSessionLocked_def split: option.split)

lemma tasks_inv_idle [simp]:
  "tasks_inv good S (scheduleIdleReclaimAfterLocked d m) = tasks_inv good S m"
  "tasks_inv good S (markActivityLocked now m) = tasks_inv good S m"
  "tasks_inv good S (cancelIdleReclaimLocked m) = tasks_inv good S m"
  by (auto simp: scheduleIdleReclaimAfterLocked_def markActivityLocked_def cancelIdleReclaimLocked_def Let_def
      intro: tasks_inv_cong)

lemma tasks_inv_sessionLocked [simp]:
  "tasks_inv good S (snd (sessionLocked now f m)) = tasks_inv good S m"
  by (simp add: sessionLocked_def split: option.split)

lemma tasks_inv_cancel:
  assumes "tasks_inv good S m" "\<forall>k. good k \<longrightarrow> good (k\<lparr>tCanceled := True\<rparr>)"
  shows "tasks_inv good S (cancelTasks P m)"
  unfolding cancelTasks_def
  by (rule tasks_inv_objs [OF assms(1)]) (use assms in \<open>auto simp: tasks_inv_def same_core_def\<close>)

section \<open>Finishing a task\<close>

text \<open>What \<open>publishHedge\<close>, \<open>finishTask\<close> and \<open>discardCanceledTaskLocked\<close> have in common: set the
  result, take the task out of the map, close its channel.\<close>

abbreviation settle :: "nat \<Rightarrow> (task \<Rightarrow> task) \<Rightarrow> mgr \<Rightarrow> mgr" where
  "settle t f m \<equiv> closeDone t (unregister t (updTask t f m))"

lemma settle_objs:
  "\<not> tDone (f (mObjs m t)) \<Longrightarrow> mObjs (settle t f m) = (mObjs m)(t := (f (mObjs m t))\<lparr>tDone := True\<rparr>)"
  by (auto simp: closeDone_def unregister_def updTask_def Let_def)

lemma settle_frame [simp]:
  "mCfg (settle t f m) = mCfg m" "mStore (settle t f m) = mStore m" "mNext (settle t f m) = mNext m"
  "mQueue (settle t f m) = mQueue m" "mSessions (settle t f m) = mSessions m"
  "mClosed (settle t f m) = mClosed m" "mDiskWrites (settle t f m) = mDiskWrites m"
  "mLatencies (settle t f m) = mLatencies m" "mDownloaded (settle t f m) = mDownloaded m"
  by (simp_all add: closeDone_def unregister_def updTask_def Let_def)

lemma settle_panic: "\<not> tDone (f (mObjs m t)) \<Longrightarrow> mPanic (settle t f m) = mPanic m"
  by (auto simp: closeDone_def unregister_def updTask_def Let_def)

lemma settle_tasks:
  "tKey (f (mObjs m t)) = tKey (mObjs m t) \<Longrightarrow>
   map_of (mTasks (settle t f m)) k =
     (if k = tKey (mObjs m t) \<and> map_of (mTasks m) k = Some t then None else map_of (mTasks m) k)"
  "alist_ok (mTasks m) \<Longrightarrow> alist_ok (mTasks (settle t f m))"
  by (auto simp: closeDone_def unregister_def updTask_def Let_def)

definition settles :: "(task \<Rightarrow> task) \<Rightarrow> task \<Rightarrow> bool" where
  "settles f k \<longleftrightarrow> tFinished (f k) \<and> tKey (f k) = tKey k \<and> tPriority (f k) = tPriority k \<and>
     tSeq (f k) = tSeq k \<and> tDone (f k) = tDone k \<and> tStarted (f k) = tStarted k"

lemma tasks_inv_settle:
  assumes inv: "tasks_inv good S m" and "t < mNext m" "\<not> tFinished (mObjs m t)"
    and f: "settles f (mObjs m t)" and good: "good ((f (mObjs m t))\<lparr>tDone := True\<rparr>)"
  shows "tasks_inv good S (settle t f m)"
proof -
  have nd: "\<not> tDone (f (mObjs m t))" using assms tasks_invD(8) [OF inv] by (simp add: settles_def)
  note objs = settle_objs [of f m t, OF nd] and pan = settle_panic [of f m t, OF nd]
  have key: "tKey (f (mObjs m t)) = tKey (mObjs m t)" using f by (simp add: settles_def)
  note tsk = settle_tasks(1) [of f m t, OF key]
  have "heap_ok (rankOf (settle t f m)) (mQueue m) = heap_ok (rankOf m) (mQueue m)"
    using f by (intro heap_ok_rank) (simp add: rankOf_def objs settles_def)
  then have "heap_ok (rankOf (settle t f m)) (mQueue m)" using tasks_invD(1) [OF inv] by simp
  moreover have "u < mNext m \<and> tKey (mObjs (settle t f m) u) = k \<and> \<not> tFinished (mObjs (settle t f m) u)"
    if "map_of (mTasks (settle t f m)) k = Some u" for k u
    using that tasks_invD(6) [OF inv, of k u] by (auto simp: tsk objs split: if_splits)
  ultimately show ?thesis
    using f good inv
    by (intro tasks_invI) (auto simp: objs pan settle_tasks(2) settles_def dest: tasks_invD split: if_splits)
qed

section \<open>The queue\<close>

lemma heap_ok_index:
  assumes "x \<notin> set (hItems h)"
  shows "heap_ok r (h\<lparr>hIndex := (hIndex h)(x := i)\<rparr>) = heap_ok r h"
proof -
  have "hItems h ! j \<noteq> x" if "j < length (hItems h)" for j using assms that by auto
  then show ?thesis by (auto simp: heap_ok_def indexed_def)
qed

lemma tasks_inv_alloc:
  assumes inv: "tasks_inv good S m" and "good k" "tDone k" "tFinished k"
  shows "tasks_inv good S (snd (allocTask i k m))"
proof -
  let ?m = "snd (allocTask i k m)"
  have fresh: "mNext m \<notin> set (hItems (mQueue m))" "mNext m \<notin> S"
    using tasks_invD(4,5) [OF inv] by auto
  have "heap_ok (rankOf ?m) (mQueue ?m)"
  proof -
    have "heap_ok (rankOf ?m) (mQueue m) = heap_ok (rankOf m) (mQueue m)"
      using fresh by (intro heap_ok_rank) (auto simp: rankOf_def allocTask_def)
    moreover have "heap_ok r (mQueue ?m) = heap_ok r (mQueue m)" for r
      using heap_ok_index [OF fresh(1)] by (simp add: allocTask_def)
    ultimately show ?thesis using tasks_invD(1) [OF inv] by simp
  qed
  then show ?thesis
  proof (rule tasks_invI, goal_cases)
    case (5 key t)
    then show ?case using tasks_invD(6) [OF inv, of key t] by (auto simp: allocTask_def)
  qed (use assms fresh in \<open>auto simp: allocTask_def less_Suc_eq dest: tasks_invD\<close>)
qed

lemma pushQueue_simps [simp]:
  "mObjs (pushQueue t m) = mObjs m" "mNext (pushQueue t m) = mNext m" "mTasks (pushQueue t m) = mTasks m"
  "mPanic (pushQueue t m) = mPanic m" "rankOf (pushQueue t m) = rankOf m"
  "mStore (pushQueue t m) = mStore m" "mSessions (pushQueue t m) = mSessions m"
  "mCfg (pushQueue t m) = mCfg m" "mClosed (pushQueue t m) = mClosed m"
  "mDiskWrites (pushQueue t m) = mDiskWrites m" "mLatencies (pushQueue t m) = mLatencies m"
  by (simp_all add: pushQueue_def rankOf_def [abs_def])

lemma pushQueue_queue:
  assumes "heap_ok (rankOf m) (mQueue m)" "t \<notin> set (hItems (mQueue m))"
  shows "heap_ok (rankOf m) (mQueue (pushQueue t m))"
    "set (hItems (mQueue (pushQueue t m))) = insert t (set (hItems (mQueue m)))"
  using task_heap.push_ok [OF assms] task_heap.push_set [OF assms] by (simp_all add: pushQueue_def)

text \<open>Putting a set-aside task back.\<close>

lemma tasks_inv_push:
  assumes inv: "tasks_inv good (insert t S) m" and "t \<notin> S"
  shows "tasks_inv good S (pushQueue t m)"
proof -
  have "t \<notin> set (hItems (mQueue m))" using tasks_invD(12) [OF inv] by blast
  note q = pushQueue_queue [OF tasks_invD(1) [OF inv] this]
  show ?thesis
  proof (rule tasks_invI, goal_cases)
    case (6 k u)
    then show ?case using tasks_invD(6) [OF inv, of k u] by simp
  next
    case (8 u)
    then show ?case using tasks_invD(9) [OF inv, of u] q(2) by auto
  qed (use assms q tasks_invD [OF inv] in auto)
qed

lemma tasks_inv_pushAll:
  "tasks_inv good (set ts) m \<Longrightarrow> distinct ts \<Longrightarrow> tasks_inv good {} (pushAll ts m)"
  unfolding pushAll_def
  by (induction ts arbitrary: m) (auto intro!: tasks_inv_push)

lemma popQueue_simps [simp]:
  "mObjs (snd (popQueue m)) = mObjs m" "mNext (snd (popQueue m)) = mNext m"
  "mTasks (snd (popQueue m)) = mTasks m" "mPanic (snd (popQueue m)) = mPanic m"
  "rankOf (snd (popQueue m)) = rankOf m" "mStore (snd (popQueue m)) = mStore m"
  "mSessions (snd (popQueue m)) = mSessions m" "mCfg (snd (popQueue m)) = mCfg m"
  "mClosed (snd (popQueue m)) = mClosed m" "mDiskWrites (snd (popQueue m)) = mDiskWrites m"
  "mLatencies (snd (popQueue m)) = mLatencies m"
  by (simp_all add: popQueue_def rankOf_def [abs_def] split: prod.split)

lemma popQueue_queue:
  assumes "heap_ok (rankOf m) (mQueue m)" "hItems (mQueue m) \<noteq> []"
  shows "heap_ok (rankOf m) (mQueue (snd (popQueue m)))"
    "set (hItems (mQueue m)) = insert (fst (popQueue m)) (set (hItems (mQueue (snd (popQueue m)))))"
    "fst (popQueue m) \<notin> set (hItems (mQueue (snd (popQueue m))))"
    "x \<in> set (hItems (mQueue m)) \<Longrightarrow> rankLe (rankOf m (fst (popQueue m))) (rankOf m x)"
proof -
  have pop: "fst (popQueue m) = fst (heapPop (rankOf m) (mQueue m))"
    "mQueue (snd (popQueue m)) = snd (heapPop (rankOf m) (mQueue m))"
    by (simp_all add: popQueue_def split: prod.split)
  show "heap_ok (rankOf m) (mQueue (snd (popQueue m)))"
    "set (hItems (mQueue m)) = insert (fst (popQueue m)) (set (hItems (mQueue (snd (popQueue m)))))"
    "x \<in> set (hItems (mQueue m)) \<Longrightarrow> rankLe (rankOf m (fst (popQueue m))) (rankOf m x)"
    unfolding pop using task_heap.pop_ok [OF assms] task_heap.pop_set [OF assms]
      task_heap.pop_least [OF assms(1)] by simp_all
  have "distinct (hItems (mQueue m))" using assms(1) by (simp add: heap_ok_def indexed_def)
  then have "count (mset (hItems (mQueue m))) (fst (popQueue m)) \<le> 1"
    by (simp add: distinct_count_atmost_1)
  then show "fst (popQueue m) \<notin> set (hItems (mQueue (snd (popQueue m))))"
    unfolding pop task_heap.pop_mset [OF assms] by (simp add: count_eq_zero_iff)
qed

section \<open>What a task promises\<close>

text \<open>\<open>F\<close> says which files are opened, \<open>P k d\<close> that \<open>d\<close> is the content of chunk \<open>k\<close>. A task with a
  context asks for one chunk of one file; a task finished without error holds that chunk.\<close>

definition idx_ok :: "Config \<Rightarrow> int \<Rightarrow> bool" where
  "idx_ok cfg i \<longleftrightarrow> 0 \<le> i \<and> (i + 1) * ChunkSize cfg < 2 ^ 63"

definition wants :: "(File \<Rightarrow> bool) \<Rightarrow> Config \<Rightarrow> task \<Rightarrow> bool" where
  "wants F cfg k \<longleftrightarrow>
     (\<exists>i. F (tFile k) \<and> idx_ok cfg i \<and> tKey k = ChunkKey (chunkVersion (tFile k) (ChunkSize cfg)) i \<and>
          tOffset k = i64 (i * ChunkSize cfg) \<and> tLength k = taskLength cfg (tFile k) i \<and> 0 < tLength k)"

definition task_ok :: "(chunkKey \<Rightarrow> bytes \<Rightarrow> bool) \<Rightarrow> (File \<Rightarrow> bool) \<Rightarrow> Config \<Rightarrow> task \<Rightarrow> bool" where
  "task_ok P F cfg k \<longleftrightarrow>
     (tHasCtx k \<longrightarrow> wants F cfg k) \<and> (\<not> tFinished k \<longrightarrow> tHasCtx k) \<and>
     (tFinished k \<and> tErr k = None \<longrightarrow> P (tKey k) (tData k))"

lemma wants_simps [simp]:
  "wants F cfg (k\<lparr>tPriority := p\<rparr>) = wants F cfg k"
  "wants F cfg (k\<lparr>tCanceled := c\<rparr>) = wants F cfg k"
  "wants F cfg (k\<lparr>tDone := c\<rparr>) = wants F cfg k"
  "wants F cfg (k\<lparr>tData := d\<rparr>) = wants F cfg k"
  "wants F cfg (k\<lparr>tErr := e\<rparr>) = wants F cfg k"
  "wants F cfg (k\<lparr>tStarted := c\<rparr>) = wants F cfg k"
  "wants F cfg (k\<lparr>tFinished := c\<rparr>) = wants F cfg k"
  "wants F cfg (k\<lparr>tForeground := c\<rparr>) = wants F cfg k"
  "wants F cfg (k\<lparr>tHedged := c\<rparr>) = wants F cfg k"
  "wants F cfg (k\<lparr>tHedgeCancel := c\<rparr>) = wants F cfg k"
  "wants F cfg (k\<lparr>tStartedAt := z\<rparr>) = wants F cfg k"
  by (simp_all add: wants_def)

lemma task_ok_flags [simp]:
  "task_ok P F cfg (k\<lparr>tPriority := p\<rparr>) = task_ok P F cfg k"
  "task_ok P F cfg (k\<lparr>tCanceled := c\<rparr>) = task_ok P F cfg k"
  "task_ok P F cfg (k\<lparr>tDone := c\<rparr>) = task_ok P F cfg k"
  "task_ok P F cfg (k\<lparr>tStarted := c\<rparr>) = task_ok P F cfg k"
  "task_ok P F cfg (k\<lparr>tForeground := c\<rparr>) = task_ok P F cfg k"
  "task_ok P F cfg (k\<lparr>tHedged := c\<rparr>) = task_ok P F cfg k"
  "task_ok P F cfg (k\<lparr>tHedgeCancel := c\<rparr>) = task_ok P F cfg k"
  "task_ok P F cfg (k\<lparr>tStartedAt := z\<rparr>) = task_ok P F cfg k"
  by (simp_all add: task_ok_def)

abbreviation tinv ::
  "(chunkKey \<Rightarrow> bytes \<Rightarrow> bool) \<Rightarrow> (File \<Rightarrow> bool) \<Rightarrow> Config \<Rightarrow> nat set \<Rightarrow> mgr \<Rightarrow> bool" where
  "tinv P F cfg \<equiv> tasks_inv (task_ok P F cfg)"

lemma tinv_cancel: "tinv P F cfg S m \<Longrightarrow> tinv P F cfg S (cancelTasks Q m)"
  by (rule tasks_inv_cancel) simp_all

section \<open>Every operation keeps the invariant\<close>

lemma tinv_newMgr: "tinv P F cfg {} (newMgr cfg st)"
  by (rule tasks_invI) (simp_all add: newMgr_def heap_ok_def heap_upto_def indexed_def)

lemma tinv_fixQueue:
  assumes inv: "tinv P F cfg S m" and t: "t < mNext m" "\<not> tFinished (mObjs m t)" "\<not> tStarted (mObjs m t)" "t \<notin> S"
  shows "tinv P F cfg S (fixQueue (hIndex (mQueue m) t) (updTask t (\<lambda>k. k\<lparr>tPriority := p\<rparr>) m))"
proof -
  let ?u = "updTask t (\<lambda>k. k\<lparr>tPriority := p\<rparr>) m" and ?q = "mQueue m"
  have "t \<in> set (hItems ?q)" using tasks_invD(9) [OF inv t(1-3)] t(4) by blast
  then obtain i where i: "i < length (hItems ?q)" "hItems ?q ! i = t" by (auto simp: in_set_conv_nth)
  with tasks_invD(1) [OF inv] have hi: "hIndex ?q t = int i" by (auto simp: heap_ok_def indexed_def)
  define q' where "q' = heapFix (rankOf ?u) i ?q"
  have eq: "fixQueue (hIndex ?q t) ?u = ?u\<lparr>mQueue := q'\<rparr>"
    using i hi by (simp add: fixQueue_def updTask_def q'_def)
  have "rankOf ?u s = rankOf m s" if "s \<noteq> hItems ?q ! i" for s
    using that i by (simp add: rankOf_def updTask_def)
  note fp = heapFix_props [OF tasks_invD(1) [OF inv] i(1) this]
  have st: "set (hItems q') = set (hItems ?q)" unfolding q'_def
    using fp(2) by (metis set_mset_mset)
  have "heap_ok (rankOf (?u\<lparr>mQueue := q'\<rparr>)) q'"
    using fp(1) unfolding q'_def [symmetric] by (simp add: rankOf_def [abs_def])
  moreover have "u < mNext m \<and> tKey (mObjs ?u u) = k \<and> \<not> tFinished (mObjs ?u u)"
    if "map_of (mTasks m) k = Some u" for k u
    using tasks_invD(6) [OF inv that] by (auto simp: updTask_def)
  ultimately show ?thesis
    unfolding eq using inv t
    by (intro tasks_invI) (auto simp: st updTask_def dest: tasks_invD split: if_splits)
qed

lemma tinv_new:
  assumes inv: "tinv P F cfg {} m" and k: "task_ok P F cfg k" "\<not> tFinished k" "\<not> tDone k" "\<not> tStarted k"
  shows "tinv P F cfg {}
    (pushQueue (mNext m) ((snd (allocTask (- 1) k m))\<lparr>mTasks := AList.update (tKey k) (mNext m) (mTasks m)\<rparr>))"
proof -
  let ?a = "(snd (allocTask (- 1) k m))\<lparr>mTasks := AList.update (tKey k) (mNext m) (mTasks m)\<rparr>"
  have fresh: "mNext m \<notin> set (hItems (mQueue m))" using tasks_invD(4) [OF inv] by auto
  have "heap_ok (rankOf ?a) (mQueue m) = heap_ok (rankOf m) (mQueue m)"
    using fresh by (intro heap_ok_rank) (auto simp: rankOf_def allocTask_def)
  moreover have "heap_ok r (mQueue ?a) = heap_ok r (mQueue m)" for r
    using heap_ok_index [OF fresh] by (simp add: allocTask_def)
  ultimately have hp: "heap_ok (rankOf ?a) (mQueue ?a)" using tasks_invD(1) [OF inv] by simp
  have "tinv P F cfg {mNext m} ?a"
  proof (rule tasks_invI [OF hp], goal_cases)
    case (5 key t)
    then show ?case using tasks_invD(6) [OF inv, of key t] k by (auto simp: allocTask_def split: if_splits)
  qed (use inv fresh k in \<open>auto simp: allocTask_def less_Suc_eq dest: tasks_invD\<close>)
  then show ?thesis by (rule tasks_inv_push) simp
qed

lemma task_ok_new:
  assumes "F f" "idx_ok cfg i" "0 < taskLength cfg f i"
  shows "task_ok P F cfg (newTask cfg (ChunkKey (chunkVersion f (ChunkSize cfg)) i) f i epoch prio seq)"
  using assms by (auto simp: task_ok_def wants_def newTask_def emptyTask_def)

lemma task_ok_finished: "P key d \<Longrightarrow> task_ok P F cfg (finishedTask key f epoch prio d)"
  by (simp add: task_ok_def finishedTask_def emptyTask_def)

lemma tinv_ensureTaskLocked:
  assumes inv: "tinv P F (mCfg m) {} m" and f: "F f" "idx_ok (mCfg m) i"
    and empty: "taskLength (mCfg m) f i \<le> 0 \<longrightarrow> P (keyOf m f i) []"
  shows "tinv P F (mCfg m) {} (snd (ensureTaskLocked f i epoch prio m))"
proof -
  consider (closed) "mClosed m"
    | (live) t where "\<not> mClosed m" "liveTask m (keyOf m f i) = Some t"
    | (none) "\<not> mClosed m" "liveTask m (keyOf m f i) = None" "taskLength (mCfg m) f i \<le> 0"
    | (fresh) "\<not> mClosed m" "liveTask m (keyOf m f i) = None" "0 < taskLength (mCfg m) f i"
    by (cases "liveTask m (keyOf m f i)") fastforce+
  then show ?thesis
  proof cases
    case (live t)
    then have "map_of (mTasks m) (keyOf m f i) = Some t" by (auto simp: liveTask_def split: option.splits if_splits)
    with tasks_invD(6) [OF inv] have t: "t < mNext m" "\<not> tFinished (mObjs m t)" by auto
    with live inv show ?thesis by (auto simp: ensureTaskLocked_def intro: tinv_fixQueue)
  next
    case none
    with tasks_inv_alloc [OF inv task_ok_finished] empty show ?thesis
      by (simp add: ensureTaskLocked_def case_prod_beta Let_def) (simp add: finishedTask_def)
  next
    case fresh
    let ?k = "newTask (mCfg m) (keyOf m f i) f i epoch prio (mSequence m + 1)"
    let ?m = "m\<lparr>mSequence := mSequence m + 1\<rparr>"
    have "tinv P F (mCfg m) {} ?m" using inv by simp
    from tinv_new [OF this task_ok_new [of F f "mCfg m" i, OF f fresh(3)]]
    have "tinv P F (mCfg m) {}
      (pushQueue (mNext m) ((snd (allocTask (- 1) ?k ?m))\<lparr>mTasks := AList.update (keyOf m f i) (mNext m) (mTasks m)\<rparr>))"
      by (simp add: newTask_def emptyTask_def)
    then show ?thesis using fresh by (simp add: ensureTaskLocked_def Let_def allocTask_def)
  qed (use inv in \<open>simp add: ensureTaskLocked_def\<close>)
qed

lemma tinv_markForeground: "tinv P F cfg S m \<Longrightarrow> tinv P F cfg S (markForeground t m)"
  by (auto simp: markForeground_def same_core_def intro!: tasks_inv_updTask dest: tasks_invD)

lemma tinv_startHedge:
  assumes "tinv P F cfg S m"
  shows "tinv P F cfg S (snd (startHedge t m))"
proof -
  have "tinv P F cfg S (updTask t (\<lambda>k. k\<lparr>tHedged := True, tHedgeCancel := True\<rparr>) m)"
    using assms by (auto simp: same_core_def intro!: tasks_inv_updTask dest: tasks_invD)
  then show ?thesis using assms by (simp add: startHedge_def Let_def split: option.split)
qed

text \<open>A task that was allocated asks for its chunk for as long as it is unfinished.\<close>

lemma tinv_wants: "tinv P F cfg S m \<Longrightarrow> t < mNext m \<Longrightarrow> \<not> tFinished (mObjs m t) \<Longrightarrow> wants F cfg (mObjs m t)"
  by (auto dest: tasks_invD(7) simp: task_ok_def)

lemma tinv_publishLocked:
  assumes inv: "tinv P F cfg S m" and "t < mNext m" "P (tKey (mObjs m t)) d"
  shows "tinv P F cfg S (snd (publishLocked t d m))"
proof (cases "tFinished (mObjs m t)")
  case False
  let ?f = "\<lambda>k. k\<lparr>tFinished := True, tData := d, tHedgeCancel := False, tCanceled := (tCanceled k \<or> tHasCtx k)\<rparr>"
  have "task_ok P F cfg ((?f (mObjs m t))\<lparr>tDone := True\<rparr>)"
    using tasks_invD(7) [OF inv assms(2)] assms(3) by (simp add: task_ok_def)
  with tasks_inv_settle [OF inv assms(2) False, of ?f] False show ?thesis
    by (simp add: publishLocked_def settles_def)
qed (use inv in \<open>simp add: publishLocked_def\<close>)

lemma tinv_discard:
  assumes inv: "tinv P F cfg S m" and "t < mNext m" "ctxErr m t \<noteq> None"
  shows "tinv P F cfg S (discardCanceledTaskLocked t m)"
proof (cases "tFinished (mObjs m t)")
  case False
  let ?f = "\<lambda>k. k\<lparr>tFinished := True, tErr := ctxErr m t\<rparr>"
  have "task_ok P F cfg ((?f (mObjs m t))\<lparr>tDone := True\<rparr>)"
    using tasks_invD(7) [OF inv assms(2)] assms(3) by (auto simp: task_ok_def)
  with tasks_inv_settle [OF inv assms(2) False, of ?f] False show ?thesis
    by (simp add: discardCanceledTaskLocked_def settles_def)
qed (use inv in \<open>simp add: discardCanceledTaskLocked_def\<close>)

lemma onSession_simps [simp]:
  "mObjs (onSession v f m) = mObjs m" "mNext (onSession v f m) = mNext m" "mQueue (onSession v f m) = mQueue m"
  "mTasks (onSession v f m) = mTasks m" "mPanic (onSession v f m) = mPanic m" "mCfg (onSession v f m) = mCfg m"
  "mStore (onSession v f m) = mStore m" "mClosed (onSession v f m) = mClosed m"
  "mDiskWrites (onSession v f m) = mDiskWrites m" "mLatencies (onSession v f m) = mLatencies m"
  by (simp_all add: onSession_def setSession_def split: option.split)

lemma recordLatency_simps [simp]:
  "tasks_inv good S (recordLatencyLocked l m) = tasks_inv good S m"
  "mObjs (recordLatencyLocked l m) = mObjs m" "mStore (recordLatencyLocked l m) = mStore m"
  "mSessions (recordLatencyLocked l m) = mSessions m" "mDiskWrites (recordLatencyLocked l m) = mDiskWrites m"
  "mCfg (recordLatencyLocked l m) = mCfg m" "mNext (recordLatencyLocked l m) = mNext m"
  "mClosed (recordLatencyLocked l m) = mClosed m" "mTasks (recordLatencyLocked l m) = mTasks m"
  by (auto simp: recordLatencyLocked_def intro: tasks_inv_cong)

lemma noteLatency_simps [simp]:
  "tasks_inv good S (noteLatency now t e m) = tasks_inv good S m"
  "mObjs (noteLatency now t e m) = mObjs m" "mStore (noteLatency now t e m) = mStore m"
  "mSessions (noteLatency now t e m) = mSessions m" "mDiskWrites (noteLatency now t e m) = mDiskWrites m"
  "mCfg (noteLatency now t e m) = mCfg m" "mNext (noteLatency now t e m) = mNext m"
  "mClosed (noteLatency now t e m) = mClosed m" "mTasks (noteLatency now t e m) = mTasks m"
  by (auto simp: noteLatency_def split: option.split)

lemma resetStreak_simps [simp]:
  "tasks_inv good S (resetStreak t m) = tasks_inv good S m"
  "mObjs (resetStreak t m) = mObjs m" "mStore (resetStreak t m) = mStore m"
  "mDiskWrites (resetStreak t m) = mDiskWrites m" "mCfg (resetStreak t m) = mCfg m"
  "mNext (resetStreak t m) = mNext m" "mLatencies (resetStreak t m) = mLatencies m"
  "mClosed (resetStreak t m) = mClosed m" "mTasks (resetStreak t m) = mTasks m"
  by (simp_all add: resetStreak_def)

lemma settle_late:
  "tasks_inv good S (closeDone t (resetStreak t (noteLatency now t e m))) = tasks_inv good S (closeDone t m)"
  by (rule tasks_inv_cong)
    (simp_all add: closeDone_def updTask_def resetStreak_def noteLatency_def recordLatencyLocked_def
      split: option.split)

lemma tinv_finishLocked:
  assumes inv: "tinv P F cfg S m" and "t < mNext m" "err = None \<longrightarrow> P (tKey (mObjs m t)) d"
  shows "tinv P F cfg S (snd (finishLocked now t d err m))"
proof (cases "tFinished (mObjs m t)")
  case False
  let ?f = "\<lambda>k. k\<lparr>tHedgeCancel := False, tFinished := True, tData := d, tErr := err\<rparr>"
  let ?m = "releaseWorker t m"
  have m: "tinv P F cfg S ?m" "mObjs ?m = mObjs m" "mNext ?m = mNext m"
    using inv by (simp_all add: releaseWorker_def)
  have "task_ok P F cfg ((?f (mObjs ?m t))\<lparr>tDone := True\<rparr>)"
    using tasks_invD(7) [OF inv assms(2)] assms(3) by (auto simp: task_ok_def m)
  with tasks_inv_settle [OF m(1), of t ?f] False assms(2) show ?thesis
    by (simp add: finishLocked_def Let_def settle_late m settles_def)
qed (use inv in \<open>simp add: finishLocked_def Let_def releaseWorker_def\<close>)

lemma tinv_startTask:
  assumes inv: "tinv P F cfg (insert t S) m" "t \<notin> S"
  shows "tinv P F cfg S (startTask now t m)"
proof -
  let ?u = "updTask t (\<lambda>k. k\<lparr>tStarted := True, tStartedAt := Some now\<rparr>) m"
  have "heap_ok (rankOf ?u) (mQueue m) = heap_ok (rankOf m) (mQueue m)"
    by (rule heap_ok_rank) (simp add: rankOf_def updTask_def)
  then have "heap_ok (rankOf ?u) (mQueue ?u)"
    using tasks_invD(1) [OF inv(1)] by (simp add: updTask_def)
  moreover have "u < mNext m \<and> tKey (mObjs ?u u) = k \<and> \<not> tFinished (mObjs ?u u)"
    if "map_of (mTasks m) k = Some u" for k u
    using tasks_invD(6) [OF inv(1) that] by (auto simp: updTask_def)
  ultimately have "tinv P F cfg S ?u"
    using inv by (intro tasks_invI) (auto simp: updTask_def dest: tasks_invD split: if_splits)
  then show ?thesis by (simp add: startTask_def)
qed

lemma tinv_pop:
  assumes inv: "tinv P F cfg S m" and "hItems (mQueue m) \<noteq> []"
  shows "tinv P F cfg (insert (fst (popQueue m)) S) (snd (popQueue m))" "fst (popQueue m) \<notin> S"
    "fst (popQueue m) < mNext m"
proof -
  note q = popQueue_queue [OF tasks_invD(1) [OF inv] assms(2)]
  have t: "fst (popQueue m) \<in> set (hItems (mQueue m))" using q(2) by blast
  show "fst (popQueue m) \<notin> S" "fst (popQueue m) < mNext m" using t inv by (auto dest: tasks_invD)
  have sub: "s \<in> set (hItems (mQueue m))" if "s \<in> set (hItems (mQueue (snd (popQueue m))))" for s
    using that q(2) by blast
  have pend: "s \<in> set (hItems (mQueue (snd (popQueue m)))) \<or> s \<in> insert (fst (popQueue m)) S"
    if "s < mNext m" "\<not> tFinished (mObjs m s)" "\<not> tStarted (mObjs m s)" for s
    using tasks_invD(9) [OF inv that] q(2) by blast
  show "tinv P F cfg (insert (fst (popQueue m)) S) (snd (popQueue m))"
  proof (rule tasks_invI, goal_cases)
    case (8 s)
    then show ?case using pend [of s] by simp
  qed (use inv q(1,3) t sub in \<open>auto dest: tasks_invD\<close>)
qed

text \<open>A finished task set aside can be forgotten.\<close>

lemma tinv_forget: "tinv P F cfg (insert t S) m \<Longrightarrow> tFinished (mObjs m t) \<Longrightarrow> t \<notin> S \<Longrightarrow> tinv P F cfg S m"
  by (intro tasks_invI) (auto dest: tasks_invD)

lemma discard_objs:
  "\<not> tFinished (mObjs m t) \<Longrightarrow> \<not> tDone (mObjs m t) \<Longrightarrow> mObjs (discardCanceledTaskLocked t m) =
     (mObjs m)(t := (mObjs m t)\<lparr>tFinished := True, tErr := ctxErr m t, tDone := True\<rparr>)"
  by (simp add: discardCanceledTaskLocked_def settle_objs cleanupSessionLocked_def split: option.split)

lemma discard_simps [simp]:
  "mNext (discardCanceledTaskLocked t m) = mNext m" "mStore (discardCanceledTaskLocked t m) = mStore m"
  "mCfg (discardCanceledTaskLocked t m) = mCfg m" "mDiskWrites (discardCanceledTaskLocked t m) = mDiskWrites m"
  "mClosed (discardCanceledTaskLocked t m) = mClosed m"
  "mLatencies (discardCanceledTaskLocked t m) = mLatencies m"
  by (simp_all add: discardCanceledTaskLocked_def cleanupSessionLocked_def split: option.split)

lemma tinv_discard_popped:
  assumes inv: "tinv P F cfg (insert t S) m" and t: "t \<notin> S" "\<not> tFinished (mObjs m t)" "ctxErr m t \<noteq> None"
  shows "tinv P F cfg S (discardCanceledTaskLocked t m)"
proof (rule tinv_forget [OF _ _ t(1)])
  have "t < mNext m" using tasks_invD(5) [OF inv] by blast
  with tasks_invD(8) [OF inv] t have "\<not> tDone (mObjs m t)" by simp
  with t show "tFinished (mObjs (discardCanceledTaskLocked t m) t)" by (simp add: discard_objs)
  show "tinv P F cfg (insert t S) (discardCanceledTaskLocked t m)"
    using inv \<open>t < mNext m\<close> t(3) by (rule tinv_discard)
qed

lemma tinv_nextScan:
  "tinv P F cfg (set sk) m \<Longrightarrow> distinct sk \<Longrightarrow> tinv P F cfg {} (snd (nextScan now sk m))"
proof (induction now sk m rule: nextScan.induct)
  case (1 now sk m)
  show ?case
  proof (cases "hItems (mQueue m) = []")
    case True
    then show ?thesis using "1.prems" by (simp add: nextScan.simps [of now sk m] tasks_inv_pushAll)
  next
    case False
    let ?t = "fst (popQueue m)" and ?m = "snd (popQueue m)"
    note pop = tinv_pop [OF "1.prems"(1) False]
    consider "tFinished (mObjs ?m ?t)"
      | "\<not> tFinished (mObjs ?m ?t)" "ctxErr ?m ?t \<noteq> None"
      | "\<not> tFinished (mObjs ?m ?t)" "ctxErr ?m ?t = None" "overLimit ?m ?t"
      | "\<not> tFinished (mObjs ?m ?t)" "ctxErr ?m ?t = None" "\<not> overLimit ?m ?t"
      by blast
    then show ?thesis
    proof cases
      case 1
      then have "nextScan now sk m = nextScan now sk ?m" using False by (simp add: nextScan.simps [of now sk m] Let_def)
      with "1.IH"(1) [OF False refl refl 1] tinv_forget [OF pop(1) 1 pop(2)] "1.prems"(2) show ?thesis by simp
    next
      case 2
      then have "nextScan now sk m = nextScan now sk (discardCanceledTaskLocked ?t ?m)"
        using False by (simp add: nextScan.simps [of now sk m] Let_def)
      with "1.IH"(2) [OF False refl refl 2] tinv_discard_popped [OF pop(1,2) 2] "1.prems"(2) show ?thesis by simp
    next
      case 3
      then have "nextScan now sk m = nextScan now (sk @ [?t]) ?m"
        using False by (simp add: nextScan.simps [of now sk m] Let_def)
      with "1.IH"(3) [OF False refl refl 3(1) _ 3(3)] 3 pop "1.prems"(2) show ?thesis by simp
    next
      case 4
      then have "nextScan now sk m = (NextTask ?t, pushAll sk (startTask now ?t ?m))"
        using False by (simp add: nextScan.simps [of now sk m] Let_def)
      with tinv_startTask [OF pop(1,2)] "1.prems"(2) show ?thesis by (simp add: tasks_inv_pushAll)
    qed
  qed
qed

lemma tinv_nextTask: "tinv P F cfg {} m \<Longrightarrow> tinv P F cfg {} (snd (nextTask now m))"
  by (simp add: nextTask_def tinv_nextScan)

end
