(* ===== verification/StreamDispatch.thy ===== *)
theory StreamDispatch
  imports StreamTasks
begin

text \<open>
  Which task a worker gets. A queued task is eligible when it is unfinished, its context is alive
  and its session has a worker left (foreground tasks need none). \<open>nextTask\<close> hands out the eligible
  task of least rank, and waits only when there is none.
\<close>

definition eligible :: "mgr \<Rightarrow> nat \<Rightarrow> bool" where
  "eligible m t \<longleftrightarrow> t \<in> set (hItems (mQueue m)) \<and> \<not> tFinished (mObjs m t) \<and> ctxErr m t = None \<and>
     \<not> overLimit m t"

definition limits_ok :: "mgr \<Rightarrow> bool" where
  "limits_ok m \<longleftrightarrow> 0 < Workers (mCfg m) \<and> 0 < SessionWorkers (mCfg m)"

lemma limit_pos: "limits_ok m \<Longrightarrow> 0 < sessionWorkerLimitLocked m"
  by (simp add: limits_ok_def sessionWorkerLimitLocked_def)

section \<open>Cleaning up a session does not change who may start\<close>

lemma filter_delete:
  "\<forall>s. (v, s) \<in> set xs \<longrightarrow> \<not> Q s \<Longrightarrow>
   filter (\<lambda>(v, s). Q s) (AList.delete v xs) = filter (\<lambda>(v, s). Q s) xs"
  unfolding AList.delete_eq filter_filter by (rule filter_cong) auto

lemma cleanup_limit:
  assumes "alist_ok (mSessions m)"
  shows "sessionWorkerLimitLocked (cleanupSessionLocked v m) = sessionWorkerLimitLocked m"
proof (cases "\<exists>s. getSession v m = Some s \<and> refs s \<le> 0")
  case True
  then have "\<forall>s. (v, s) \<in> set (mSessions m) \<longrightarrow> \<not> (0 < refs s \<and> activeHandle s \<noteq> 0)"
    using assms by (auto simp: getSession_def alist_ok_map_of_iff)
  note f = filter_delete [of v "mSessions m" "\<lambda>s. 0 < refs s \<and> activeHandle s \<noteq> 0", OF this]
  show ?thesis unfolding cleanupSessionLocked_def sessionWorkerLimitLocked_def
    by (simp add: f split: option.split del: neq0_conv)
next
  case False
  then have "cleanupSessionLocked v m = m"
    by (force simp: cleanupSessionLocked_def split: option.split)
  then show ?thesis by simp
qed

lemma cleanup_session:
  "getSession w (cleanupSessionLocked v m) =
     (if cleanupSessionLocked v m \<noteq> m \<and> w = v then None else getSession w m)"
  by (auto simp: cleanupSessionLocked_def getSession_def split: option.split)

lemma cleanup_idle:
  "cleanupSessionLocked v m \<noteq> m \<Longrightarrow> \<exists>s. getSession v m = Some s \<and> inflight s \<le> 0"
  by (auto simp: cleanupSessionLocked_def split: option.splits if_splits)

lemma overLimit_cleanup:
  assumes "limits_ok m" "alist_ok (mSessions m)"
  shows "overLimit (cleanupSessionLocked v m) t = overLimit m t"
proof -
  have "mObjs (cleanupSessionLocked v m) = mObjs m"
    by (simp add: cleanupSessionLocked_def split: option.split)
  moreover note cleanup_limit [OF assms(2), of v] limit_pos [OF assms(1)]
  moreover have "\<not> overLimit m t" if "cleanupSessionLocked v m \<noteq> m" "ckVersion (tKey (mObjs m t)) = v"
    using cleanup_idle [OF that(1)] that(2) limit_pos [OF assms(1)] by (auto simp: overLimit_def)
  ultimately show ?thesis
    by (cases "cleanupSessionLocked v m = m")
      (auto simp: overLimit_def cleanup_session split: option.splits)
qed

lemma overLimit_discard:
  assumes "limits_ok m" "alist_ok (mSessions m)" "\<not> tFinished (mObjs m t)" "\<not> tDone (mObjs m t)"
  shows "overLimit (discardCanceledTaskLocked t m) u = overLimit m u"
proof -
  let ?s = "settle t (\<lambda>k. k\<lparr>tFinished := True, tErr := ctxErr m t\<rparr>) m"
  have "overLimit ?s u = overLimit m u"
    using assms(4)
    by (simp add: overLimit_def getSession_def settle_objs sessionWorkerLimitLocked_def cong: option.case_cong)
  moreover have "limits_ok ?s" "alist_ok (mSessions ?s)" using assms by (simp_all add: limits_ok_def)
  ultimately show ?thesis using assms(3) overLimit_cleanup [of ?s] by (simp add: discardCanceledTaskLocked_def)
qed

lemma cleanup_sessions_ok: "alist_ok (mSessions m) \<Longrightarrow> alist_ok (mSessions (cleanupSessionLocked v m))"
  by (simp add: cleanupSessionLocked_def split: option.split)

lemma discard_sessions_ok:
  "alist_ok (mSessions m) \<Longrightarrow> alist_ok (mSessions (discardCanceledTaskLocked t m))"
  by (simp add: discardCanceledTaskLocked_def cleanup_sessions_ok)

section \<open>The scan\<close>

definition dispatched :: "mgr \<Rightarrow> nextOutcome \<Rightarrow> bool" where
  "dispatched m r \<longleftrightarrow>
     (case r of
        NextTask t \<Rightarrow> eligible m t \<and> (\<forall>u. eligible m u \<longrightarrow> rankLe (rankOf m t) (rankOf m u))
      | NextWait \<Rightarrow> (\<forall>u. \<not> eligible m u)
      | NextClosed \<Rightarrow> mClosed m)"

lemma dispatched_cong:
  assumes "dispatched m' r" "\<And>u. eligible m' u = eligible m u" "\<And>u. rankOf m' u = rankOf m u" "mClosed m' = mClosed m"
  shows "dispatched m r"
  using assms by (auto simp: dispatched_def split: nextOutcome.splits)

lemma nextScan_dispatched:
  "tinv P F cfg (set sk) m \<Longrightarrow> distinct sk \<Longrightarrow> limits_ok m \<Longrightarrow> alist_ok (mSessions m) \<Longrightarrow>
   dispatched m (fst (nextScan now sk m))"
proof (induction now sk m rule: nextScan.induct)
  case (1 now sk m)
  show ?case
  proof (cases "hItems (mQueue m) = []")
    case True
    then show ?thesis by (simp add: nextScan.simps [of now sk m] dispatched_def eligible_def)
  next
    case False
    let ?t = "fst (popQueue m)" and ?m = "snd (popQueue m)"
    note pop = tinv_pop [OF "1.prems"(1) False] and q = popQueue_queue [OF tasks_invD(1) [OF "1.prems"(1)] False]
    have same: "overLimit ?m u = overLimit m u" "ctxErr ?m u = ctxErr m u" for u
      by (simp_all add: overLimit_def getSession_def sessionWorkerLimitLocked_def ctxErr_def cong: option.case_cong)
    have lim: "limits_ok ?m" "alist_ok (mSessions ?m)" using "1.prems" by (simp_all add: limits_ok_def)
    have el: "eligible ?m u = (eligible m u \<and> u \<noteq> ?t)" for u using q(2,3) by (auto simp: eligible_def same)
    consider "tFinished (mObjs ?m ?t)"
      | "\<not> tFinished (mObjs ?m ?t)" "ctxErr ?m ?t \<noteq> None"
      | "\<not> tFinished (mObjs ?m ?t)" "ctxErr ?m ?t = None" "overLimit ?m ?t"
      | "\<not> tFinished (mObjs ?m ?t)" "ctxErr ?m ?t = None" "\<not> overLimit ?m ?t"
      by blast
    then show ?thesis
    proof cases
      case 1
      have "dispatched ?m (fst (nextScan now sk ?m))"
        using "1.IH"(1) [OF False refl refl 1] tinv_forget [OF pop(1) 1 pop(2)] "1.prems"(2) lim by blast
      moreover have "\<not> eligible m ?t" using 1 by (simp add: eligible_def)
      ultimately have "dispatched m (fst (nextScan now sk ?m))"
        by (elim dispatched_cong) (auto simp: el)
      with 1 False show ?thesis by (simp add: nextScan.simps [of now sk m] Let_def)
    next
      case 2
      let ?d = "discardCanceledTaskLocked ?t ?m"
      have nd: "\<not> tDone (mObjs ?m ?t)" using tasks_invD(8) [OF pop(1), of ?t] pop(3) 2 by simp
      note ob = discard_objs [OF 2(1) nd]
      have dl: "limits_ok ?d" "alist_ok (mSessions ?d)"
        using lim 2(1) discard_sessions_ok [of ?m ?t] by (simp_all add: limits_ok_def)
      have "eligible ?d u = (eligible ?m u \<and> u \<noteq> ?t)" for u
        using overLimit_discard [OF lim 2(1) nd] by (auto simp: eligible_def ob ctxErr_def)
      moreover have "\<not> eligible m ?t" using 2 same by (simp add: eligible_def)
      moreover have "rankOf ?d u = rankOf m u" for u by (simp add: rankOf_def ob)
      moreover have "dispatched ?d (fst (nextScan now sk ?d))"
        using "1.IH"(2) [OF False refl refl 2] tinv_discard_popped [OF pop(1,2) 2] "1.prems"(2) dl by blast
      ultimately have "dispatched m (fst (nextScan now sk ?d))"
        by (elim dispatched_cong) (auto simp: el)
      with 2 False show ?thesis by (simp add: nextScan.simps [of now sk m] Let_def)
    next
      case 3
      have "dispatched ?m (fst (nextScan now (sk @ [?t]) ?m))"
        using "1.IH"(3) [OF False refl refl 3(1) _ 3(3)] 3 pop "1.prems"(2) lim by simp
      moreover have "\<not> eligible m ?t" using 3 same by (simp add: eligible_def)
      ultimately have "dispatched m (fst (nextScan now (sk @ [?t]) ?m))"
        by (elim dispatched_cong) (auto simp: el)
      with 3 False show ?thesis by (simp add: nextScan.simps [of now sk m] Let_def)
    next
      case 4
      then have "eligible m ?t" using q(2) by (auto simp: eligible_def same)
      with q(4) have "dispatched m (NextTask ?t)" by (auto simp: dispatched_def eligible_def)
      with 4 False show ?thesis by (simp add: nextScan.simps [of now sk m] Let_def)
    qed
  qed
qed

lemma nextTask_dispatched:
  "tinv P F cfg {} m \<Longrightarrow> limits_ok m \<Longrightarrow> alist_ok (mSessions m) \<Longrightarrow> dispatched m (fst (nextTask now m))"
  using nextScan_dispatched [of P F cfg "[]" m now]
  by (auto simp: nextTask_def dispatched_def eligible_def)

end
