(* ===== verification/StreamInvariant.thy ===== *)
theory StreamInvariant
  imports StreamDispatch
begin

text \<open>
  The invariant of the whole manager, for a given remote content: tasks and queue
  (\<open>StreamTasks\<close>), cache, disk write queue, sessions and latencies; and that every critical section
  keeps it and only lets the task objects evolve forwards.
\<close>

section \<open>The bytes of a chunk\<close>

text \<open>\<open>content\<close> gives the bytes of the remote file by id. A known file is a valid one whose size,
  if it is given, is the length of its content.\<close>

definition known :: "content \<Rightarrow> File \<Rightarrow> bool" where
  "known content f \<longleftrightarrow> valid_file f \<and> (0 < flSize f \<longrightarrow> flSize f = len (content (flFSID f)))"

definition chunk_is :: "content \<Rightarrow> Config \<Rightarrow> chunkKey \<Rightarrow> bytes \<Rightarrow> bool" where
  "chunk_is content cfg k d \<longleftrightarrow>
     (\<forall>f i. known content f \<and> idx_ok cfg i \<and> k = ChunkKey (chunkVersion f (ChunkSize cfg)) i \<longrightarrow>
        d = bslice (i * ChunkSize cfg) (i * ChunkSize cfg + taskLength cfg f i) (content (flFSID f)) \<and>
        len d = max 0 (taskLength cfg f i))"

text \<open>What the reader promises: on success, a prefix of the requested range.\<close>

definition reader_ok :: "content \<Rightarrow> task \<Rightarrow> bytes \<times> goerr option \<Rightarrow> bool" where
  "reader_ok content k r \<longleftrightarrow>
     (snd r = None \<longrightarrow>
        prefix (fst r) (bslice (tOffset k) (tOffset k + tLength k) (content (flFSID (tFile k)))))"

definition cfg_ok :: "Config \<Rightarrow> bool" where
  "cfg_ok cfg \<longleftrightarrow> 0 < ChunkSize cfg \<and> ChunkSize cfg < 2 ^ 62 \<and> 0 < Workers cfg \<and> 0 < SessionWorkers cfg"

lemma idx_product: "idx_ok cfg i \<Longrightarrow> 0 < ChunkSize cfg \<Longrightarrow> i64 (i * ChunkSize cfg) = i * ChunkSize cfg"
  by (rule i64_nonneg_id) (auto simp: idx_ok_def algebra_simps)

lemma idx_bound:
  assumes "idx_ok cfg i" "0 < ChunkSize cfg"
  shows "i < 2 ^ 63"
proof -
  have "(i + 1) * 1 \<le> (i + 1) * ChunkSize cfg"
    using assms by (intro mult_left_mono) (auto simp: idx_ok_def)
  also have "\<dots> < 2 ^ 63" using assms(1) unfolding idx_ok_def by blast
  finally show ?thesis by simp
qed

lemma known_version_inj:
  "known c f \<Longrightarrow> known c g \<Longrightarrow> 0 < n \<Longrightarrow> chunkVersion f n = chunkVersion g n \<Longrightarrow> f = g"
  using chunkVersion_inj [of f g n n] by (simp add: known_def valid_file_def)

lemma known_key_ok:
  "known c f \<Longrightarrow> idx_ok cfg i \<Longrightarrow> 0 < ChunkSize cfg \<Longrightarrow> key_ok (ChunkKey (chunkVersion f (ChunkSize cfg)) i)"
  using idx_bound [of cfg i] by (intro key_ok_chunk) (auto simp: known_def idx_ok_def)

lemma chunk_is_key:
  assumes "known content f" "idx_ok cfg i" "0 < ChunkSize cfg"
  shows "chunk_is content cfg (ChunkKey (chunkVersion f (ChunkSize cfg)) i) d \<longleftrightarrow>
     d = bslice (i * ChunkSize cfg) (i * ChunkSize cfg + taskLength cfg f i) (content (flFSID f)) \<and>
     len d = max 0 (taskLength cfg f i)"
  using assms known_version_inj by (fastforce simp: chunk_is_def)

lemma chunk_is_empty:
  assumes "known content f" "idx_ok cfg i" "0 < ChunkSize cfg" "taskLength cfg f i \<le> 0"
  shows "chunk_is content cfg (ChunkKey (chunkVersion f (ChunkSize cfg)) i) []"
  using assms by (simp add: chunk_is_key bslice_def)

text \<open>A full read of what a task asks for is its chunk.\<close>

lemma full_read_is_chunk:
  assumes w: "wants (known content) cfg k" and "0 < ChunkSize cfg"
    and r: "reader_ok content k (d, None)" and n: "len d = tLength k"
  shows "chunk_is content cfg (tKey k) d"
proof -
  from w obtain i where i: "known content (tFile k)" "idx_ok cfg i"
    "tKey k = ChunkKey (chunkVersion (tFile k) (ChunkSize cfg)) i"
    "tOffset k = i * ChunkSize cfg" "tLength k = taskLength cfg (tFile k) i" "0 < tLength k"
    using idx_product assms(2) by (auto simp: wants_def)
  let ?b = "bslice (tOffset k) (tOffset k + tLength k) (content (flFSID (tFile k)))"
  have "prefix d ?b" using r by (simp add: reader_ok_def)
  moreover have "length ?b \<le> length d" using n i(6) by (simp add: bslice_def)
  ultimately have "d = ?b" by (auto simp: prefix_def)
  with i n show ?thesis by (simp add: chunk_is_key assms(2))
qed

lemma wants_key_ok: "wants (known content) cfg k \<Longrightarrow> 0 < ChunkSize cfg \<Longrightarrow> key_ok (tKey k)"
  by (auto simp: wants_def known_key_ok)

section \<open>The invariant\<close>

definition cache_inv :: "content \<Rightarrow> Config \<Rightarrow> chunkStore \<Rightarrow> cacheEntry list \<Rightarrow> bool" where
  "cache_inv content cfg st ws \<longleftrightarrow>
     store_coherent (chunk_is content cfg) st \<and> disk_sync st \<and>
     (\<forall>(k, d)\<in>set ws. key_ok k \<and> chunk_is content cfg k d)"

definition session_inv :: "(string \<times> session) list \<Rightarrow> bool" where
  "session_inv ss \<longleftrightarrow> alist_ok ss \<and> (\<forall>(v, s)\<in>set ss. 0 \<le> inflight s \<and> 0 \<le> refs s)"

definition latency_inv :: "int list \<Rightarrow> bool" where
  "latency_inv ls \<longleftrightarrow> length ls \<le> 32 \<and> (\<forall>l\<in>set ls. 0 < l)"

definition mgr_inv :: "content \<Rightarrow> mgr \<Rightarrow> bool" where
  "mgr_inv content m \<longleftrightarrow>
     cfg_ok (mCfg m) \<and> tinv (chunk_is content (mCfg m)) (known content) (mCfg m) {} m \<and>
     cache_inv content (mCfg m) (mStore m) (mDiskWrites m) \<and>
     len (mDiskWrites m) \<le> Workers (mCfg m) * 8 \<and> session_inv (mSessions m) \<and> latency_inv (mLatencies m)"

text \<open>How the manager may change from one critical section to the next: what a task asks for
  never changes, a started task stays started, and the result of a finished task is final.\<close>

definition task_keeps :: "task \<Rightarrow> task \<Rightarrow> bool" where
  "task_keeps a b \<longleftrightarrow>
     tKey b = tKey a \<and> tFile b = tFile a \<and> tOffset b = tOffset a \<and> tLength b = tLength a \<and>
     tHasCtx b = tHasCtx a \<and> (tStarted a \<longrightarrow> tStarted b) \<and> (tCanceled a \<longrightarrow> tCanceled b) \<and>
     (tFinished a \<longrightarrow> tFinished b \<and> tData b = tData a \<and> tErr b = tErr a)"

definition keeps :: "mgr \<Rightarrow> mgr \<Rightarrow> bool" where
  "keeps m m' \<longleftrightarrow> mCfg m' = mCfg m \<and> mNext m \<le> mNext m' \<and> (mClosed m \<longrightarrow> mClosed m') \<and>
     (\<forall>t<mNext m. task_keeps (mObjs m t) (mObjs m' t))"

lemma task_keeps_refl [simp]: "task_keeps a a"
  by (simp add: task_keeps_def)

lemma task_keeps_trans: "task_keeps a b \<Longrightarrow> task_keeps b c \<Longrightarrow> task_keeps a c"
  by (auto simp: task_keeps_def)

lemma keeps_refl [simp]: "keeps m m"
  by (simp add: keeps_def)

lemma keeps_trans: "keeps a b \<Longrightarrow> keeps b c \<Longrightarrow> keeps a c"
  unfolding keeps_def by (auto intro: task_keeps_trans)

lemma keeps_same:
  "mCfg m' = mCfg m \<Longrightarrow> mNext m' = mNext m \<Longrightarrow> mClosed m' = mClosed m \<Longrightarrow> mObjs m' = mObjs m \<Longrightarrow> keeps m m'"
  by (simp add: keeps_def)

text \<open>The number of downloads a session counts; a session that is not there counts none.\<close>

definition infl :: "mgr \<Rightarrow> string \<Rightarrow> int" where
  "infl m v = (case getSession v m of None \<Rightarrow> 0 | Some s \<Rightarrow> inflight s)"

definition calm :: "mgr \<Rightarrow> mgr \<Rightarrow> bool" where
  "calm m m' \<longleftrightarrow> (\<forall>v. infl m' v \<le> infl m v)"

lemma calm_refl [simp]: "calm m m"
  by (simp add: calm_def)

lemma calm_trans: "calm a b \<Longrightarrow> calm b c \<Longrightarrow> calm a c"
  unfolding calm_def using order_trans by blast

lemma calm_same: "mSessions m' = mSessions m \<Longrightarrow> calm m m'"
  by (simp add: calm_def infl_def getSession_def)

text \<open>All three together: the invariant is kept, tasks evolve, no session counts more downloads.\<close>

definition advances :: "content \<Rightarrow> mgr \<Rightarrow> mgr \<Rightarrow> bool" where
  "advances content m m' \<longleftrightarrow> keeps m m' \<and> (mgr_inv content m \<longrightarrow> mgr_inv content m' \<and> calm m m')"

lemma advances_refl [simp]: "advances content m m"
  by (simp add: advances_def)

lemma advances_trans: "advances c a b \<Longrightarrow> advances c b d \<Longrightarrow> advances c a d"
  unfolding advances_def using keeps_trans calm_trans by blast

text \<open>Fields the invariant does not read.\<close>

lemma advances_same:
  assumes "mCfg m' = mCfg m" "mStore m' = mStore m" "mObjs m' = mObjs m" "mNext m' = mNext m"
    "mQueue m' = mQueue m" "mTasks m' = mTasks m" "mSessions m' = mSessions m" "mClosed m' = mClosed m"
    "mDiskWrites m' = mDiskWrites m" "mLatencies m' = mLatencies m" "mPanic m' = mPanic m"
  shows "advances content m m'"
  using assms tasks_inv_cong [of m' m]
  by (simp add: advances_def mgr_inv_def keeps_same calm_same)

section \<open>Idle reclaim and sessions\<close>

lemma advances_scheduleIdle: "advances c m (scheduleIdleReclaimAfterLocked d m)"
  by (rule advances_same) (simp_all add: scheduleIdleReclaimAfterLocked_def)

lemma advances_markActivity: "advances c m (markActivityLocked now m)"
  by (rule advances_same) (simp_all add: markActivityLocked_def scheduleIdleReclaimAfterLocked_def Let_def)

lemma advances_cancelIdle: "advances c m (cancelIdleReclaimLocked m)"
  by (rule advances_same) (simp_all add: cancelIdleReclaimLocked_def)

lemma getSession_set [simp]: "getSession w (setSession v s m) = (if w = v then Some s else getSession w m)"
  by (simp add: getSession_def setSession_def)

lemma session_inv_get: "session_inv (mSessions m) \<Longrightarrow> getSession v m = Some s \<Longrightarrow> 0 \<le> inflight s \<and> 0 \<le> refs s"
  by (auto simp: session_inv_def getSession_def dest: map_of_SomeD)

lemma session_inv_update:
  "session_inv ss \<Longrightarrow> 0 \<le> inflight s \<Longrightarrow> 0 \<le> refs s \<Longrightarrow> session_inv (AList.update v s ss)"
  unfolding session_inv_def
  by (auto simp: alist_ok_map_of_iff split: if_splits)

lemma session_inv_delete: "session_inv ss \<Longrightarrow> session_inv (AList.delete v ss)"
  by (auto simp: session_inv_def AList.delete_eq alist_ok_def distinct_map_filter)

text \<open>Replacing a session by one that counts no more downloads.\<close>

lemma advances_setSession:
  assumes "mgr_inv c m \<longrightarrow> 0 \<le> inflight s \<and> 0 \<le> refs s \<and> inflight s \<le> infl m v"
  shows "advances c m (setSession v s m)"
proof -
  have "mgr_inv c (setSession v s m) \<and> calm m (setSession v s m)" if "mgr_inv c m"
    using that assms tasks_inv_setSession [of _ _ v s m]
    by (auto simp: mgr_inv_def setSession_def session_inv_update calm_def infl_def getSession_def)
  then show ?thesis by (simp add: advances_def keeps_def setSession_def)
qed

lemma advances_onSession:
  assumes "\<forall>s. inflight (f s) = inflight s \<and> refs (f s) = refs s"
  shows "advances c m (onSession v f m)"
  using assms
  by (auto simp: onSession_def infl_def mgr_inv_def split: option.split
      intro!: advances_setSession dest: session_inv_get)

lemma advances_delete: "advances c m (m\<lparr>mSessions := AList.delete v (mSessions m)\<rparr>)"
  using session_inv_get [of m v]
  by (auto simp: advances_def mgr_inv_def session_inv_delete keeps_def calm_def infl_def getSession_def
      split: option.split)

lemma advances_cleanup: "advances c m (cleanupSessionLocked v m)"
  by (simp add: cleanupSessionLocked_def advances_delete split: option.split)

lemma advances_cancelTasks: "advances c m (cancelTasks Q m)"
proof -
  have "keeps m (cancelTasks Q m)" by (simp add: keeps_def cancelTasks_def task_keeps_def)
  moreover have "mgr_inv c m \<longrightarrow> mgr_inv c (cancelTasks Q m)"
    using tinv_cancel [of _ _ _ "{}" m Q] by (simp add: mgr_inv_def) (simp add: cancelTasks_def)
  moreover have "calm m (cancelTasks Q m)" by (rule calm_same) (simp add: cancelTasks_def)
  ultimately show ?thesis by (simp add: advances_def)
qed

lemma advances_sessionLocked: "advances c m (snd (sessionLocked now f m))"
  by (auto simp: sessionLocked_def newSession_def infl_def split: option.split intro!: advances_setSession)

lemma sessionLocked_session:
  "getSession (versionOf m f) (snd (sessionLocked now f m)) = Some (fst (sessionLocked now f m))"
  by (simp add: sessionLocked_def split: option.split)

lemma infl_get: "getSession v m = Some s \<Longrightarrow> infl m v = inflight s"
  by (simp add: infl_def)

text \<open>Changing a session in place.\<close>

lemma advances_put:
  assumes "getSession v m = Some s" "inflight s' = inflight s" "refs s \<ge> 0 \<longrightarrow> refs s' \<ge> 0"
  shows "advances c m (setSession v s' m)"
  using assms session_inv_get [of m v s]
  by (intro advances_setSession) (auto simp: infl_get mgr_inv_def)

lemma sessionLocked_frame [simp]:
  "mCfg (snd (sessionLocked now f m)) = mCfg m" "mCfg (markActivityLocked now m) = mCfg m"
  "mCfg (cancelTasks Q m) = mCfg m" "getSession v (cancelTasks Q m) = getSession v m"
  by (simp_all add: sessionLocked_def setSession_def markActivityLocked_def
      scheduleIdleReclaimAfterLocked_def cancelTasks_def getSession_def Let_def split: option.split)

lemma advances_OpenHandle: "advances c m (snd (OpenHandle now f m))"
proof (cases "flFSID f = [] \<or> mClosed m")
  case False
  let ?a = "markActivityLocked now m"
  let ?s = "fst (sessionLocked now f ?a)" and ?m = "snd (sessionLocked now f ?a)"
  let ?b = "setSession (versionOf m f) (?s\<lparr>refs := refs ?s + 1, lastAccess := mLastActivity ?m\<rparr>) ?m"
  have "advances c m ?m" by (rule advances_trans [OF advances_markActivity advances_sessionLocked])
  moreover have "getSession (versionOf m f) ?m = Some ?s"
    using sessionLocked_session [of f ?a now] by simp
  then have "advances c ?m ?b" by (rule advances_put) simp_all
  moreover have "advances c ?b (?b\<lparr>mNextHandle := mNextHandle ?b + 1\<rparr>)" by (rule advances_same) simp_all
  ultimately show ?thesis using False
    by (auto simp: OpenHandle_def case_prod_beta Let_def intro: advances_trans)
qed (simp add: OpenHandle_def)

lemma advances_Release: "advances c m (snd (Release now h m))"
proof (cases "released h \<or> getSession (versionOf m (hFile h)) m = None")
  case False
  let ?v = "versionOf m (hFile h)"
  from False obtain s where s: "getSession ?v m = Some s" by auto
  define s1 where "s1 = (if 0 < refs s then s\<lparr>refs := refs s - 1\<rparr> else s)"
  define p where "p = (if activeHandle s1 = hId h
    then (s1\<lparr>ssEpoch := ssEpoch s1 + 1, activeHandle := 0\<rparr>, cancelSessionTasksLocked ?v (ssEpoch s1 + 1) m)
    else (s1, m))"
  have "advances c m (snd p)" by (simp add: p_def cancelSessionTasksLocked_def advances_cancelTasks)
  moreover have "getSession ?v (snd p) = Some s" using s by (simp add: p_def cancelSessionTasksLocked_def)
  then have "advances c (snd p) (setSession ?v ((fst p)\<lparr>lastAccess := now\<rparr>) (snd p))"
    by (rule advances_put) (simp_all add: p_def s1_def)
  moreover have "snd (Release now h m) =
      cleanupSessionLocked ?v (setSession ?v ((fst p)\<lparr>lastAccess := now\<rparr>) (snd p))"
    using False s by (simp add: Release_def Let_def p_def s1_def)
  ultimately show ?thesis
    using advances_trans [OF advances_trans advances_cleanup, of c m "snd p" "setSession ?v ((fst p)\<lparr>lastAccess := now\<rparr>) (snd p)" ?v]
    by simp
qed (auto simp: Release_def Let_def)

lemma prepareSession_keeps:
  "inflight (fst (prepareSession cfg h off ob s)) = inflight s \<and> refs (fst (prepareSession cfg h off ob s)) = refs s"
  by (simp add: prepareSession_def Let_def)

lemma advances_prepareRead: "advances c m (snd (snd (prepareRead now h off n m)))"
proof (cases "released h \<or> mClosed m")
  case False
  let ?a = "markActivityLocked now m" and ?v = "versionOf m (hFile h)"
  define ob where "ob = snd (observeHandleLocked (mCfg m) h off n)"
  define s where "s = fst (sessionLocked now (hFile h) ?a)"
  define m1 where "m1 = snd (sessionLocked now (hFile h) ?a)"
  define r where "r = prepareSession (mCfg m) (hId h) off ob s"
  define m2 where "m2 = (if ssEpoch (fst r) \<noteq> ssEpoch s
    then cancelSessionTasksLocked ?v (ssEpoch (fst r)) m1 else m1)"
  define cur where "cur = (if (\<not> snd (snd r) \<and> obStream ob \<and>
      (activeHandle (fst r) = hId h \<or> inScheduledWindowLocked (mCfg m) s off)) \<and>
      cursor (fst r) < i64 (off + n) then i64 (off + n) else cursor (fst r))"
  have "advances c m m1" unfolding m1_def
    by (rule advances_trans [OF advances_markActivity advances_sessionLocked])
  moreover have "advances c m1 m2" by (simp add: m2_def cancelSessionTasksLocked_def advances_cancelTasks)
  moreover have "getSession ?v m2 = Some s"
    using sessionLocked_session [of "hFile h" ?a now] by (simp add: m1_def m2_def s_def cancelSessionTasksLocked_def)
  then have "advances c m2 (setSession ?v ((fst r)\<lparr>lastAccess := now, cursor := cur\<rparr>) m2)"
    by (rule advances_put) (simp_all add: r_def prepareSession_keeps)
  moreover have "snd (snd (prepareRead now h off n m)) =
      setSession ?v ((fst r)\<lparr>lastAccess := now, cursor := cur\<rparr>) m2"
    using False by (auto simp: prepareRead_def case_prod_beta Let_def ob_def s_def m1_def r_def m2_def cur_def)
  ultimately show ?thesis by (metis advances_trans)
qed (auto simp: prepareRead_def case_prod_beta Let_def)

lemma advances_scheduleLocked: "advances c m (snd (scheduleLocked f epoch w m))"
  by (auto simp: scheduleLocked_def Let_def split: option.split intro: advances_put)

lemma advances_Close: "advances c m (CloseManager m)"
proof (cases "mClosed m")
  case False
  let ?m = "(cancelIdleReclaimLocked m)\<lparr>mClosed := True\<rparr>"
  have "advances c m ?m"
    using False tasks_inv_cong [of ?m m]
    by (auto simp: advances_def keeps_def mgr_inv_def cancelIdleReclaimLocked_def calm_def infl_def getSession_def)
  then have "advances c m (cancelTasks (\<lambda>_. True) ?m)" by (rule advances_trans [OF _ advances_cancelTasks])
  with False show ?thesis by (simp add: CloseManager_def)
qed (simp add: CloseManager_def)

lemma advances_summary:
  "advances c m (queueSummary f cur epoch m)" "advances c m (snd (summaryDue now f m))"
  by (auto simp: queueSummary_def summaryDue_def split: option.split intro: advances_put advances_same)

section \<open>The cache\<close>

lemma disk_sync_cong:
  "diskLRU t = diskLRU s \<Longrightarrow> diskEntries t = diskEntries s \<Longrightarrow> diskReady t = diskReady s \<Longrightarrow>
   diskBytes t = diskBytes s \<Longrightarrow> disk_sync t = disk_sync s"
  by (simp add: disk_sync_def)

lemma forgetDisk_sync: "disk_sync s \<Longrightarrow> disk_sync (forgetDisk os k p s)"
  by (simp add: forgetDisk_def Let_def removeDiskLocked_sync)

lemma getWithTouch_sync:
  assumes "disk_sync s"
  shows "disk_sync (snd (getWithTouch os k touch s))"
proof (cases "memory s k")
  case (Some d)
  then show ?thesis using assms by (simp add: getWithTouch_def disk_sync_def)
next
  case None
  then show ?thesis using assms touchDiskLocked_sync [OF assms, of k]
    by (simp add: getWithTouch_miss forgetDisk_sync) (simp add: disk_sync_def)
qed

lemma cache_inv_get:
  assumes "cache_inv c cfg st ws" "key_ok k"
  shows "cache_inv c cfg (snd (getWithTouch os k touch st)) ws"
    "fst (getWithTouch os k touch st) = Some d \<Longrightarrow> chunk_is c cfg k d"
  using assms getWithTouch_coherent [of "chunk_is c cfg" st k os touch, OF _ _ prod.collapse [symmetric]]
    getWithTouch_sync [of st os k touch]
  by (simp_all add: cache_inv_def)

lemma cache_inv_length: "cache_inv c cfg st ws \<Longrightarrow> cache_inv c cfg (snd (store_length k st)) ws"
proof -
  assume inv: "cache_inv c cfg st ws"
  let ?t = "touchDiskLocked k st"
  have "store_coherent (chunk_is c cfg) ?t"
    by (rule store_coherent_less [of _ st])
      (use inv mem_ok_cong [of ?t st] in \<open>auto simp: cache_inv_def store_coherent_def\<close>)
  with inv show ?thesis
    by (auto simp: store_length_def cache_inv_def touchDiskLocked_sync split: option.split)
qed

lemma cache_inv_put: "cache_inv c cfg st ws \<Longrightarrow> chunk_is c cfg k d \<Longrightarrow> cache_inv c cfg (putMemory k d st) ws"
  by (simp add: cache_inv_def store_coherent_put) (simp add: disk_sync_def)

lemma cache_inv_forget:
  assumes "cache_inv c cfg st ws" "mem_ok t" "diskPath t = diskPath st" "files t = files st"
    "disk_sync t = disk_sync st" "\<forall>k d. memory t k = Some d \<longrightarrow> memory st k = Some d"
  shows "cache_inv c cfg t ws"
  using assms store_coherent_less [of "chunk_is c cfg" st t] by (auto simp: cache_inv_def)

lemma cache_inv_mem_ok: "cache_inv c cfg st ws \<Longrightarrow> mem_ok st"
  by (simp add: cache_inv_def store_coherent_def)

lemma cache_inv_prune: "cache_inv c cfg st ws \<Longrightarrow> cache_inv c cfg (pruneMemoryWindow v a b st) ws"
  by (rule cache_inv_forget, assumption)
    (auto simp: pruneMemoryWindow_ok cache_inv_mem_ok pruneMemoryWindow_memory disk_sync_def split: if_splits)

lemma cache_inv_remove: "cache_inv c cfg st ws \<Longrightarrow> cache_inv c cfg (removeMemoryRange v a b st) ws"
  by (rule cache_inv_forget, assumption)
    (auto simp: removeMemoryRange_ok cache_inv_mem_ok removeMemoryRange_memory disk_sync_def split: if_splits)

lemma cache_inv_clear: "cache_inv c cfg st ws \<Longrightarrow> cache_inv c cfg (snd (clearMemory st)) ws"
  by (rule cache_inv_forget, assumption)
    (auto simp: clearMemory_ok cache_inv_mem_ok, auto simp: clearMemory_def disk_sync_def)

lemma cache_inv_putDisk:
  assumes "cache_inv c cfg st ws" "key_ok k" "chunk_is c cfg k d" "temp_ok os st"
  shows "cache_inv c cfg (snd (putDisk os k d st)) ws"
  using assms putDisk_coherent [of "chunk_is c cfg" st k d os, OF _ _ _ _ prod.collapse [symmetric]]
    putDisk_sync [of st os k d, OF _ prod.collapse [symmetric]]
  by (simp add: cache_inv_def)

text \<open>A change of the store alone.\<close>

lemma advances_store:
  assumes "mgr_inv c m \<longrightarrow> cache_inv c (mCfg m) st (mDiskWrites m)"
  shows "advances c m (m\<lparr>mStore := st\<rparr>)"
  using assms by (simp add: advances_def mgr_inv_def keeps_def calm_same)

lemma mgr_inv_cache: "mgr_inv c m \<Longrightarrow> cache_inv c (mCfg m) (mStore m) (mDiskWrites m)"
  by (simp add: mgr_inv_def)

lemma advances_cacheLookup: "key_ok k \<Longrightarrow> advances c m (snd (cacheLookup os touch k m))"
  unfolding cacheLookup_def store_get_def getWithoutTouch_def
  by (auto simp: case_prod_beta Let_def intro!: advances_store dest!: mgr_inv_cache intro: cache_inv_get)

lemma advances_length: "advances c m (m\<lparr>mStore := snd (store_length k (mStore m))\<rparr>)"
  by (auto intro!: advances_store cache_inv_length dest: mgr_inv_cache)

lemma advances_schedulePrune: "advances c m (schedulePrune f w reset old m)"
  by (auto simp: schedulePrune_def intro!: advances_store cache_inv_prune cache_inv_remove dest: mgr_inv_cache)

lemma advances_putMemoryOf: "chunk_is c (mCfg m) (tKey (mObjs m t)) d \<Longrightarrow> advances c m (putMemoryOf t d m)"
  by (auto simp: putMemoryOf_def intro!: advances_store cache_inv_put dest: mgr_inv_cache)

lemma advances_diskWriter:
  assumes "temp_ok os (mStore m)"
  shows "advances c m (diskWriterStep os m)"
proof (cases "mDiskWrites m")
  case (Cons e rest)
  obtain k d where e: "e = (k, d)" by (cases e)
  let ?p = "m\<lparr>mStore := snd (putDisk os k d (mStore m))\<rparr>"
  have "advances c m ?p"
  proof (rule advances_store, rule impI)
    assume "mgr_inv c m"
    then have ci: "cache_inv c (mCfg m) (mStore m) (mDiskWrites m)" by (rule mgr_inv_cache)
    then have "key_ok k" "chunk_is c (mCfg m) k d" using Cons e by (simp_all add: cache_inv_def)
    with ci assms show "cache_inv c (mCfg m) (snd (putDisk os k d (mStore m))) (mDiskWrites m)"
      by (intro cache_inv_putDisk)
  qed
  moreover have "advances c m' (m'\<lparr>mDiskWrites := rest\<rparr>)" if "mDiskWrites m' = e # rest" for m'
    using that by (auto simp: advances_def mgr_inv_def cache_inv_def keeps_def calm_same)
  then have "advances c ?p (?p\<lparr>mDiskWrites := rest\<rparr>)" using Cons by simp
  ultimately have "advances c m (?p\<lparr>mDiskWrites := rest\<rparr>)" by (rule advances_trans)
  then show ?thesis using Cons e by (simp add: diskWriterStep_def)
qed (simp add: diskWriterStep_def)

lemma advances_queueDiskWrite:
  assumes "key_ok k" "chunk_is c (mCfg m) k d"
  shows "advances c m (queueDiskWrite k d m)"
  using assms
  by (auto simp: queueDiskWrite_def advances_def mgr_inv_def cache_inv_def keeps_def calm_same)

lemma session_inv_map:
  "session_inv ss \<Longrightarrow> session_inv (map (\<lambda>(v, s). (v, forgetSchedule s)) ss)"
  by (auto simp: session_inv_def alist_ok_def forgetSchedule_def comp_def case_prod_beta)

lemma advances_reclaim: "advances c m (fst (reclaimIdleMemory now rb epoch m))"
proof -
  have re: "advances c m (scheduleIdleReclaimAfterLocked d (m\<lparr>mIdleTimer := None\<rparr>))" for d
    by (rule advances_same) (simp_all add: scheduleIdleReclaimAfterLocked_def)
  have "advances c m (m\<lparr>mIdleTimer := None, mSessions := map (\<lambda>(v, s). (v, forgetSchedule s)) (mSessions m),
      mStore := snd (clearMemory (mStore m)), mFreeOS := q\<rparr>)" (is "advances c m ?m") for q
  proof -
    have "map_of (mSessions ?m) v = map_option forgetSchedule (map_of (mSessions m) v)" for v
      by (simp add: map_of_map)
    then have "calm m ?m" by (auto simp: calm_def infl_def getSession_def forgetSchedule_def split: option.split)
    moreover have "keeps m ?m" by (rule keeps_same) simp_all
    ultimately show ?thesis
      using tasks_inv_cong [of ?m m] by (simp add: advances_def mgr_inv_def session_inv_map cache_inv_clear)
  qed
  with re show ?thesis by (simp add: reclaimIdleMemory_def Let_def case_prod_beta)
qed

section \<open>Tasks\<close>

lemma mgr_inv_tasks: "mgr_inv c m \<Longrightarrow> tinv (chunk_is c (mCfg m)) (known c) (mCfg m) {} m"
  by (simp add: mgr_inv_def)

lemma mgr_inv_chunk: "mgr_inv c m \<Longrightarrow> 0 < ChunkSize (mCfg m)"
  by (simp add: mgr_inv_def cfg_ok_def)

text \<open>An operation that only works on tasks and queue.\<close>

lemma advances_tasks:
  assumes "mCfg m' = mCfg m" "mStore m' = mStore m" "mSessions m' = mSessions m" "mClosed m' = mClosed m"
    "mDiskWrites m' = mDiskWrites m" "mLatencies m' = mLatencies m" "keeps m m'"
    "mgr_inv c m \<longrightarrow> tinv (chunk_is c (mCfg m)) (known c) (mCfg m) {} m'"
  shows "advances c m m'"
  using assms by (simp add: advances_def mgr_inv_def calm_same)

lemma keeps_updTask: "task_keeps (mObjs m t) (f (mObjs m t)) \<Longrightarrow> keeps m (updTask t f m)"
  by (simp add: keeps_def updTask_def)

lemma updTask_simps [simp]:
  "mCfg (updTask t f m) = mCfg m" "mStore (updTask t f m) = mStore m" "mNext (updTask t f m) = mNext m"
  "mQueue (updTask t f m) = mQueue m" "mTasks (updTask t f m) = mTasks m"
  "mSessions (updTask t f m) = mSessions m" "mClosed (updTask t f m) = mClosed m"
  "mDiskWrites (updTask t f m) = mDiskWrites m" "mLatencies (updTask t f m) = mLatencies m"
  "mPanic (updTask t f m) = mPanic m"
  by (simp_all add: updTask_def)

lemma advances_markForeground: "advances c m (markForeground t m)"
proof (rule advances_tasks)
  show "keeps m (markForeground t m)"
    by (auto simp: markForeground_def task_keeps_def intro!: keeps_updTask)
  show "mgr_inv c m \<longrightarrow> tinv (chunk_is c (mCfg m)) (known c) (mCfg m) {} (markForeground t m)"
    using tinv_markForeground mgr_inv_tasks by blast
qed (simp_all add: markForeground_def)

lemma advances_startHedge: "advances c m (snd (startHedge t m))"
proof -
  let ?u = "(updTask t (\<lambda>k. k\<lparr>tHedged := True, tHedgeCancel := True\<rparr>) m)\<lparr>mHedges := mHedges m + 1\<rparr>"
  have "tinv P F cfg {} ?u" if "tinv P F cfg {} m" for P F cfg
    using that by (auto simp: same_core_def intro!: tasks_inv_updTask dest: tasks_invD)
  moreover have "keeps m (updTask t (\<lambda>k. k\<lparr>tHedged := True, tHedgeCancel := True\<rparr>) m)"
    by (rule keeps_updTask) (simp add: task_keeps_def)
  then have "keeps m ?u" by (simp add: keeps_def)
  ultimately have "advances c m ?u" by (intro advances_tasks) (auto dest: mgr_inv_tasks)
  then show ?thesis
    by (auto simp: startHedge_def Let_def split: option.split intro: advances_trans [OF _ advances_put])
qed

lemma keeps_alloc: "keeps m (snd (allocTask i k m))"
  by (simp add: keeps_def allocTask_def)

lemma advances_allocFinished:
  assumes "mgr_inv c m \<longrightarrow> chunk_is c (mCfg m) key d"
  shows "advances c m (snd (allocTask 0 (finishedTask key f epoch prio d) m))"
proof (rule advances_tasks)
  show "mgr_inv c m \<longrightarrow> tinv (chunk_is c (mCfg m)) (known c) (mCfg m) {}
     (snd (allocTask 0 (finishedTask key f epoch prio d) m))"
    using assms tasks_inv_alloc [OF mgr_inv_tasks task_ok_finished] by (simp add: finishedTask_def)
qed (simp_all add: keeps_alloc, simp_all add: allocTask_def)

lemma fixQueue_simps [simp]:
  "mCfg (fixQueue i m) = mCfg m" "mStore (fixQueue i m) = mStore m" "mNext (fixQueue i m) = mNext m"
  "mObjs (fixQueue i m) = mObjs m" "mSessions (fixQueue i m) = mSessions m" "mClosed (fixQueue i m) = mClosed m"
  "mDiskWrites (fixQueue i m) = mDiskWrites m" "mLatencies (fixQueue i m) = mLatencies m"
  by (simp_all add: fixQueue_def)

lemma ensureTaskLocked_frame [simp]:
  "mCfg (snd (ensureTaskLocked f i e p m)) = mCfg m" "mStore (snd (ensureTaskLocked f i e p m)) = mStore m"
  "mSessions (snd (ensureTaskLocked f i e p m)) = mSessions m"
  "mClosed (snd (ensureTaskLocked f i e p m)) = mClosed m"
  "mDiskWrites (snd (ensureTaskLocked f i e p m)) = mDiskWrites m"
  "mLatencies (snd (ensureTaskLocked f i e p m)) = mLatencies m"
  by (simp_all add: ensureTaskLocked_def Let_def allocTask_def split: option.split)

lemma keeps_ensureTaskLocked: "keeps m (snd (ensureTaskLocked f i e p m))"
  by (auto simp: ensureTaskLocked_def Let_def keeps_def allocTask_def updTask_def task_keeps_def
      split: option.split)

lemma advances_ensureTaskLocked:
  assumes "known c f" "idx_ok (mCfg m) i"
  shows "advances c m (snd (ensureTaskLocked f i e p m))"
proof (rule advances_tasks)
  show "mgr_inv c m \<longrightarrow> tinv (chunk_is c (mCfg m)) (known c) (mCfg m) {} (snd (ensureTaskLocked f i e p m))"
    using assms chunk_is_empty [OF assms] mgr_inv_chunk [of c m] tinv_ensureTaskLocked [OF mgr_inv_tasks, of c m f i]
    by blast
qed (simp_all add: keeps_ensureTaskLocked)

text \<open>The task \<open>ensureTask\<close> returns is an allocated one for the chunk asked for.\<close>

lemma ensureTaskLocked_key:
  assumes "mgr_inv c m" "fst (ensureTaskLocked f i e p m) = Some t"
  shows "t < mNext (snd (ensureTaskLocked f i e p m)) \<and>
         tKey (mObjs (snd (ensureTaskLocked f i e p m)) t) = keyOf m f i"
proof (cases "liveTask m (keyOf m f i)")
  case None
  with assms(2) show ?thesis
    by (auto simp: ensureTaskLocked_def Let_def allocTask_def finishedTask_def newTask_def emptyTask_def split: if_splits)
next
  case (Some u)
  then have "map_of (mTasks m) (keyOf m f i) = Some u"
    by (auto simp: liveTask_def split: option.splits if_splits)
  with tasks_invD(6) [OF mgr_inv_tasks [OF assms(1)]] have "u < mNext m" "tKey (mObjs m u) = keyOf m f i" by auto
  with Some assms(2) show ?thesis by (auto simp: ensureTaskLocked_def updTask_def split: if_splits)
qed

lemma advances_ensureTask:
  assumes "known c f" "idx_ok (mCfg m) i" "0 < ChunkSize (mCfg m)"
  shows "advances c m (snd (ensureTask os f i e p m))"
proof -
  let ?g = "getWithTouch os (keyOf m f i) True (mStore m)" and ?m = "m\<lparr>mStore := snd (getWithTouch os (keyOf m f i) True (mStore m))\<rparr>"
  have k: "key_ok (keyOf m f i)" using assms by (rule known_key_ok)
  have a: "advances c m ?m"
    using cache_inv_get(1) [OF mgr_inv_cache k] by (intro advances_store) blast
  show ?thesis
  proof (cases "fst ?g")
    case None
    have "advances c ?m (snd (ensureTaskLocked f i e p ?m))"
      using assms by (intro advances_ensureTaskLocked) simp_all
    with a None show ?thesis by (auto simp: ensureTask_def store_get_def Let_def case_prod_beta intro: advances_trans)
  next
    case (Some d)
    have "advances c m (snd (allocTask 0 (finishedTask (keyOf m f i) f e p d) ?m))"
    proof -
      have d: "mgr_inv c m \<longrightarrow> chunk_is c (mCfg m) (keyOf m f i) d"
        using cache_inv_get(2) [OF mgr_inv_cache k Some] by blast
      have "keeps m ?m \<and> (mgr_inv c m \<longrightarrow> advances c ?m (snd (allocTask 0 (finishedTask (keyOf m f i) f e p d) ?m)))"
        using d by (auto simp: keeps_same intro!: advances_allocFinished)
      moreover have "keeps ?m (snd (allocTask 0 (finishedTask (keyOf m f i) f e p d) ?m))" by (rule keeps_alloc)
      ultimately show ?thesis
        using a advances_trans [OF a] keeps_trans unfolding advances_def by blast
    qed
    with Some show ?thesis by (simp add: ensureTask_def store_get_def Let_def case_prod_beta)
  qed
qed

section \<open>Finishing and dispatching\<close>

lemma keeps_settle:
  assumes "\<not> tFinished (mObjs m t)" "\<not> tDone (f (mObjs m t))"
    "task_keeps (mObjs m t) (f (mObjs m t))"
  shows "keeps m (settle t f m)"
  using assms by (auto simp: keeps_def settle_objs task_keeps_def)

lemma advances_publishLocked:
  assumes "t < mNext m" "chunk_is c (mCfg m) (tKey (mObjs m t)) d" "mgr_inv c m"
  shows "advances c m (snd (publishLocked t d m))"
proof (cases "tFinished (mObjs m t)")
  case False
  let ?f = "\<lambda>k. k\<lparr>tFinished := True, tData := d, tHedgeCancel := False, tCanceled := (tCanceled k \<or> tHasCtx k)\<rparr>"
  have "\<not> tDone (mObjs m t)" using tasks_invD(8) [OF mgr_inv_tasks [OF assms(3)] assms(1)] False by simp
  then have "keeps m (settle t ?f m)" using False by (intro keeps_settle) (auto simp: task_keeps_def)
  moreover have "snd (publishLocked t d m) = settle t ?f m" using False by (simp add: publishLocked_def)
  ultimately show ?thesis
    using tinv_publishLocked [OF mgr_inv_tasks [OF assms(3)] assms(1,2)]
    by (intro advances_tasks) simp_all
qed (simp add: publishLocked_def)

lemma infl_nonneg: "mgr_inv c m \<Longrightarrow> 0 \<le> infl m v"
  using session_inv_get [of m v] by (auto simp: mgr_inv_def infl_def split: option.split)

lemma infl_releaseWorker:
  "infl (releaseWorker t m) v =
     (if v = ckVersion (tKey (mObjs m t)) \<and> tStarted (mObjs m t) \<and> 0 < infl m v
      then infl m v - 1 else infl m v)"
  by (auto simp: infl_def releaseWorker_def onSession_def split: option.split)

lemma session_inv_releaseWorker:
  "session_inv (mSessions m) \<Longrightarrow> session_inv (mSessions (releaseWorker t m))"
  by (auto simp: releaseWorker_def onSession_def setSession_def split: option.split
      intro!: session_inv_update dest: session_inv_get)

lemma session_inv_resetStreak:
  "session_inv (mSessions m) \<Longrightarrow> session_inv (mSessions (resetStreak t m))"
  by (auto simp: resetStreak_def onSession_def setSession_def split: option.split
      intro!: session_inv_update dest: session_inv_get)

lemma infl_resetStreak [simp]: "infl (resetStreak t m) v = infl m v"
  by (simp add: infl_def resetStreak_def onSession_def split: option.split)

lemma closeDone_simps [simp]:
  "mCfg (closeDone t m) = mCfg m" "mStore (closeDone t m) = mStore m" "mSessions (closeDone t m) = mSessions m"
  "mClosed (closeDone t m) = mClosed m" "mDiskWrites (closeDone t m) = mDiskWrites m"
  "mLatencies (closeDone t m) = mLatencies m" "mNext (closeDone t m) = mNext m"
  by (simp_all add: closeDone_def)

lemma unregister_simps [simp]:
  "mCfg (unregister t m) = mCfg m" "mStore (unregister t m) = mStore m"
  "mSessions (unregister t m) = mSessions m" "mClosed (unregister t m) = mClosed m"
  "mDiskWrites (unregister t m) = mDiskWrites m" "mLatencies (unregister t m) = mLatencies m"
  "mNext (unregister t m) = mNext m" "mObjs (unregister t m) = mObjs m"
  by (simp_all add: unregister_def Let_def)

lemma releaseWorker_simps [simp]:
  "mCfg (releaseWorker t m) = mCfg m" "mStore (releaseWorker t m) = mStore m"
  "mClosed (releaseWorker t m) = mClosed m" "mDiskWrites (releaseWorker t m) = mDiskWrites m"
  "mLatencies (releaseWorker t m) = mLatencies m" "mNext (releaseWorker t m) = mNext m"
  "mObjs (releaseWorker t m) = mObjs m"
  by (simp_all add: releaseWorker_def)

lemma latency_inv_record: "latency_inv (mLatencies m) \<Longrightarrow> latency_inv (mLatencies (recordLatencyLocked l m))"
  by (auto simp: latency_inv_def recordLatencyLocked_def dest!: set_update_subset_insert [THEN subsetD])

lemma latency_inv_note: "latency_inv (mLatencies m) \<Longrightarrow> latency_inv (mLatencies (noteLatency now t e m))"
  by (simp add: noteLatency_def latency_inv_record split: option.split)

text \<open>After \<open>finishTask\<close> the session counts one download less.\<close>

lemma finishLocked_advances:
  assumes inv: "mgr_inv c m" and t: "t < mNext m" and d: "err = None \<longrightarrow> chunk_is c (mCfg m) (tKey (mObjs m t)) d"
  shows "advances c m (snd (finishLocked now t d err m))"
    "tStarted (mObjs m t) \<Longrightarrow> infl (snd (finishLocked now t d err m)) (ckVersion (tKey (mObjs m t)))
       \<le> max 0 (infl m (ckVersion (tKey (mObjs m t))) - 1)"
proof -
  let ?v = "ckVersion (tKey (mObjs m t))" and ?m = "releaseWorker t m"
  let ?f = "\<lambda>k. k\<lparr>tHedgeCancel := False, tFinished := True, tData := d, tErr := err\<rparr>"
  define M where "M = (if tFinished (mObjs m t) then ?m else
    closeDone t (resetStreak t (noteLatency now t err (unregister t (updTask t ?f ?m)))))"
  have fin: "snd (finishLocked now t d err m) = cleanupSessionLocked ?v M"
    by (simp add: finishLocked_def Let_def M_def)
  have infl: "infl M v = infl ?m v" for v
    by (simp add: M_def infl_def getSession_def) (simp add: resetStreak_def onSession_def setSession_def getSession_def split: option.split)
  have fr: "mCfg M = mCfg m" "mStore M = mStore m" "mDiskWrites M = mDiskWrites m"
    by (simp_all add: M_def)
  have calm: "calm m M" by (simp add: calm_def infl infl_releaseWorker)
  have tin: "tinv (chunk_is c (mCfg m)) (known c) (mCfg m) {} M"
    using tinv_finishLocked [OF mgr_inv_tasks [OF inv] t d, of now] unfolding fin by simp
  have si: "session_inv (mSessions M)"
    using inv by (simp add: M_def mgr_inv_def session_inv_releaseWorker session_inv_resetStreak)
  have "latency_inv (mLatencies M)" using inv by (simp add: M_def mgr_inv_def latency_inv_note)
  moreover have nd: "\<not> tDone (mObjs m t)" if "\<not> tFinished (mObjs m t)"
    using tasks_invD(8) [OF mgr_inv_tasks [OF inv] t] that by simp
  have "keeps m M"
    using nd by (auto simp: M_def keeps_def closeDone_def updTask_def task_keeps_def)
  ultimately have "advances c m M"
    using inv tin si calm fr by (simp add: advances_def mgr_inv_def)
  then show adv: "advances c m (snd (finishLocked now t d err m))"
    unfolding fin by (rule advances_trans [OF _ advances_cleanup])
  assume st: "tStarted (mObjs m t)"
  have "calm M (cleanupSessionLocked ?v M)"
    using advances_cleanup [of c M ?v] \<open>advances c m M\<close> inv by (simp add: advances_def)
  then have "infl (cleanupSessionLocked ?v M) ?v \<le> infl M ?v" by (simp add: calm_def)
  also have "\<dots> \<le> max 0 (infl m ?v - 1)" using st infl_nonneg [OF inv, of ?v] by (simp add: infl infl_releaseWorker)
  finally show "infl (snd (finishLocked now t d err m)) ?v \<le> max 0 (infl m ?v - 1)" unfolding fin .
qed

text \<open>The scan of the queue: what it does to everything but the queue.\<close>

definition started_by :: "mgr \<Rightarrow> nextOutcome \<Rightarrow> string \<Rightarrow> int" where
  "started_by m r v = (case r of NextTask t \<Rightarrow> if v = ckVersion (tKey (mObjs m t)) then 1 else 0 | _ \<Rightarrow> 0)"

definition scan_ok :: "mgr \<Rightarrow> nextOutcome \<Rightarrow> mgr \<Rightarrow> bool" where
  "scan_ok m r m' \<longleftrightarrow>
     keeps m m' \<and> mStore m' = mStore m \<and> mDiskWrites m' = mDiskWrites m \<and> mLatencies m' = mLatencies m \<and>
     mClosed m' = mClosed m \<and>
     (session_inv (mSessions m) \<longrightarrow> session_inv (mSessions m') \<and> (\<forall>v. infl m' v \<le> infl m v + started_by m r v)) \<and>
     (\<forall>t. r = NextTask t \<longrightarrow> tStarted (mObjs m' t))"

lemma pushAll_simps [simp]:
  "mObjs (pushAll ts m) = mObjs m" "mNext (pushAll ts m) = mNext m" "mCfg (pushAll ts m) = mCfg m"
  "mStore (pushAll ts m) = mStore m" "mSessions (pushAll ts m) = mSessions m"
  "mClosed (pushAll ts m) = mClosed m" "mDiskWrites (pushAll ts m) = mDiskWrites m"
  "mLatencies (pushAll ts m) = mLatencies m"
  unfolding pushAll_def by (induction ts arbitrary: m) simp_all

lemma session_inv_cleanup: "session_inv (mSessions m) \<Longrightarrow> session_inv (mSessions (cleanupSessionLocked v m))"
  by (simp add: cleanupSessionLocked_def session_inv_delete split: option.split)

lemma infl_cleanup: "session_inv (mSessions m) \<Longrightarrow> infl (cleanupSessionLocked v m) w \<le> infl m w"
  using session_inv_get [of m v]
  by (auto simp: cleanupSessionLocked_def infl_def getSession_def split: option.split)

lemma cleanup_simps [simp]:
  "mObjs (cleanupSessionLocked v m) = mObjs m" "mNext (cleanupSessionLocked v m) = mNext m"
  "mClosed (cleanupSessionLocked v m) = mClosed m" "mCfg (cleanupSessionLocked v m) = mCfg m"
  by (simp_all add: cleanupSessionLocked_def split: option.split)

lemma discard_scan:
  assumes "\<not> tFinished (mObjs m t)"
  shows "keeps m (discardCanceledTaskLocked t m)"
    "session_inv (mSessions m) \<Longrightarrow> session_inv (mSessions (discardCanceledTaskLocked t m))"
    "session_inv (mSessions m) \<Longrightarrow> infl (discardCanceledTaskLocked t m) v \<le> infl m v"
    "tKey (mObjs (discardCanceledTaskLocked t m) u) = tKey (mObjs m u)"
proof -
  let ?s = "settle t (\<lambda>k. k\<lparr>tFinished := True, tErr := ctxErr m t\<rparr>) m"
  have eq: "discardCanceledTaskLocked t m = cleanupSessionLocked (ckVersion (tKey (mObjs m t))) ?s"
    using assms by (simp add: discardCanceledTaskLocked_def)
  have ob: "task_keeps (mObjs m u) (mObjs ?s u)" "tKey (mObjs ?s u) = tKey (mObjs m u)" for u
    using assms by (simp_all add: closeDone_def task_keeps_def updTask_def unregister_def Let_def)
  then show "keeps m (discardCanceledTaskLocked t m)" by (simp add: eq keeps_def)
  show "tKey (mObjs (discardCanceledTaskLocked t m) u) = tKey (mObjs m u)" by (simp add: eq ob)
  have "infl ?s v = infl m v" by (simp add: infl_def getSession_def)
  then show "session_inv (mSessions m) \<Longrightarrow> session_inv (mSessions (discardCanceledTaskLocked t m))"
    "session_inv (mSessions m) \<Longrightarrow> infl (discardCanceledTaskLocked t m) v \<le> infl m v"
    using infl_cleanup [of ?s _ v] by (simp_all add: eq session_inv_cleanup)
qed

lemma getSession_frame [simp]:
  "getSession v (updTask t f m) = getSession v m" "getSession v (m\<lparr>mQueue := q\<rparr>) = getSession v m"
  by (simp_all add: getSession_def)

lemma scan_ok_start:
  "\<not> tFinished (mObjs m t) \<Longrightarrow> scan_ok m (NextTask t) (pushAll sk (startTask now t (m\<lparr>mQueue := q\<rparr>)))"
proof -
  assume "\<not> tFinished (mObjs m t)"
  have "session_inv (mSessions (startTask now t (m\<lparr>mQueue := q\<rparr>)))" if "session_inv (mSessions m)"
    using that session_inv_get [OF that]
    by (auto simp: startTask_def onSession_def setSession_def split: option.split intro!: session_inv_update)
  then show ?thesis
    by (auto simp: scan_ok_def keeps_def startTask_def started_by_def infl_def getSession_def onSession_def
        setSession_def updTask_def task_keeps_def split: option.split)
qed

lemma scan_ok_step:
  assumes "scan_ok a r b" "keeps m a" "\<forall>u. tKey (mObjs a u) = tKey (mObjs m u)" "mStore a = mStore m"
    "mDiskWrites a = mDiskWrites m" "mLatencies a = mLatencies m" "mClosed a = mClosed m"
    "session_inv (mSessions m) \<longrightarrow> session_inv (mSessions a) \<and> (\<forall>v. infl a v \<le> infl m v)"
  shows "scan_ok m r b"
proof -
  have sb: "started_by a r v = started_by m r v" for v
    using assms(3) by (simp add: started_by_def split: nextOutcome.split)
  have "infl b v \<le> infl m v + started_by m r v" if "session_inv (mSessions m)" for v
  proof -
    have "infl b v \<le> infl a v + started_by m r v" "infl a v \<le> infl m v"
      using assms(1,8) that by (simp_all add: scan_ok_def sb)
    then show ?thesis by linarith
  qed
  then show ?thesis
    using assms keeps_trans [of m a b] unfolding scan_ok_def by simp
qed

lemma nextScan_scan_ok: "scan_ok m (fst (nextScan now sk m)) (snd (nextScan now sk m))"
proof (induction now sk m rule: nextScan.induct)
  case (1 now sk m)
  show ?case
  proof (cases "hItems (mQueue m) = []")
    case True
    then show ?thesis
      by (simp add: nextScan.simps [of now sk m] scan_ok_def keeps_same infl_def getSession_def started_by_def)
  next
    case False
    let ?t = "fst (popQueue m)" and ?m = "snd (popQueue m)"
    have pop: "?m = m\<lparr>mQueue := mQueue ?m\<rparr>" by (simp add: popQueue_def split: prod.split)
    have pk: "keeps m ?m" "infl ?m v = infl m v" for v by (simp_all add: keeps_same infl_def getSession_def)
    have step: "scan_ok ?m r b \<Longrightarrow> scan_ok m r b" for r b
      by (erule scan_ok_step) (simp_all add: pk)
    note eq = nextScan.simps [of now sk m, unfolded Let_def]
    consider "tFinished (mObjs ?m ?t)"
      | "\<not> tFinished (mObjs ?m ?t)" "ctxErr ?m ?t \<noteq> None"
      | "\<not> tFinished (mObjs ?m ?t)" "ctxErr ?m ?t = None" "overLimit ?m ?t"
      | "\<not> tFinished (mObjs ?m ?t)" "ctxErr ?m ?t = None" "\<not> overLimit ?m ?t"
      by blast
    then show ?thesis
    proof cases
      case 1
      then show ?thesis using False "1.IH"(1) [OF False refl refl 1] by (simp add: eq step)
    next
      case 2
      note d = discard_scan [OF 2(1)]
      have "scan_ok ?m r b" if "scan_ok (discardCanceledTaskLocked ?t ?m) r b" for r b
        using that by (rule scan_ok_step) (use d in auto)
      then show ?thesis using False 2 "1.IH"(2) [OF False refl refl 2] by (simp add: eq step)
    next
      case 3
      then show ?thesis using False "1.IH"(3) [OF False refl refl 3(1) _ 3(3)] by (simp add: eq step)
    next
      case 4
      then have "scan_ok m (NextTask ?t) (pushAll sk (startTask now ?t ?m))"
        using scan_ok_start [of m ?t sk now "mQueue ?m"] pop by simp
      then show ?thesis using False 4 by (simp add: eq)
    qed
  qed
qed

lemma nextTask_scan_ok: "scan_ok m (fst (nextTask now m)) (snd (nextTask now m))"
  using nextScan_scan_ok [of m now "[]"]
  by (simp add: nextTask_def) (simp add: scan_ok_def started_by_def)

lemma nextTask_inv: "mgr_inv c m \<Longrightarrow> mgr_inv c (snd (nextTask now m))"
  using nextTask_scan_ok [of m now] tinv_nextTask [OF mgr_inv_tasks, of c m now]
  by (auto simp: mgr_inv_def scan_ok_def keeps_def)

text \<open>\<open>download\<close> only counts.\<close>

abbreviation attemptErr :: "bytes \<times> goerr option \<Rightarrow> goerr option" where
  "attemptErr r \<equiv> Some (case snd r of None \<Rightarrow> ErrUnexpectedEOF | Some e \<Rightarrow> e)"

lemma downloadLoop_Suc:
  "downloadLoop reads ctxAt k a (Suc n) e m =
     (if snd (reads a) = None \<and> len (fst (reads a)) = tLength k
      then ((fst (reads a), None), m\<lparr>mDownloaded := mDownloaded m + len (fst (reads a))\<rparr>)
      else if ctxAt a \<noteq> None then (([], ctxAt a), m)
      else downloadLoop reads ctxAt k (a + 1) n (attemptErr (reads a)) (m\<lparr>mRetries := mRetries m + 1\<rparr>))"
  by (simp add: case_prod_beta Let_def)

declare downloadLoop.simps(2) [simp del]

lemma downloadLoop_mgr:
  "mObjs (snd (downloadLoop reads ctxAt k a n e m)) = mObjs m \<and>
   advances c m (snd (downloadLoop reads ctxAt k a n e m)) \<and>
   mSessions (snd (downloadLoop reads ctxAt k a n e m)) = mSessions m \<and>
   mNext (snd (downloadLoop reads ctxAt k a n e m)) = mNext m"
proof (induction n arbitrary: a e m)
  case (Suc n)
  have "advances c m (m\<lparr>mDownloaded := x\<rparr>)" "advances c m (m\<lparr>mRetries := y\<rparr>)" for x y
    by (rule advances_same; simp)+
  then show ?case
    using Suc [of "a + 1" "attemptErr (reads a)" "m\<lparr>mRetries := mRetries m + 1\<rparr>"]
    by (auto simp: downloadLoop_Suc intro: advances_trans)
qed simp

text \<open>A result without error is a full read of one of the attempts.\<close>

lemma downloadLoop_result:
  "snd (fst (downloadLoop reads ctxAt k a n e m)) = None \<Longrightarrow>
   \<exists>i. reads i = (fst (fst (downloadLoop reads ctxAt k a n e m)), None) \<and>
       len (fst (fst (downloadLoop reads ctxAt k a n e m))) = tLength k"
proof (induction n arbitrary: a e m)
  case (Suc n)
  show ?case
  proof (cases "snd (reads a) = None \<and> len (fst (reads a)) = tLength k")
    case True
    then have "reads a = (fst (reads a), None)" by (metis prod.collapse)
    with True show ?thesis by (auto simp: downloadLoop_Suc)
  next
    case False
    have r: "ctxAt a = None" using Suc.prems False by (auto simp: downloadLoop_Suc split: if_splits)
    then have "downloadLoop reads ctxAt k a (Suc n) e m =
      downloadLoop reads ctxAt k (a + 1) n (attemptErr (reads a)) (m\<lparr>mRetries := mRetries m + 1\<rparr>)"
      using False by (auto simp: downloadLoop_Suc)
    then show ?thesis using Suc.IH Suc.prems by simp
  qed
qed simp

end
