(* ===== verification/StreamSystem.thy ===== *)
theory StreamSystem
  imports StreamInvariant Transition
begin

text \<open>
  The running stream engine: the manager together with its goroutines. Workers, hedge
  goroutines and the disk writer have a program counter each; callers of the manager run any of its
  critical sections at any time. One step is one critical section (or one call of the reader, one
  channel operation), so the relation contains every interleaving.

  The system interprets the locale \<open>transition_system\<close>.
\<close>

section \<open>Goroutines\<close>

text \<open>A worker is idle in \<open>nextTask\<close>, downloading, about to put a chunk into memory, about to enter the
  critical section of \<open>finishTask\<close>, about to queue a disk write, or gone.\<close>

datatype wpc =
    WIdle
  | WDownload nat
  | WPut nat bytes
  | WFinish nat bytes "goerr option"
  | WDisk chunkKey bytes
  | WExit

datatype hpc =
    HRead nat
  | HPut nat bytes
  | HPublish nat bytes
  | HDisk chunkKey bytes
  | HDone

record sys =
  sMgr :: mgr
  sWorkers :: "wpc list"
  sHedges :: "hpc list"
  sDiskClosed :: bool
  sBadSend :: bool

text \<open>The send in \<open>queueDiskWrite\<close> panics on a closed channel.\<close>

definition sendDisk :: "chunkKey \<Rightarrow> bytes \<Rightarrow> sys \<Rightarrow> sys" where
  "sendDisk k d s = s\<lparr>sMgr := queueDiskWrite k d (sMgr s),
     sBadSend := sBadSend s \<or> sDiskClosed s \<and> \<not> diskOff (mStore (sMgr s)) \<and> d \<noteq> []\<rparr>"

section \<open>Critical sections of callers, timers and the disk writer\<close>

inductive mop :: "content \<Rightarrow> mgr \<Rightarrow> mgr \<Rightarrow> bool" for c where
  mop_open: "known c f \<Longrightarrow> mop c m (snd (OpenHandle now f m))"
| mop_release: "known c (hFile h) \<Longrightarrow> mop c m (snd (Release now h m))"
| mop_prepare: "known c (hFile h) \<Longrightarrow> mop c m (snd (snd (prepareRead now h off n m)))"
| mop_schedule: "known c f \<Longrightarrow> mop c m (snd (scheduleLocked f epoch w m))"
| mop_prune: "mop c m (schedulePrune f w reset old m)"
| mop_lookup: "key_ok k \<Longrightarrow> mop c m (snd (cacheLookup os touch k m))"
| mop_length: "mop c m (m\<lparr>mStore := snd (store_length k (mStore m))\<rparr>)"
| mop_hit: "known c f \<Longrightarrow> idx_ok (mCfg m) i \<Longrightarrow> store_get os (keyOf m f i) (mStore m) = (Some d, st) \<Longrightarrow>
    mop c m (snd (allocTask 0 (finishedTask (keyOf m f i) f epoch prio d) (m\<lparr>mStore := st\<rparr>)))"
| mop_ensure: "known c f \<Longrightarrow> idx_ok (mCfg m) i \<Longrightarrow> mop c m (snd (ensureTaskLocked f i epoch prio m))"
| mop_mark: "t < mNext m \<Longrightarrow> mop c m (markForeground t m)"
| mop_summary: "mop c m (queueSummary f cur epoch m)"
| mop_summaryDue: "mop c m (snd (summaryDue now f m))"
| mop_summaryTake: "mSummaries m = r # rs \<Longrightarrow> mop c m (m\<lparr>mSummaries := rs\<rparr>)"
| mop_idle: "mop c m (fst (reclaimIdleMemory now rb epoch m))"
| mop_freeOS: "mFreeOS m = r # rs \<Longrightarrow> mop c m (m\<lparr>mFreeOS := rs\<rparr>)"
| mop_writer: "temp_ok os (mStore m) \<Longrightarrow> mop c m (diskWriterStep os m)"
| mop_close: "mop c m (CloseManager m)"

lemma mop_advances: "mop c m m' \<Longrightarrow> mgr_inv c m \<Longrightarrow> advances c m m'"
proof (induction rule: mop.induct)
  case (mop_hit f m i os d st epoch prio)
  then have k: "key_ok (keyOf m f i)" by (intro known_key_ok) (auto simp: mgr_inv_chunk)
  have g: "getWithTouch os (keyOf m f i) True (mStore m) = (Some d, st)" using mop_hit by (simp add: store_get_def)
  have "advances c m (m\<lparr>mStore := st\<rparr>)"
    using cache_inv_get(1) [OF mgr_inv_cache k, of c m os True] g by (intro advances_store) auto
  moreover have "advances c (m\<lparr>mStore := st\<rparr>)
      (snd (allocTask 0 (finishedTask (keyOf m f i) f epoch prio d) (m\<lparr>mStore := st\<rparr>)))"
    using cache_inv_get(2) [OF mgr_inv_cache [OF mop_hit(4)] k, of os True d] g
    by (intro advances_allocFinished) simp
  ultimately show ?case by (rule advances_trans)
next
  case (mop_summaryTake m r rs)
  show ?case by (rule advances_same) simp_all
next
  case (mop_freeOS m r rs)
  show ?case by (rule advances_same) simp_all
qed (simp_all add: advances_OpenHandle advances_Release advances_prepareRead advances_scheduleLocked
    advances_schedulePrune advances_cacheLookup advances_length advances_ensureTaskLocked
    advances_markForeground advances_summary advances_reclaim advances_diskWriter advances_Close)

section \<open>Steps of the system\<close>

inductive sys_step :: "content \<Rightarrow> sys \<Rightarrow> sys \<Rightarrow> bool" for c where
  client: "mop c (sMgr s) m' \<Longrightarrow> sys_step c s (s\<lparr>sMgr := m'\<rparr>)"
| next_task: "i < length (sWorkers s) \<Longrightarrow> sWorkers s ! i = WIdle \<Longrightarrow> nextTask now (sMgr s) = (NextTask t, m') \<Longrightarrow>
    sys_step c s (s\<lparr>sMgr := m', sWorkers := (sWorkers s)[i := WDownload t]\<rparr>)"
| next_wait: "i < length (sWorkers s) \<Longrightarrow> sWorkers s ! i = WIdle \<Longrightarrow> nextTask now (sMgr s) = (NextWait, m') \<Longrightarrow>
    sys_step c s (s\<lparr>sMgr := m'\<rparr>)"
| next_closed: "i < length (sWorkers s) \<Longrightarrow> sWorkers s ! i = WIdle \<Longrightarrow> nextTask now (sMgr s) = (NextClosed, m') \<Longrightarrow>
    sys_step c s (s\<lparr>sMgr := m', sWorkers := (sWorkers s)[i := WExit]\<rparr>)"
| dl_ok: "i < length (sWorkers s) \<Longrightarrow> sWorkers s ! i = WDownload t \<Longrightarrow>
    \<forall>a. reader_ok c (mObjs (sMgr s) t) (reads a) \<Longrightarrow>
    download reads ctxAt t (sMgr s) = ((d, None), m') \<Longrightarrow>
    sys_step c s (s\<lparr>sMgr := m', sWorkers := (sWorkers s)[i := WPut t d]\<rparr>)"
| dl_err: "i < length (sWorkers s) \<Longrightarrow> sWorkers s ! i = WDownload t \<Longrightarrow>
    download reads ctxAt t (sMgr s) = ((d, Some e), m') \<Longrightarrow>
    sys_step c s (s\<lparr>sMgr := m', sWorkers := (sWorkers s)[i := WFinish t d (Some e)]\<rparr>)"
| w_put: "i < length (sWorkers s) \<Longrightarrow> sWorkers s ! i = WPut t d \<Longrightarrow>
    sys_step c s (s\<lparr>sMgr := putMemoryOf t d (sMgr s), sWorkers := (sWorkers s)[i := WFinish t d None]\<rparr>)"
| w_finish: "i < length (sWorkers s) \<Longrightarrow> sWorkers s ! i = WFinish t d e \<Longrightarrow>
    finishLocked now t d e (sMgr s) = (queue, m') \<Longrightarrow>
    sys_step c s (s\<lparr>sMgr := m', sWorkers := (sWorkers s)[i :=
      if queue then WDisk (tKey (mObjs (sMgr s) t)) d else WIdle]\<rparr>)"
| w_disk: "i < length (sWorkers s) \<Longrightarrow> sWorkers s ! i = WDisk k d \<Longrightarrow>
    sys_step c s (sendDisk k d (s\<lparr>sWorkers := (sWorkers s)[i := WIdle]\<rparr>))"
| h_start: "t < mNext (sMgr s) \<Longrightarrow> startHedge t (sMgr s) = (Some invalidate, m') \<Longrightarrow>
    sys_step c s (s\<lparr>sMgr := m', sHedges := sHedges s @ [HRead t]\<rparr>)"
| h_read: "i < length (sHedges s) \<Longrightarrow> sHedges s ! i = HRead t \<Longrightarrow>
    reader_ok c (mObjs (sMgr s) t) (d, None) \<Longrightarrow> len d = tLength (mObjs (sMgr s) t) \<Longrightarrow>
    sys_step c s (s\<lparr>sHedges := (sHedges s)[i := HPut t d]\<rparr>)"
| h_fail: "i < length (sHedges s) \<Longrightarrow> sHedges s ! i = HRead t \<Longrightarrow>
    sys_step c s (s\<lparr>sHedges := (sHedges s)[i := HDone]\<rparr>)"
| h_put: "i < length (sHedges s) \<Longrightarrow> sHedges s ! i = HPut t d \<Longrightarrow>
    sys_step c s (s\<lparr>sMgr := putMemoryOf t d (sMgr s), sHedges := (sHedges s)[i := HPublish t d]\<rparr>)"
| h_publish: "i < length (sHedges s) \<Longrightarrow> sHedges s ! i = HPublish t d \<Longrightarrow>
    publishLocked t d (sMgr s) = (True, m') \<Longrightarrow>
    sys_step c s (s\<lparr>sMgr := m'\<lparr>mDownloaded := mDownloaded m' + len d\<rparr>,
      sHedges := (sHedges s)[i := HDisk (tKey (mObjs (sMgr s) t)) d]\<rparr>)"
| h_late: "i < length (sHedges s) \<Longrightarrow> sHedges s ! i = HPublish t d \<Longrightarrow>
    publishLocked t d (sMgr s) = (False, m') \<Longrightarrow>
    sys_step c s (s\<lparr>sMgr := m', sHedges := (sHedges s)[i := HDone]\<rparr>)"
| h_disk: "i < length (sHedges s) \<Longrightarrow> sHedges s ! i = HDisk k d \<Longrightarrow>
    sys_step c s (sendDisk k d (s\<lparr>sHedges := (sHedges s)[i := HDone]\<rparr>))"
| close_disk: "mClosed (sMgr s) \<Longrightarrow> set (sWorkers s) \<subseteq> {WExit} \<Longrightarrow> set (sHedges s) \<subseteq> {HDone} \<Longrightarrow>
    sys_step c s (s\<lparr>sDiskClosed := True\<rparr>)"

section \<open>The invariant of the system\<close>

fun wtask :: "wpc \<Rightarrow> nat option" where
  "wtask (WDownload t) = Some t"
| "wtask (WPut t d) = Some t"
| "wtask (WFinish t d e) = Some t"
| "wtask _ = None"

fun wpc_ok :: "content \<Rightarrow> mgr \<Rightarrow> wpc \<Rightarrow> bool" where
  "wpc_ok c m (WDownload t) = True"
| "wpc_ok c m (WPut t d) = chunk_is c (mCfg m) (tKey (mObjs m t)) d"
| "wpc_ok c m (WFinish t d e) = (e = None \<longrightarrow> chunk_is c (mCfg m) (tKey (mObjs m t)) d)"
| "wpc_ok c m (WDisk k d) = (key_ok k \<and> chunk_is c (mCfg m) k d)"
| "wpc_ok c m WIdle = True"
| "wpc_ok c m WExit = mClosed m"

fun hpc_ok :: "content \<Rightarrow> mgr \<Rightarrow> hpc \<Rightarrow> bool" where
  "hpc_ok c m (HRead t) = (t < mNext m \<and> wants (known c) (mCfg m) (mObjs m t))"
| "hpc_ok c m (HPut t d) =
     (t < mNext m \<and> wants (known c) (mCfg m) (mObjs m t) \<and> chunk_is c (mCfg m) (tKey (mObjs m t)) d)"
| "hpc_ok c m (HPublish t d) =
     (t < mNext m \<and> wants (known c) (mCfg m) (mObjs m t) \<and> chunk_is c (mCfg m) (tKey (mObjs m t)) d)"
| "hpc_ok c m (HDisk k d) = (key_ok k \<and> chunk_is c (mCfg m) k d)"
| "hpc_ok c m HDone = True"

text \<open>Whether a worker holds a task of version \<open>v\<close>, and how many do.\<close>

definition holds :: "mgr \<Rightarrow> string \<Rightarrow> wpc \<Rightarrow> int" where
  "holds m v w = (case wtask w of Some t \<Rightarrow> if ckVersion (tKey (mObjs m t)) = v then 1 else 0 | None \<Rightarrow> 0)"

definition held :: "mgr \<Rightarrow> wpc list \<Rightarrow> string \<Rightarrow> int" where
  "held m ws v = (\<Sum>w\<leftarrow>ws. holds m v w)"

definition workers_inv :: "content \<Rightarrow> mgr \<Rightarrow> wpc list \<Rightarrow> bool" where
  "workers_inv c m ws \<longleftrightarrow>
     (\<forall>i<length ws. wpc_ok c m (ws ! i) \<and>
        (\<forall>t. wtask (ws ! i) = Some t \<longrightarrow>
           t < mNext m \<and> tStarted (mObjs m t) \<and> wants (known c) (mCfg m) (mObjs m t) \<and>
           (\<forall>j<length ws. wtask (ws ! j) = Some t \<longrightarrow> j = i))) \<and>
     (\<forall>v. infl m v \<le> held m ws v)"

definition sys_inv :: "content \<Rightarrow> sys \<Rightarrow> bool" where
  "sys_inv c s \<longleftrightarrow>
     mgr_inv c (sMgr s) \<and> workers_inv c (sMgr s) (sWorkers s) \<and>
     (\<forall>h\<in>set (sHedges s). hpc_ok c (sMgr s) h) \<and>
     (sDiskClosed s \<longrightarrow> mClosed (sMgr s) \<and> set (sWorkers s) \<subseteq> {WExit} \<and> set (sHedges s) \<subseteq> {HDone}) \<and>
     \<not> sBadSend s"

definition sys_init :: "content \<Rightarrow> sys \<Rightarrow> bool" where
  "sys_init c s \<longleftrightarrow>
     (\<exists>cfg st. cfg_ok cfg \<and> cache_inv c cfg st [] \<and>
        s = \<lparr>sMgr = newMgr cfg st, sWorkers = replicate (nat (Workers cfg)) WIdle, sHedges = [],
             sDiskClosed = False, sBadSend = False\<rparr>)"

section \<open>Workers\<close>

lemma keepsD:
  assumes "keeps m m'" "t < mNext m"
  shows "t < mNext m'" "tKey (mObjs m' t) = tKey (mObjs m t)" "tStarted (mObjs m t) \<Longrightarrow> tStarted (mObjs m' t)"
    "wants F cfg (mObjs m' t) = wants F cfg (mObjs m t)"
proof -
  from assms have k: "task_keeps (mObjs m t) (mObjs m' t)" "mNext m \<le> mNext m'" by (auto simp: keeps_def)
  then show "t < mNext m'" "tKey (mObjs m' t) = tKey (mObjs m t)" "tStarted (mObjs m t) \<Longrightarrow> tStarted (mObjs m' t)"
    using assms(2) by (auto simp: task_keeps_def)
  show "wants F cfg (mObjs m' t) = wants F cfg (mObjs m t)" using k by (simp add: wants_def task_keeps_def)
qed

lemma keeps_cfg: "keeps m m' \<Longrightarrow> mCfg m' = mCfg m" "keeps m m' \<Longrightarrow> mClosed m \<Longrightarrow> mClosed m'"
  by (simp_all add: keeps_def)

lemma wpc_ok_keeps:
  assumes "keeps m m'" "wpc_ok c m w" "\<forall>t. wtask w = Some t \<longrightarrow> t < mNext m"
  shows "wpc_ok c m' w"
  using assms keepsD(2) [OF assms(1)] keeps_cfg [OF assms(1)] by (cases w) auto

lemma hpc_ok_keeps: "keeps m m' \<Longrightarrow> hpc_ok c m h \<Longrightarrow> hpc_ok c m' h"
  using keepsD [of m m'] keeps_cfg [of m m'] by (cases h) auto

lemma holds_keeps:
  "keeps m m' \<Longrightarrow> \<forall>t. wtask w = Some t \<longrightarrow> t < mNext m \<Longrightarrow> holds m' v w = holds m v w"
  by (auto simp: holds_def keepsD split: option.split)

lemma holds_range: "0 \<le> holds m v w" "holds m v w \<le> 1"
  by (auto simp: holds_def split: option.split)

lemma held_keeps:
  assumes "keeps m m'" "\<forall>w\<in>set ws. \<forall>t. wtask w = Some t \<longrightarrow> t < mNext m"
  shows "held m' ws v = held m ws v"
  using assms(2)
  by (induction ws) (use assms(1) in \<open>auto simp: held_def holds_keeps\<close>)

lemma held_update:
  "i < length ws \<Longrightarrow> held m (ws[i := w]) v = held m ws v - holds m v (ws ! i) + holds m v w"
proof (induction ws arbitrary: i)
  case (Cons a ws)
  then show ?case by (cases i) (auto simp: held_def)
qed simp

lemma held_ge: "i < length ws \<Longrightarrow> holds m v (ws ! i) \<le> held m ws v"
proof (induction ws arbitrary: i)
  case (Cons a ws)
  moreover have "0 \<le> held m ws v" by (induction ws) (auto simp: held_def holds_range)
  ultimately show ?case using holds_range(1) [of m v a] by (cases i) (force simp: held_def)+
qed simp

lemma held_le: "held m ws v \<le> len ws"
proof (induction ws)
  case (Cons a ws)
  then show ?case using holds_range(2) [of m v a] by (simp add: held_def)
qed (simp add: held_def)

lemma workers_invD:
  assumes "workers_inv c m ws" "i < length ws"
  shows "wpc_ok c m (ws ! i)" "wtask (ws ! i) = Some t \<Longrightarrow> t < mNext m"
    "wtask (ws ! i) = Some t \<Longrightarrow> tStarted (mObjs m t)"
    "wtask (ws ! i) = Some t \<Longrightarrow> wants (known c) (mCfg m) (mObjs m t)"
    "wtask (ws ! i) = Some t \<Longrightarrow> j < length ws \<Longrightarrow> wtask (ws ! j) = Some t \<Longrightarrow> j = i"
  using assms unfolding workers_inv_def by blast+

lemma workers_tasks: "workers_inv c m ws \<Longrightarrow> \<forall>w\<in>set ws. \<forall>t. wtask w = Some t \<longrightarrow> t < mNext m"
  by (auto simp: in_set_conv_nth dest: workers_invD)

lemma workers_inv_infl: "workers_inv c m ws \<Longrightarrow> infl m v \<le> held m ws v"
  by (simp add: workers_inv_def)

lemma workers_invI:
  assumes "\<And>i. i < length ws \<Longrightarrow> wpc_ok c m (ws ! i)"
    and "\<And>i t. i < length ws \<Longrightarrow> wtask (ws ! i) = Some t \<Longrightarrow>
      t < mNext m \<and> tStarted (mObjs m t) \<and> wants (known c) (mCfg m) (mObjs m t)"
    and "\<And>i j t. i < length ws \<Longrightarrow> j < length ws \<Longrightarrow> wtask (ws ! i) = Some t \<Longrightarrow>
      wtask (ws ! j) = Some t \<Longrightarrow> j = i"
    and "\<And>v. infl m v \<le> held m ws v"
  shows "workers_inv c m ws"
  using assms unfolding workers_inv_def by blast

lemma workers_inv_update:
  assumes inv: "workers_inv c m ws" and k: "keeps m m'" and i: "i < length ws" and ok: "wpc_ok c m' w"
    and task: "\<forall>t. wtask w = Some t \<longrightarrow> t < mNext m' \<and> tStarted (mObjs m' t) \<and>
      wants (known c) (mCfg m') (mObjs m' t) \<and> (\<forall>j<length ws. j \<noteq> i \<longrightarrow> wtask (ws ! j) \<noteq> Some t)"
    and bound: "\<forall>v. infl m' v \<le> held m ws v - holds m v (ws ! i) + holds m' v w"
  shows "workers_inv c m' (ws[i := w])"
proof -
  have t: "\<forall>u. wtask (ws ! j) = Some u \<longrightarrow> u < mNext m" if "j < length ws" for j
    using workers_invD(2) [OF inv that] by blast
  have h: "held m' (ws[i := w]) v = held m ws v - holds m v (ws ! i) + holds m' v w" for v
    using held_update [OF i] held_keeps [OF k workers_tasks [OF inv]] holds_keeps [OF k t [OF i]] by simp
  show ?thesis
  proof (rule workers_invI)
    fix j assume "j < length (ws[i := w])"
    then have j: "j < length ws" by simp
    show "wpc_ok c m' (ws[i := w] ! j)"
      using wpc_ok_keeps [OF k workers_invD(1) [OF inv j] t [OF j]] ok i by (cases "j = i") simp_all
    fix u assume u: "wtask (ws[i := w] ! j) = Some u"
    show "u < mNext m' \<and> tStarted (mObjs m' u) \<and> wants (known c) (mCfg m') (mObjs m' u)"
    proof (cases "j = i")
      case True
      then show ?thesis using task [rule_format, of u] u i by simp
    next
      case False
      then have "wtask (ws ! j) = Some u" using u by simp
      from workers_invD(2-4) [OF inv j this] show ?thesis by (simp add: keepsD [OF k] keeps_cfg [OF k])
    qed
  next
    fix j l u
    assume that: "j < length (ws[i := w])" "l < length (ws[i := w])" "wtask (ws[i := w] ! j) = Some u"
      "wtask (ws[i := w] ! l) = Some u"
    show "l = j"
    proof (cases "j = i \<or> l = i")
      case True
      with that i show ?thesis using task [rule_format, of u] by (cases "j = i"; cases "l = i") simp_all
    next
      case False
      with that show ?thesis using workers_invD(5) [OF inv _ _ _, of j u l] by simp
    qed
  next
    fix v
    show "infl m' v \<le> held m' (ws[i := w]) v" using bound h by simp
  qed
qed

text \<open>A step of the manager under which the workers stay where they are.\<close>

lemma workers_inv_keeps:
  assumes inv: "workers_inv c m ws" and k: "keeps m m'" and "calm m m'"
  shows "workers_inv c m' ws"
proof (rule workers_invI)
  fix i assume i: "i < length ws"
  show "wpc_ok c m' (ws ! i)"
    using wpc_ok_keeps [OF k workers_invD(1) [OF inv i]] workers_invD(2) [OF inv i] by blast
  fix t assume "wtask (ws ! i) = Some t"
  with workers_invD(2-4) [OF inv i] show
    "t < mNext m' \<and> tStarted (mObjs m' t) \<and> wants (known c) (mCfg m') (mObjs m' t)"
    by (auto simp: keepsD [OF k] keeps_cfg [OF k])
next
  fix v
  show "infl m' v \<le> held m' ws v"
    unfolding held_keeps [OF k workers_tasks [OF inv]]
    using workers_inv_infl [OF inv, of v] assms(3) unfolding calm_def by (meson order_trans)
qed (use workers_invD(5) [OF inv] in blast)

section \<open>Every step keeps the invariant\<close>

lemma sys_invD:
  assumes "sys_inv c s"
  shows "mgr_inv c (sMgr s)" "workers_inv c (sMgr s) (sWorkers s)" "h \<in> set (sHedges s) \<Longrightarrow> hpc_ok c (sMgr s) h"
    "\<not> sBadSend s"
  using assms by (simp_all add: sys_inv_def)

lemma sys_inv_mgr:
  assumes "sys_inv c s" "advances c (sMgr s) m'"
  shows "sys_inv c (s\<lparr>sMgr := m'\<rparr>)"
  using assms workers_inv_keeps [of c "sMgr s" "sWorkers s" m'] hpc_ok_keeps [of "sMgr s" m' c] keeps_cfg(2) [of "sMgr s" m']
  by (simp add: sys_inv_def advances_def)

text \<open>The disk queue is open while any worker or hedge is still running.\<close>

lemma open_while_running:
  assumes "sys_inv c s"
  shows "i < length (sWorkers s) \<Longrightarrow> sWorkers s ! i \<noteq> WExit \<Longrightarrow> \<not> sDiskClosed s"
    "j < length (sHedges s) \<Longrightarrow> sHedges s ! j \<noteq> HDone \<Longrightarrow> \<not> sDiskClosed s"
  using assms nth_mem unfolding sys_inv_def by blast+

lemma sys_inv_worker:
  assumes inv: "sys_inv c s" and i: "i < length (sWorkers s)" "sWorkers s ! i \<noteq> WExit"
    and k: "keeps (sMgr s) m'" and m: "mgr_inv c m'"
    and w: "workers_inv c m' ((sWorkers s)[i := w])"
  shows "sys_inv c (s\<lparr>sMgr := m', sWorkers := (sWorkers s)[i := w]\<rparr>)"
  using sys_invD [OF inv] open_while_running(1) [OF inv i] hpc_ok_keeps [OF k, of c] m w
  by (auto simp: sys_inv_def)

lemma sys_inv_same_task:
  assumes inv: "sys_inv c s" and i: "i < length (sWorkers s)" "sWorkers s ! i \<noteq> WExit"
    and adv: "advances c (sMgr s) m'" and w: "wtask w = wtask (sWorkers s ! i)" "wpc_ok c m' w"
  shows "sys_inv c (s\<lparr>sMgr := m', sWorkers := (sWorkers s)[i := w]\<rparr>)"
proof -
  note wi = sys_invD(2) [OF inv]
  have k: "keeps (sMgr s) m'" "mgr_inv c m'" "calm (sMgr s) m'"
    using adv sys_invD(1) [OF inv] by (simp_all add: advances_def)
  have hs: "holds m' v w = holds (sMgr s) v (sWorkers s ! i)" for v
    using holds_keeps [OF k(1), of "sWorkers s ! i" v] workers_invD(2) [OF wi i(1)] by (auto simp: holds_def w(1))
  have "infl m' v \<le> held (sMgr s) (sWorkers s) v" for v
    using workers_inv_infl [OF wi, of v] k(3) unfolding calm_def by (meson order_trans)
  moreover have "t < mNext m' \<and> tStarted (mObjs m' t) \<and> wants (known c) (mCfg m') (mObjs m' t) \<and>
      (\<forall>j<length (sWorkers s). j \<noteq> i \<longrightarrow> wtask (sWorkers s ! j) \<noteq> Some t)" if "wtask w = Some t" for t
  proof -
    have t: "wtask (sWorkers s ! i) = Some t" using that w(1) by simp
    with workers_invD(2-4) [OF wi i(1) t] workers_invD(5) [OF wi i(1) t] show ?thesis
      by (auto simp: keepsD [OF k(1)] keeps_cfg [OF k(1)])
  qed
  ultimately have "workers_inv c m' ((sWorkers s)[i := w])"
    using w(2) hs by (intro workers_inv_update [OF wi k(1) i(1)]) auto
  then show ?thesis using sys_inv_worker [OF inv i k(1,2)] by blast
qed

lemma sys_inv_hedge:
  assumes inv: "sys_inv c s" and i: "i < length (sHedges s)" "sHedges s ! i \<noteq> HDone"
    and adv: "advances c (sMgr s) m'" and h: "hpc_ok c m' h"
  shows "sys_inv c (s\<lparr>sMgr := m', sHedges := (sHedges s)[i := h]\<rparr>)"
proof -
  have k: "keeps (sMgr s) m'" using adv by (simp add: advances_def)
  have "hpc_ok c m' g" if "g \<in> set ((sHedges s)[i := h])" for g
    using that set_update_subset_insert [of "sHedges s" i h] h hpc_ok_keeps [OF k] sys_invD(3) [OF inv] by blast
  with sys_inv_mgr [OF inv adv] open_while_running(2) [OF inv i] show ?thesis by (simp add: sys_inv_def)
qed

lemma sys_inv_next:
  assumes inv: "sys_inv c s" and i: "i < length (sWorkers s)" "sWorkers s ! i = WIdle"
    and n: "nextTask now (sMgr s) = (NextTask t, m')"
  shows "sys_inv c (s\<lparr>sMgr := m', sWorkers := (sWorkers s)[i := WDownload t]\<rparr>)"
proof -
  let ?m = "sMgr s"
  note wi = sys_invD(2) [OF inv] and mi = sys_invD(1) [OF inv]
  note ti = mgr_inv_tasks [OF mi]
  have m': "mgr_inv c m'" using nextTask_inv [OF mi, of now] n by simp
  have sc: "scan_ok ?m (NextTask t) m'" using nextTask_scan_ok [of ?m now] n by simp
  then have k: "keeps ?m m'" and st: "tStarted (mObjs m' t)" by (simp_all add: scan_ok_def)
  have "dispatched ?m (NextTask t)"
    using nextTask_dispatched [OF ti, of now] mi n by (simp add: mgr_inv_def cfg_ok_def limits_ok_def session_inv_def)
  then have el: "t \<in> set (hItems (mQueue ?m))" "\<not> tFinished (mObjs ?m t)" by (simp_all add: dispatched_def eligible_def)
  then have t: "t < mNext ?m" "\<not> tStarted (mObjs ?m t)" using tasks_invD(4,10) [OF ti] by auto
  have wt: "wants (known c) (mCfg m') (mObjs m' t)"
    using tinv_wants [OF ti t(1) el(2)] by (simp add: keepsD [OF k t(1)] keeps_cfg [OF k])
  have "wtask (sWorkers s ! j) \<noteq> Some t" if "j < length (sWorkers s)" for j
    using workers_invD(3) [OF wi that, of t] t(2) by blast
  moreover have "infl m' v \<le> held ?m (sWorkers s) v - holds ?m v (sWorkers s ! i) + holds m' v (WDownload t)" for v
  proof -
    have "infl m' v \<le> infl ?m v + started_by ?m (NextTask t) v"
      using sc mi by (simp add: scan_ok_def mgr_inv_def)
    moreover have "started_by ?m (NextTask t) v = holds m' v (WDownload t)"
      using keepsD(2) [OF k t(1)] by (simp add: started_by_def holds_def eq_commute)
    ultimately show ?thesis using workers_inv_infl [OF wi, of v] i(2) by (simp add: holds_def)
  qed
  ultimately have "workers_inv c m' ((sWorkers s)[i := WDownload t])"
    using keepsD(1) [OF k t(1)] st wt by (intro workers_inv_update [OF wi k i(1)]) auto
  then show ?thesis using sys_inv_worker [OF inv i(1) _ k m'] i(2) by simp
qed

lemma sys_inv_finish:
  assumes inv: "sys_inv c s" and i: "i < length (sWorkers s)" "sWorkers s ! i = WFinish t d e"
    and f: "finishLocked now t d e (sMgr s) = (q, m')"
  shows "sys_inv c (s\<lparr>sMgr := m', sWorkers := (sWorkers s)[i := if q then WDisk (tKey (mObjs (sMgr s) t)) d else WIdle]\<rparr>)"
proof -
  let ?m = "sMgr s" and ?v = "ckVersion (tKey (mObjs (sMgr s) t))"
  let ?w = "if q then WDisk (tKey (mObjs (sMgr s) t)) d else WIdle"
  note wi = sys_invD(2) [OF inv] and mi = sys_invD(1) [OF inv]
  have wt: "wtask (sWorkers s ! i) = Some t" by (simp add: i)
  note own = workers_invD(2-4) [OF wi i(1) wt]
  have ok: "e = None \<longrightarrow> chunk_is c (mCfg ?m) (tKey (mObjs ?m t)) d"
    using workers_invD(1) [OF wi i(1)] by (simp add: i)
  note fin = finishLocked_advances [OF mi own(1) ok, of now, unfolded f snd_conv]
  then have k: "keeps ?m m'" "mgr_inv c m'" "calm ?m m'" using mi by (simp_all add: advances_def)
  have "infl m' v \<le> held ?m (sWorkers s) v - holds ?m v (sWorkers s ! i)" for v
  proof (cases "v = ?v")
    case True
    have "holds ?m ?v (sWorkers s ! i) = 1" by (simp add: holds_def wt)
    with fin(2) [OF own(2)] True workers_inv_infl [OF wi, of ?v] held_ge [OF i(1), of ?m ?v] show ?thesis by simp
  next
    case False
    have "infl m' v \<le> infl ?m v" using k(3) by (simp add: calm_def)
    with False workers_inv_infl [OF wi, of v] show ?thesis by (simp add: holds_def wt)
  qed
  moreover have "wpc_ok c m' ?w"
  proof -
    have "q \<longrightarrow> e = None" using f by (auto simp: finishLocked_def Let_def split: if_splits)
    with ok own mgr_inv_chunk [OF mi] wants_key_ok show ?thesis by (auto simp: keeps_cfg [OF k(1)])
  qed
  ultimately have "workers_inv c m' ((sWorkers s)[i := ?w])"
    by (intro workers_inv_update [OF wi k(1) i(1)]) (auto simp: holds_def)
  then show ?thesis using sys_inv_worker [OF inv i(1) _ k(1,2)] i(2) by simp
qed

lemma sendDisk_inv:
  assumes "sys_inv c s" "key_ok k" "chunk_is c (mCfg (sMgr s)) k d" "\<not> sDiskClosed s"
  shows "sys_inv c (sendDisk k d s)"
proof -
  have "sendDisk k d s = s\<lparr>sMgr := queueDiskWrite k d (sMgr s)\<rparr>"
    using assms(1,4) by (simp add: sendDisk_def sys_inv_def)
  then show ?thesis using sys_inv_mgr [OF assms(1) advances_queueDiskWrite [OF assms(2,3)]] by simp
qed

lemma download_full:
  assumes "\<forall>a. reader_ok c (mObjs m t) (reads a)" "download reads ctxAt t m = ((d, None), m')"
    and "wants (known c) cfg (mObjs m t)" "0 < ChunkSize cfg"
  shows "chunk_is c cfg (tKey (mObjs m t)) d"
proof -
  let ?D = "downloadLoop reads ctxAt (mObjs m t) 0 2 None m"
  have "fst (fst ?D) = d" "snd (fst ?D) = None" using assms(2) by (simp_all add: download_def)
  with downloadLoop_result [of reads ctxAt "mObjs m t" 0 2 None m]
  obtain a where a: "reads a = (d, None)" "len d = tLength (mObjs m t)" by auto
  from assms(1) a(1) have "reader_ok c (mObjs m t) (d, None)" by metis
  then show ?thesis by (rule full_read_is_chunk [OF assms(3,4) _ a(2)])
qed

lemma advances_download: "advances c m (snd (download reads ctxAt t m))"
  unfolding download_def using downloadLoop_mgr by blast

lemma download_key: "tKey (mObjs (snd (download reads ctxAt t m)) u) = tKey (mObjs m u)"
  unfolding download_def using downloadLoop_mgr [of reads ctxAt _ 0 2 None m] by simp

subsection \<open>One lemma per kind of step\<close>

lemma inv_next_wait:
  assumes inv: "sys_inv c s" and "nextTask now (sMgr s) = (NextWait, m')"
  shows "sys_inv c (s\<lparr>sMgr := m'\<rparr>)"
proof -
  note mi = sys_invD(1) [OF inv]
  have "scan_ok (sMgr s) NextWait m'" "mgr_inv c m'"
    using nextTask_scan_ok [of "sMgr s" now] nextTask_inv [OF mi, of now] assms(2) by simp_all
  then have "advances c (sMgr s) m'"
    using mi by (simp add: advances_def scan_ok_def calm_def mgr_inv_def started_by_def)
  with inv show ?thesis by (rule sys_inv_mgr)
qed

lemma inv_next_closed:
  assumes inv: "sys_inv c s" and i: "i < length (sWorkers s)" "sWorkers s ! i = WIdle"
    and n: "nextTask now (sMgr s) = (NextClosed, m')"
  shows "sys_inv c (s\<lparr>sMgr := m', sWorkers := (sWorkers s)[i := WExit]\<rparr>)"
proof -
  note mi = sys_invD(1) [OF inv]
  have "dispatched (sMgr s) NextClosed"
    using nextTask_dispatched [OF mgr_inv_tasks [OF mi], of now] n mi
    by (simp add: mgr_inv_def cfg_ok_def limits_ok_def session_inv_def)
  with n have "mClosed (sMgr s)" "m' = sMgr s" by (auto simp: dispatched_def nextTask_def)
  with inv i sys_inv_same_task [of c s i "sMgr s" WExit] show ?thesis by simp
qed

lemma inv_dl_ok:
  assumes inv: "sys_inv c s" and i: "i < length (sWorkers s)" "sWorkers s ! i = WDownload t"
    and r: "\<forall>a. reader_ok c (mObjs (sMgr s) t) (reads a)" and d: "download reads ctxAt t (sMgr s) = ((d, None), m')"
  shows "sys_inv c (s\<lparr>sMgr := m', sWorkers := (sWorkers s)[i := WPut t d]\<rparr>)"
proof -
  note own = workers_invD [OF sys_invD(2) [OF inv] i(1), unfolded i(2) wtask.simps]
  have ch: "chunk_is c (mCfg (sMgr s)) (tKey (mObjs (sMgr s) t)) d"
    using download_full [OF r d] own(4) mgr_inv_chunk sys_invD(1) [OF inv] by simp
  have adv: "advances c (sMgr s) m'" and key: "tKey (mObjs m' t) = tKey (mObjs (sMgr s) t)"
    using advances_download [of c "sMgr s" reads ctxAt t] download_key [of reads ctxAt t "sMgr s" t] d by simp_all
  then have "mCfg m' = mCfg (sMgr s)" by (simp add: advances_def keeps_cfg)
  with ch key i adv show ?thesis by (intro sys_inv_same_task [OF inv]) simp_all
qed

lemma inv_dl_err:
  assumes "sys_inv c s" "i < length (sWorkers s)" "sWorkers s ! i = WDownload t"
    and "download reads ctxAt t (sMgr s) = ((d, Some e), m')"
  shows "sys_inv c (s\<lparr>sMgr := m', sWorkers := (sWorkers s)[i := WFinish t d (Some e)]\<rparr>)"
  using assms advances_download [of c "sMgr s" reads ctxAt t] by (intro sys_inv_same_task) auto

lemma putMemoryOf_simps [simp]:
  "mObjs (putMemoryOf t d m) = mObjs m" "mCfg (putMemoryOf t d m) = mCfg m" "mNext (putMemoryOf t d m) = mNext m"
  by (simp_all add: putMemoryOf_def)

lemma inv_w_put:
  assumes inv: "sys_inv c s" and i: "i < length (sWorkers s)" "sWorkers s ! i = WPut t d"
  shows "sys_inv c (s\<lparr>sMgr := putMemoryOf t d (sMgr s), sWorkers := (sWorkers s)[i := WFinish t d None]\<rparr>)"
proof -
  have "wpc_ok c (sMgr s) (WPut t d)" using workers_invD(1) [OF sys_invD(2) [OF inv] i(1)] i(2) by simp
  with i show ?thesis by (intro sys_inv_same_task [OF inv]) (simp_all add: advances_putMemoryOf)
qed

lemma inv_w_disk:
  assumes inv: "sys_inv c s" and i: "i < length (sWorkers s)" "sWorkers s ! i = WDisk k d"
  shows "sys_inv c (sendDisk k d (s\<lparr>sWorkers := (sWorkers s)[i := WIdle]\<rparr>))"
proof -
  have "sys_inv c (s\<lparr>sMgr := sMgr s, sWorkers := (sWorkers s)[i := WIdle]\<rparr>)"
    using i by (intro sys_inv_same_task [OF inv]) simp_all
  moreover have "wpc_ok c (sMgr s) (WDisk k d)" using workers_invD(1) [OF sys_invD(2) [OF inv] i(1)] i(2) by simp
  moreover have "\<not> sDiskClosed s" using open_while_running(1) [OF inv i(1)] i(2) by simp
  ultimately show ?thesis by (intro sendDisk_inv) simp_all
qed

lemma inv_h_start:
  assumes inv: "sys_inv c s" and t: "t < mNext (sMgr s)" and h: "startHedge t (sMgr s) = (Some b, m')"
  shows "sys_inv c (s\<lparr>sMgr := m', sHedges := sHedges s @ [HRead t]\<rparr>)"
proof -
  let ?m = "sMgr s"
  have adv: "advances c ?m m'" using advances_startHedge [of c ?m t] h by simp
  have "\<not> tFinished (mObjs ?m t)" "\<not> mClosed ?m"
    using h by (auto simp: startHedge_def Let_def split: if_splits)
  then have "hpc_ok c ?m (HRead t)" "\<not> sDiskClosed s"
    using t inv tinv_wants [OF mgr_inv_tasks [OF sys_invD(1) [OF inv]]] by (auto simp: sys_inv_def)
  then have "hpc_ok c m' (HRead t)" using hpc_ok_keeps [of ?m m' c "HRead t"] adv unfolding advances_def by blast
  with sys_inv_mgr [OF inv adv] \<open>\<not> sDiskClosed s\<close> show ?thesis by (auto simp: sys_inv_def)
qed

lemma hedge_ok: "sys_inv c s \<Longrightarrow> i < length (sHedges s) \<Longrightarrow> sHedges s ! i = h \<Longrightarrow> hpc_ok c (sMgr s) h"
  using sys_invD(3) nth_mem by metis

lemma inv_h_read:
  assumes inv: "sys_inv c s" and i: "i < length (sHedges s)" "sHedges s ! i = HRead t"
    and d: "reader_ok c (mObjs (sMgr s) t) (d, None)" "len d = tLength (mObjs (sMgr s) t)"
  shows "sys_inv c (s\<lparr>sHedges := (sHedges s)[i := HPut t d]\<rparr>)"
proof -
  have "hpc_ok c (sMgr s) (HPut t d)"
    using hedge_ok [OF inv i] d full_read_is_chunk mgr_inv_chunk [OF sys_invD(1) [OF inv]] by simp
  with sys_inv_hedge [OF inv i(1) _ advances_refl, of "HPut t d"] i(2) show ?thesis by simp
qed

lemma inv_h_done:
  assumes "sys_inv c s" "i < length (sHedges s)" "sHedges s ! i \<noteq> HDone"
  shows "sys_inv c (s\<lparr>sHedges := (sHedges s)[i := HDone]\<rparr>)"
  using sys_inv_hedge [OF assms advances_refl, of HDone] by simp

lemma inv_h_put:
  assumes inv: "sys_inv c s" and i: "i < length (sHedges s)" "sHedges s ! i = HPut t d"
  shows "sys_inv c (s\<lparr>sMgr := putMemoryOf t d (sMgr s), sHedges := (sHedges s)[i := HPublish t d]\<rparr>)"
  using hedge_ok [OF inv i] i by (intro sys_inv_hedge [OF inv]) (simp_all add: advances_putMemoryOf)

lemma inv_h_publish:
  assumes inv: "sys_inv c s" and i: "i < length (sHedges s)" "sHedges s ! i = HPublish t d"
    and p: "publishLocked t d (sMgr s) = (True, m')"
  shows "sys_inv c (s\<lparr>sMgr := m'\<lparr>mDownloaded := mDownloaded m' + len d\<rparr>,
      sHedges := (sHedges s)[i := HDisk (tKey (mObjs (sMgr s) t)) d]\<rparr>)"
proof -
  let ?m = "sMgr s" and ?m' = "m'\<lparr>mDownloaded := mDownloaded m' + len d\<rparr>"
  note mi = sys_invD(1) [OF inv] and ok = hedge_ok [OF inv i]
  have "advances c ?m m'" using advances_publishLocked [OF _ _ mi, of t d] ok p by simp
  then have adv: "advances c ?m ?m'" by (rule advances_trans) (rule advances_same; simp)
  have "hpc_ok c ?m' (HDisk (tKey (mObjs ?m t)) d)"
    using ok adv wants_key_ok mgr_inv_chunk [OF mi] by (auto simp: advances_def keeps_def)
  with i adv show ?thesis by (intro sys_inv_hedge [OF inv]) simp_all
qed

lemma inv_h_disk:
  assumes inv: "sys_inv c s" and i: "i < length (sHedges s)" "sHedges s ! i = HDisk k d"
  shows "sys_inv c (sendDisk k d (s\<lparr>sHedges := (sHedges s)[i := HDone]\<rparr>))"
  using hedge_ok [OF inv i] inv_h_done [OF inv i(1)] open_while_running(2) [OF inv i(1)] i(2)
  by (intro sendDisk_inv) simp_all

lemma sys_step_inv: "sys_step c s s' \<Longrightarrow> sys_inv c s \<Longrightarrow> sys_inv c s'"
proof (induction rule: sys_step.induct)
  case (client s m')
  then show ?case using sys_inv_mgr mop_advances sys_invD(1) by blast
next
  case (next_wait i s now m')
  from inv_next_wait [OF next_wait(4,3)] show ?case .
next
  case (h_late i s t d m')
  then have "m' = sMgr s" by (auto simp: publishLocked_def split: if_splits)
  with inv_h_done [OF h_late(4,1)] h_late(2) show ?case by simp
next
  case (close_disk s)
  then show ?case by (simp add: sys_inv_def)
qed (simp_all add: sys_inv_next inv_next_closed inv_dl_ok inv_dl_err inv_w_put sys_inv_finish inv_w_disk
    inv_h_start inv_h_read inv_h_done inv_h_put inv_h_publish inv_h_disk)

text \<open>Along every step tasks keep what they ask for, and results are final.\<close>

lemma queueDiskWrite_frame [simp]:
  "mCfg (queueDiskWrite k d m) = mCfg m" "mNext (queueDiskWrite k d m) = mNext m"
  "mClosed (queueDiskWrite k d m) = mClosed m" "mObjs (queueDiskWrite k d m) = mObjs m"
  by (simp_all add: queueDiskWrite_def)

lemma sys_step_keeps: "sys_step c s s' \<Longrightarrow> sys_inv c s \<Longrightarrow> keeps (sMgr s) (sMgr s')"
proof (induction rule: sys_step.induct)
  case (client s m')
  then show ?case using mop_advances [of c "sMgr s" m'] sys_invD(1) [of c s] by (simp add: advances_def)
next
  case (next_task i s now t m')
  then show ?case using nextTask_scan_ok [of "sMgr s" now] by (simp add: scan_ok_def)
next
  case (next_wait i s now m')
  then show ?case using nextTask_scan_ok [of "sMgr s" now] by (simp add: scan_ok_def)
next
  case (next_closed i s now m')
  then show ?case using nextTask_scan_ok [of "sMgr s" now] by (simp add: scan_ok_def)
next
  case (dl_ok i s t reads ctxAt d m')
  then show ?case using advances_download [of c "sMgr s" reads ctxAt t] by (simp add: advances_def)
next
  case (dl_err i s t reads ctxAt d e m')
  then show ?case using advances_download [of c "sMgr s" reads ctxAt t] by (simp add: advances_def)
next
  case (w_finish i s t d e now queue m')
  note own = workers_invD [OF sys_invD(2) [OF w_finish(4)] w_finish(1), unfolded w_finish(2)]
  from finishLocked_advances(1) [OF sys_invD(1) [OF w_finish(4)], of t e d now] own(1,2) w_finish(3)
  show ?case by (simp add: advances_def)
next
  case (h_start t s b m')
  then show ?case using advances_startHedge [of c "sMgr s" t] by (simp add: advances_def)
next
  case (h_publish i s t d m')
  from advances_publishLocked [OF _ _ sys_invD(1) [OF h_publish(4)], of t d] hedge_ok [OF h_publish(4,1,2)] h_publish(3)
  show ?case by (simp add: advances_def keeps_def)
next
  case (h_late i s t d m')
  then have "m' = sMgr s" by (auto simp: publishLocked_def split: if_splits)
  then show ?case by simp
qed (simp_all add: sendDisk_def keeps_same putMemoryOf_def)

section \<open>The initial state\<close>

lemma sys_init_inv: "sys_init c s \<Longrightarrow> sys_inv c s"
proof -
  assume "sys_init c s"
  then obtain cfg st where i: "cfg_ok cfg" "cache_inv c cfg st []"
    and s: "s = \<lparr>sMgr = newMgr cfg st, sWorkers = replicate (nat (Workers cfg)) WIdle, sHedges = [],
      sDiskClosed = False, sBadSend = False\<rparr>"
    by (auto simp: sys_init_def)
  have fr: "mCfg (newMgr cfg st) = cfg" "mStore (newMgr cfg st) = st" "mDiskWrites (newMgr cfg st) = []"
    "mSessions (newMgr cfg st) = []" "mLatencies (newMgr cfg st) = []"
    by (simp_all add: newMgr_def)
  have "mgr_inv c (newMgr cfg st)"
    using i tinv_newMgr [of "chunk_is c cfg" "known c" cfg st]
    by (simp add: mgr_inv_def fr session_inv_def latency_inv_def cfg_ok_def)
  moreover have "held m (replicate n WIdle) v = 0" for m n v by (induction n) (simp_all add: held_def holds_def)
  then have "workers_inv c (newMgr cfg st) (replicate (nat (Workers cfg)) WIdle)"
    by (intro workers_invI) (simp_all add: infl_def getSession_def fr)
  ultimately show ?thesis by (simp add: sys_inv_def s)
qed

interpretation engine: transition_system "sys_init c" "sys_step c" "sys_inv c" "\<lambda>s t. keeps (sMgr s) (sMgr t)"
  for c
  by unfold_locales (auto intro: sys_init_inv sys_step_inv sys_step_keeps keeps_trans)

end
