(* ===== verification/StreamRead.thy ===== *)
theory StreamRead
  imports StreamSystem
begin

text \<open>
  Reading through a handle (\<open>ReadAt\<close> and \<open>readAt\<close> in \<open>internal/stream/manager.go\<close>): validation and
  clipping of the request, waiting for its chunks while the rest of the engine runs, and the
  assembly of the answer. A read that succeeds returns exactly the bytes of the remote file.
\<close>

section \<open>The request\<close>

datatype readPlan = PlanErr goerr | PlanEmpty | PlanRange int

definition readCheck :: "File \<Rightarrow> int \<Rightarrow> int \<Rightarrow> readPlan" where
  "readCheck f offset n =
     (if flFSID f = [] then PlanErr (ErrText ''fsid is required'')
      else if offset < 0 \<or> n < 0 then PlanErr (ErrText ''offset and length must be non-negative'')
      else if n = 0 \<or> 0 < flSize f \<and> flSize f \<le> offset then PlanEmpty
      else PlanRange (if 0 < flSize f \<and> flSize f < i64 (offset + n) then i64 (flSize f - offset) else n))"

text \<open>The chunk numbers \<open>first\<close> to \<open>last\<close> that a read needs.\<close>

definition readChunks :: "Config \<Rightarrow> int \<Rightarrow> int \<Rightarrow> int list" where
  "readChunks cfg offset n =
     [go_div offset (ChunkSize cfg) .. go_div (i64 (offset + n - 1)) (ChunkSize cfg)]"

section \<open>Assembly\<close>

text \<open>\<open>acc\<close> is the part of \<open>result\<close> written so far: \<open>written\<close> is its length.\<close>

fun assemble :: "Config \<Rightarrow> int \<Rightarrow> int \<Rightarrow> int \<Rightarrow> bytes list \<Rightarrow> bytes \<Rightarrow> goerr + bytes" where
  "assemble cfg offset n index [] acc = (if len acc \<noteq> n then Inl ErrUnexpectedEOF else Inr acc)"
| "assemble cfg offset n index (d # ds) acc =
     (let chunkOffset = i64 (index * ChunkSize cfg);
          start = (if chunkOffset < offset then offset - chunkOffset else 0);
          available = min (len d - start) (n - len acc)
      in if available \<le> 0 then Inl ErrUnexpectedEOF
         else assemble cfg offset n (index + 1) ds (acc @ bslice start (start + available) d))"

definition chunkSlice :: "Config \<Rightarrow> File \<Rightarrow> bytes \<Rightarrow> int \<Rightarrow> bytes" where
  "chunkSlice cfg f X i = bslice (i * ChunkSize cfg) (i * ChunkSize cfg + taskLength cfg f i) X"

lemma div_floor: "0 < cs \<Longrightarrow> x div cs * cs \<le> (x :: int)"
  by (metis add.commute div_mult_mod_eq le_add_same_cancel1 pos_mod_sign)

lemma div_next: "0 < cs \<Longrightarrow> (x :: int) < (x div cs + 1) * cs"
  by (metis add.commute distrib_right div_mult_mod_eq mult_1 add_strict_left_mono pos_mod_bound)

text \<open>A range that lies in the file, for a file of known or of unknown size.\<close>

definition range_ok :: "Config \<Rightarrow> File \<Rightarrow> int \<Rightarrow> int \<Rightarrow> bool" where
  "range_ok cfg f offset n \<longleftrightarrow> 0 < ChunkSize cfg \<and> ChunkSize cfg < 2 ^ 62 \<and> 0 \<le> offset \<and> 0 < n \<and>
     offset + n < 2 ^ 62 \<and> 0 \<le> flSize f \<and> flSize f < 2 ^ 62 \<and> (0 < flSize f \<longrightarrow> offset + n \<le> flSize f)"

lemma range_last:
  assumes "range_ok cfg f offset n"
  shows "go_div (i64 (offset + n - 1)) (ChunkSize cfg) = (offset + n - 1) div ChunkSize cfg"
    "go_div offset (ChunkSize cfg) = offset div ChunkSize cfg"
  using assms by (auto simp: range_ok_def go_arith)

lemma range_index:
  assumes "range_ok cfg f offset n" "offset div ChunkSize cfg \<le> i" "i \<le> (offset + n - 1) div ChunkSize cfg"
  shows "idx_ok cfg i" "i * ChunkSize cfg \<le> offset + n - 1" "i64 (i * ChunkSize cfg) = i * ChunkSize cfg"
proof -
  let ?cs = "ChunkSize cfg"
  have cs: "0 < ?cs" "?cs < 2 ^ 62" and b: "offset + n - 1 < 2 ^ 62" "0 \<le> offset + n - 1" "0 \<le> offset"
    using assms(1) by (auto simp: range_ok_def)
  have i0: "0 \<le> i" using assms(2) cs b by (meson order_trans pos_imp_zdiv_nonneg_iff)
  have "i * ?cs \<le> ((offset + n - 1) div ?cs) * ?cs" using assms(3) cs by (simp add: mult_right_mono)
  also have "\<dots> \<le> offset + n - 1" using cs(1) by (rule div_floor)
  finally show le: "i * ?cs \<le> offset + n - 1" .
  then have "(i + 1) * ?cs < 2 ^ 63" using cs b by (simp add: algebra_simps)
  with i0 show idx: "idx_ok cfg i" by (simp add: idx_ok_def)
  show "i64 (i * ?cs) = i * ?cs" by (rule idx_product [OF idx cs(1)])
qed

lemma range_taskLength:
  assumes "range_ok cfg f offset n" "offset div ChunkSize cfg \<le> i" "i \<le> (offset + n - 1) div ChunkSize cfg"
  shows "taskLength cfg f i =
     (if 0 < flSize f \<and> flSize f < i * ChunkSize cfg + ChunkSize cfg then flSize f - i * ChunkSize cfg
      else ChunkSize cfg)" "0 < taskLength cfg f i"
proof -
  let ?cs = "ChunkSize cfg"
  note ri = range_index [OF assms]
  have r: "0 < ?cs" "?cs < 2 ^ 62" "offset + n < 2 ^ 62" "flSize f < 2 ^ 62" "0 \<le> i"
    and sz: "0 < flSize f \<longrightarrow> offset + n \<le> flSize f"
    using assms(1) ri(1) by (auto simp: range_ok_def idx_ok_def)
  have nn: "0 \<le> i * ?cs" using r by simp
  have "i64 (i * ?cs + ?cs) = i * ?cs + ?cs" using ri(2) r nn by (intro i64_nonneg_id) auto
  moreover have "flSize f - i * ?cs < 2 ^ 63"
    by (rule order.strict_trans1 [of _ "flSize f"]) (use nn r in auto)
  then have "i64 (flSize f - i * ?cs) = flSize f - i * ?cs" if "0 < flSize f"
    using ri(2) r sz that by (intro i64_nonneg_id) auto
  ultimately show "taskLength cfg f i = (if 0 < flSize f \<and> flSize f < i * ?cs + ?cs then flSize f - i * ?cs else ?cs)"
    by (auto simp: taskLength_def Let_def ri(3))
  then show "0 < taskLength cfg f i" using ri(2) r sz by auto
qed

text \<open>One round of the loop, on chunks that are what they should be.\<close>

lemma assemble_step:
  assumes r: "range_ok cfg f offset n"
    and i: "offset div ChunkSize cfg \<le> i" "i \<le> (offset + n - 1) div ChunkSize cfg"
    and X: "0 < flSize f \<longrightarrow> flSize f = len X" and c: "len (chunkSlice cfg f X i) = taskLength cfg f i"
    and acc: "acc = bslice offset (max offset (i * ChunkSize cfg)) X" "len acc = max offset (i * ChunkSize cfg) - offset"
  shows "\<exists>acc'. assemble cfg offset n i (chunkSlice cfg f X i # ds) acc = assemble cfg offset n (i + 1) ds acc' \<and>
     acc' = bslice offset (min (offset + n) (i * ChunkSize cfg + taskLength cfg f i)) X \<and>
     len acc' = min (offset + n) (i * ChunkSize cfg + taskLength cfg f i) - offset \<and>
     min (offset + n) (i * ChunkSize cfg + taskLength cfg f i) =
       (if i = (offset + n - 1) div ChunkSize cfg then offset + n else max offset ((i + 1) * ChunkSize cfg))"
proof -
  let ?cs = "ChunkSize cfg"
  define b where "b = i * ?cs"
  define L where "L = taskLength cfg f i"
  note ri = range_index [OF r i] and rt = range_taskLength [OF r i]
  have cs: "0 < ?cs" and n: "0 < n" and off: "0 \<le> offset" and sz: "0 < flSize f \<longrightarrow> offset + n \<le> flSize f"
    using r by (auto simp: range_ok_def)
  have b0: "0 \<le> b" using ri(1) cs by (simp add: b_def idx_ok_def)
  have bn: "b < offset + n" using ri(2) by (simp add: b_def)
  have "offset < (offset div ?cs + 1) * ?cs" using cs by (rule div_next)
  also have "\<dots> \<le> (i + 1) * ?cs" using i(1) cs by (simp add: mult_right_mono)
  finally have ob: "offset < b + ?cs" by (simp add: b_def algebra_simps)
  have L: "L = (if 0 < flSize f \<and> flSize f < b + ?cs then flSize f - b else ?cs)" "0 < L"
    using rt by (simp_all add: L_def b_def)
  define start where "start = (if b < offset then offset - b else 0)"
  define av where "av = min (L - start) (n - (max offset b - offset))"
  have lo: "b + start = max offset b" by (simp add: start_def)
  have av: "0 < av" "b + start + av = min (offset + n) (b + L)" "0 \<le> start" "start + av \<le> L"
    using L ob bn n sz by (auto simp: av_def start_def max_def min_def)
  have "bslice start (start + av) (chunkSlice cfg f X i) = bslice (b + start) (b + (start + av)) X"
    unfolding chunkSlice_def b_def [symmetric] L_def [symmetric]
    by (rule bslice_bslice) (use av b0 in auto)
  moreover have "max offset b \<le> min (offset + n) (b + L)" using av lo by linarith
  ultimately have app: "acc @ bslice start (start + av) (chunkSlice cfg f X i) = bslice offset (min (offset + n) (b + L)) X"
    using bslice_append [of offset "max offset b" "min (offset + n) (b + L)" X] acc(1) av lo off
    by (simp add: b_def [symmetric] add.assoc [symmetric])
  have "len (bslice start (start + av) (chunkSlice cfg f X i)) = av"
    using length_bslice [of start "start + av" "chunkSlice cfg f X i"] av c by (simp add: bslice_ok_def L_def)
  then have lens: "len (acc @ bslice start (start + av) (chunkSlice cfg f X i)) = min (offset + n) (b + L) - offset"
    using acc(2) av lo by (simp add: b_def)
  have step: "assemble cfg offset n i (chunkSlice cfg f X i # ds) acc =
      assemble cfg offset n (i + 1) ds (acc @ bslice start (start + av) (chunkSlice cfg f X i))"
  proof -
    have "min (len (chunkSlice cfg f X i) - start) (n - len acc) = av"
      unfolding c acc(2) av_def L_def b_def ..
    moreover have "(if i64 (i * ?cs) < offset then offset - i64 (i * ?cs) else 0) = start"
      unfolding ri(3) start_def b_def ..
    ultimately show ?thesis using av(1) by (simp only: assemble.simps Let_def if_False not_le [symmetric])
  qed
  have "min (offset + n) (b + L) = (if i = (offset + n - 1) div ?cs then offset + n else max offset ((i + 1) * ?cs))"
  proof (cases "i = (offset + n - 1) div ?cs")
    case True
    have "offset + n - 1 < (i + 1) * ?cs" using div_next [OF cs, of "offset + n - 1"] True by simp
    then show ?thesis using True L sz by (auto simp: b_def algebra_simps)
  next
    case False
    with i(2) have "(i + 1) * ?cs \<le> (offset + n - 1) div ?cs * ?cs" using cs by (intro mult_right_mono) auto
    also have "\<dots> \<le> offset + n - 1" using cs by (rule div_floor)
    finally have "b + ?cs \<le> offset + n - 1" by (simp add: b_def algebra_simps)
    then have "L = ?cs" "min (offset + n) (b + L) = b + ?cs" using L sz by auto
    moreover have "(i + 1) * ?cs = b + ?cs" by (simp add: b_def algebra_simps)
    ultimately show ?thesis using False ob by simp
  qed
  with step app lens show ?thesis unfolding b_def L_def by metis
qed

lemma assemble_from:
  assumes r: "range_ok cfg f offset n" and X: "0 < flSize f \<longrightarrow> flSize f = len X"
    and c: "\<forall>j. offset div ChunkSize cfg \<le> j \<and> j \<le> (offset + n - 1) div ChunkSize cfg \<longrightarrow>
      len (chunkSlice cfg f X j) = taskLength cfg f j"
  shows "offset div ChunkSize cfg \<le> i \<Longrightarrow> i \<le> (offset + n - 1) div ChunkSize cfg \<Longrightarrow>
    acc = bslice offset (max offset (i * ChunkSize cfg)) X \<Longrightarrow> len acc = max offset (i * ChunkSize cfg) - offset \<Longrightarrow>
    assemble cfg offset n i (map (chunkSlice cfg f X) [i .. (offset + n - 1) div ChunkSize cfg]) acc =
      Inr (bslice offset (offset + n) X)"
proof (induction "nat ((offset + n - 1) div ChunkSize cfg - i)" arbitrary: i acc)
  case 0
  then have i: "i = (offset + n - 1) div ChunkSize cfg" by simp
  from assemble_step [OF r "0.prems"(1,2) X _ "0.prems"(3,4), of "[]"] c "0.prems"(1,2) i
  show ?case by auto
next
  case (Suc k)
  let ?last = "(offset + n - 1) div ChunkSize cfg"
  have lt: "i < ?last" using Suc.hyps(2) by simp
  then have "[i..?last] = i # [i + 1..?last]" by (simp add: upto_rec1)
  moreover from assemble_step [OF r Suc.prems(1,2) X _ Suc.prems(3,4), of "map (chunkSlice cfg f X) [i + 1..?last]"]
    c Suc.prems(1,2) lt
  obtain acc' where a: "assemble cfg offset n i (chunkSlice cfg f X i # map (chunkSlice cfg f X) [i + 1..?last]) acc =
      assemble cfg offset n (i + 1) (map (chunkSlice cfg f X) [i + 1..?last]) acc'"
    "acc' = bslice offset (max offset ((i + 1) * ChunkSize cfg)) X"
    "len acc' = max offset ((i + 1) * ChunkSize cfg) - offset"
    by auto
  moreover have "assemble cfg offset n (i + 1) (map (chunkSlice cfg f X) [i + 1..?last]) acc' =
      Inr (bslice offset (offset + n) X)"
    using Suc.hyps(2) Suc.prems(1) lt by (intro Suc.hyps(1) [OF _ _ _ a(2,3)]) auto
  ultimately show ?case by (simp del: assemble.simps)
qed

text \<open>The assembly of the right chunks is the requested range.\<close>

lemma assemble_correct:
  assumes "range_ok cfg f offset n" "0 < flSize f \<longrightarrow> flSize f = len X"
    and "\<forall>j\<in>set (readChunks cfg offset n). len (chunkSlice cfg f X j) = taskLength cfg f j"
  shows "assemble cfg offset n (go_div offset (ChunkSize cfg))
      (map (chunkSlice cfg f X) (readChunks cfg offset n)) [] = Inr (bslice offset (offset + n) X)"
proof -
  let ?cs = "ChunkSize cfg"
  have r: "0 < ?cs" "0 < n" using assms(1) by (auto simp: range_ok_def)
  have le: "offset div ?cs \<le> (offset + n - 1) div ?cs" using r by (intro zdiv_mono1) auto
  have "offset div ?cs * ?cs \<le> offset" using r(1) by (rule div_floor)
  then have "max offset (offset div ?cs * ?cs) = offset" by simp
  then show ?thesis
    using assemble_from [OF assms(1,2), of "offset div ?cs" "[]"] assms(3) le
    by (simp add: readChunks_def range_last [OF assms(1)])
qed

lemma readCheck_range:
  assumes "readCheck f offset n = PlanRange n'" "0 < ChunkSize cfg" "ChunkSize cfg < 2 ^ 62"
    and "offset + n < 2 ^ 62" "0 \<le> flSize f" "flSize f < 2 ^ 62"
  shows "range_ok cfg f offset n'" "n' = (if 0 < flSize f then min n (flSize f - offset) else n)"
proof -
  have o: "0 \<le> offset" "0 < n" "0 < flSize f \<longrightarrow> offset < flSize f"
    using assms(1) by (auto simp: readCheck_def split: if_splits)
  then have "i64 (offset + n) = offset + n" using assms by (intro i64_nonneg_id) auto
  moreover have "i64 (flSize f - offset) = flSize f - offset" if "0 < flSize f"
    using o that assms by (intro i64_nonneg_id) auto
  ultimately show n': "n' = (if 0 < flSize f then min n (flSize f - offset) else n)"
    using assms(1) by (auto simp: readCheck_def min_def split: if_splits)
  then show "range_ok cfg f offset n'" using o assms by (auto simp: range_ok_def)
qed

section \<open>Waiting for a chunk\<close>

text \<open>
  One call of \<open>waitChunk\<close> with foreground priority, from the state where it starts to the state where
  it returns, with any steps of the rest of the engine between its own (marking the task as foreground
  and starting a hedge are such steps). It answers from the cache, or waits until the \<open>done\<close>
  channel of its task is closed, or stops with the error of the caller's context.
\<close>

inductive chunk_read ::
  "content \<Rightarrow> File \<Rightarrow> int \<Rightarrow> bool \<Rightarrow> int \<Rightarrow> sys \<Rightarrow> goerr + bytes \<Rightarrow> sys \<Rightarrow> bool"
  for c f epoch touch i where
  cr_hit: "cacheLookup os touch (keyOf (sMgr s) f i) (sMgr s) = (Some d, m') \<Longrightarrow>
    chunk_read c f epoch touch i s (Inr d) (s\<lparr>sMgr := m'\<rparr>)"
| cr_second: "cacheLookup os touch (keyOf (sMgr s) f i) (sMgr s) = (None, m1) \<Longrightarrow>
    (sys_step c)\<^sup>*\<^sup>* (s\<lparr>sMgr := m1\<rparr>) s2 \<Longrightarrow>
    cacheLookup os2 True (keyOf (sMgr s2) f i) (sMgr s2) = (Some d, m3) \<Longrightarrow>
    chunk_read c f epoch touch i s (Inr d) (s2\<lparr>sMgr := m3\<rparr>)"
| cr_closed: "(sys_step c)\<^sup>*\<^sup>* s s2 \<Longrightarrow>
    ensureTaskLocked f i epoch PriorityForeground (sMgr s2) = (None, m3) \<Longrightarrow>
    chunk_read c f epoch touch i s (Inl (ErrText ''stream manager is closed'')) (s2\<lparr>sMgr := m3\<rparr>)"
| cr_task: "cacheLookup os touch (keyOf (sMgr s) f i) (sMgr s) = (None, m1) \<Longrightarrow>
    (sys_step c)\<^sup>*\<^sup>* (s\<lparr>sMgr := m1\<rparr>) s2 \<Longrightarrow>
    cacheLookup os2 True (keyOf (sMgr s2) f i) (sMgr s2) = (None, m3) \<Longrightarrow>
    (sys_step c)\<^sup>*\<^sup>* (s2\<lparr>sMgr := m3\<rparr>) s4 \<Longrightarrow>
    ensureTaskLocked f i epoch PriorityForeground (sMgr s4) = (Some t, m5) \<Longrightarrow>
    (sys_step c)\<^sup>*\<^sup>* (s4\<lparr>sMgr := m5\<rparr>) s6 \<Longrightarrow> tDone (mObjs (sMgr s6) t) \<Longrightarrow>
    chunk_read c f epoch touch i s (taskResult (sMgr s6) t) s6"
| cr_ctx: "(sys_step c)\<^sup>*\<^sup>* s s2 \<Longrightarrow> e \<in> {ErrCanceled, ErrDeadline} \<Longrightarrow> chunk_read c f epoch touch i s (Inl e) s2"

abbreviation grows :: "sys \<Rightarrow> sys \<Rightarrow> bool" where
  "grows s t \<equiv> keeps (sMgr s) (sMgr t)"

text \<open>A lookup is a step like any other, and what it finds is the chunk.\<close>

lemma lookup_steps:
  assumes inv: "sys_inv c s" and k: "key_ok k" and l: "cacheLookup os touch k (sMgr s) = (r, m')"
  shows "sys_inv c (s\<lparr>sMgr := m'\<rparr>)" "keeps (sMgr s) m'"
    "r = Some d \<Longrightarrow> chunk_is c (mCfg (sMgr s)) k d"
proof -
  have adv: "advances c (sMgr s) m'" using advances_cacheLookup [OF k, of c "sMgr s" os touch] l by simp
  then show "sys_inv c (s\<lparr>sMgr := m'\<rparr>)" "keeps (sMgr s) m'"
    using sys_inv_mgr [OF inv] by (auto simp: advances_def)
  have "r = fst (getWithTouch os k touch (mStore (sMgr s)))"
    using l by (auto simp: cacheLookup_def store_get_def getWithoutTouch_def case_prod_beta Let_def)
  then show "chunk_is c (mCfg (sMgr s)) k d" if "r = Some d"
    using cache_inv_get(2) [OF mgr_inv_cache [OF sys_invD(1) [OF inv]] k] that by simp
qed

lemma ensure_steps:
  assumes inv: "sys_inv c s" and f: "known c f" "idx_ok (mCfg (sMgr s)) i"
    and e: "ensureTaskLocked f i epoch prio (sMgr s) = (r, m')"
  shows "sys_inv c (s\<lparr>sMgr := m'\<rparr>)" "keeps (sMgr s) m'"
    "r = Some t \<Longrightarrow> t < mNext m' \<and> tKey (mObjs m' t) = keyOf (sMgr s) f i"
proof -
  have adv: "advances c (sMgr s) m'" using advances_ensureTaskLocked [OF f] e by (metis snd_conv)
  then show "sys_inv c (s\<lparr>sMgr := m'\<rparr>)" "keeps (sMgr s) m'"
    using sys_inv_mgr [OF inv] by (auto simp: advances_def)
  show "t < mNext m' \<and> tKey (mObjs m' t) = keyOf (sMgr s) f i" if "r = Some t"
    using ensureTaskLocked_key [OF sys_invD(1) [OF inv], of f i epoch prio t] e that by simp
qed

lemma done_result:
  assumes "sys_inv c s" "t < mNext (sMgr s)" "tDone (mObjs (sMgr s) t)" "taskResult (sMgr s) t = Inr d"
  shows "chunk_is c (mCfg (sMgr s)) (tKey (mObjs (sMgr s) t)) d"
  using tasks_invD(7,8) [OF mgr_inv_tasks [OF sys_invD(1) [OF assms(1)]] assms(2)] assms(3,4)
  by (auto simp: taskResult_def task_ok_def split: option.splits)

lemma grows_cfg: "grows s t \<Longrightarrow> mCfg (sMgr t) = mCfg (sMgr s)"
  by (simp add: keeps_def)

lemma chunk_read_sound:
  assumes "chunk_read c f epoch touch i s r s'" "sys_inv c s" "known c f" "idx_ok (mCfg (sMgr s)) i"
  shows "sys_inv c s' \<and> grows s s' \<and> (\<forall>d. r = Inr d \<longrightarrow> chunk_is c (mCfg (sMgr s)) (keyOf (sMgr s) f i) d)"
  using assms
proof (induction rule: chunk_read.induct)
  case (cr_hit os s d m')
  have k: "key_ok (keyOf (sMgr s) f i)" using cr_hit mgr_inv_chunk sys_invD(1) by (blast intro: known_key_ok)
  from lookup_steps [OF cr_hit(2) k cr_hit(1)] show ?case by simp
next
  case (cr_second os s m1 s2 os2 d m3)
  have k: "key_ok (keyOf (sMgr s) f i)" using cr_second mgr_inv_chunk sys_invD(1) by (blast intro: known_key_ok)
  note l1 = lookup_steps [OF cr_second(4) k cr_second(1)]
  have s2: "sys_inv c s2" "keeps m1 (sMgr s2)"
    using engine.steps_inv [OF cr_second(2) l1(1)] engine.steps_ext [OF cr_second(2) l1(1)] by simp_all
  have g: "keeps (sMgr s) (sMgr s2)" by (rule keeps_trans [OF l1(2) s2(2)])
  with k have "key_ok (keyOf (sMgr s2) f i)" by (simp add: keeps_def)
  from lookup_steps [OF s2(1) this cr_second(3)] keeps_trans [OF g] show ?case using g by (simp add: keeps_cfg)
next
  case (cr_closed s s2 m3)
  have s2: "sys_inv c s2" "grows s s2"
    using engine.steps_inv [OF cr_closed(1,3)] engine.steps_ext [OF cr_closed(1,3)] by simp_all
  then have "idx_ok (mCfg (sMgr s2)) i" using cr_closed(5) by (simp add: keeps_def)
  from ensure_steps [OF s2(1) cr_closed(4) this cr_closed(2)] keeps_trans [OF s2(2)] show ?case by simp
next
  case (cr_task os s m1 s2 os2 m3 s4 t m5 s6)
  have k: "key_ok (keyOf (sMgr s) f i)" using cr_task mgr_inv_chunk sys_invD(1) by (blast intro: known_key_ok)
  note l1 = lookup_steps [OF cr_task(8) k cr_task(1)]
  have s2: "sys_inv c s2" "keeps m1 (sMgr s2)"
    using engine.steps_inv [OF cr_task(2) l1(1)] engine.steps_ext [OF cr_task(2) l1(1)] by simp_all
  have g2: "keeps (sMgr s) (sMgr s2)" by (rule keeps_trans [OF l1(2) s2(2)])
  with k have k2: "key_ok (keyOf (sMgr s2) f i)" by (simp add: keeps_def)
  note l3 = lookup_steps [OF s2(1) k2 cr_task(3)]
  have s4: "sys_inv c s4" "keeps m3 (sMgr s4)"
    using engine.steps_inv [OF cr_task(4) l3(1)] engine.steps_ext [OF cr_task(4) l3(1)] by simp_all
  have g4: "keeps (sMgr s) (sMgr s4)" using keeps_trans [OF g2 keeps_trans [OF l3(2) s4(2)]] .
  then have i4: "idx_ok (mCfg (sMgr s4)) i" using cr_task(10) by (simp add: keeps_def)
  note e5 = ensure_steps [OF s4(1) cr_task(9) i4 cr_task(5)]
  have s6: "sys_inv c s6" "keeps m5 (sMgr s6)"
    using engine.steps_inv [OF cr_task(6) e5(1)] engine.steps_ext [OF cr_task(6) e5(1)] by simp_all
  have g6: "keeps (sMgr s) (sMgr s6)" using keeps_trans [OF keeps_trans [OF g4 e5(2)] s6(2)] .
  have t: "t < mNext (sMgr s6)" "tKey (mObjs (sMgr s6) t) = keyOf (sMgr s) f i"
    using e5(3) [OF refl] keepsD(1,2) [OF s6(2), of t] keeps_cfg(1) [OF g4] by simp_all
  with done_result [OF s6(1) t(1) cr_task(7)] s6(1) g6 keeps_cfg(1) [OF g6] show ?case by simp
next
  case (cr_ctx s s2 e)
  then show ?case using engine.steps_inv [OF cr_ctx(1,3)] engine.steps_ext [OF cr_ctx(1,3)] by simp
qed

section \<open>The whole read\<close>

text \<open>The loop over the chunks stops at the first error.\<close>

inductive chunks_read ::
  "content \<Rightarrow> File \<Rightarrow> int \<Rightarrow> bool \<Rightarrow> int list \<Rightarrow> sys \<Rightarrow> goerr + bytes list \<Rightarrow> sys \<Rightarrow> bool"
  for c f epoch touch where
  cs_nil: "chunks_read c f epoch touch [] s (Inr []) s"
| cs_err: "(sys_step c)\<^sup>*\<^sup>* s s1 \<Longrightarrow> chunk_read c f epoch touch i s1 (Inl e) s2 \<Longrightarrow>
    chunks_read c f epoch touch (i # is) s (Inl e) s2"
| cs_stop: "(sys_step c)\<^sup>*\<^sup>* s s1 \<Longrightarrow> chunk_read c f epoch touch i s1 (Inr d) s2 \<Longrightarrow>
    chunks_read c f epoch touch is s2 (Inl e) s3 \<Longrightarrow> chunks_read c f epoch touch (i # is) s (Inl e) s3"
| cs_cons: "(sys_step c)\<^sup>*\<^sup>* s s1 \<Longrightarrow> chunk_read c f epoch touch i s1 (Inr d) s2 \<Longrightarrow>
    chunks_read c f epoch touch is s2 (Inr ds) s3 \<Longrightarrow> chunks_read c f epoch touch (i # is) s (Inr (d # ds)) s3"

lemma chunks_read_sound:
  assumes "chunks_read c f epoch touch is s r s'" "sys_inv c s" "known c f" "\<forall>i\<in>set is. idx_ok (mCfg (sMgr s)) i"
  shows "sys_inv c s' \<and> grows s s' \<and>
     (\<forall>ds. r = Inr ds \<longrightarrow> length ds = length is \<and>
        (\<forall>j<length is. chunk_is c (mCfg (sMgr s)) (keyOf (sMgr s) f (is ! j)) (ds ! j)))"
  using assms
proof (induction rule: chunks_read.induct)
  case (cs_err s s1 i e s2 "is")
  have s1: "sys_inv c s1" "grows s s1" using engine.steps_inv [OF cs_err(1,3)] engine.steps_ext [OF cs_err(1,3)] by simp_all
  with chunk_read_sound [OF cs_err(2) s1(1) cs_err(4)] cs_err(5) show ?case
    by (auto simp: grows_cfg intro: keeps_trans)
next
  case (cs_stop s s1 i d s2 "is" e s3)
  have s1: "sys_inv c s1" "grows s s1" using engine.steps_inv [OF cs_stop(1,5)] engine.steps_ext [OF cs_stop(1,5)] by simp_all
  have s2: "sys_inv c s2" "grows s1 s2"
    using chunk_read_sound [OF cs_stop(2) s1(1) cs_stop(6)] cs_stop(7) s1(2) by (auto simp: grows_cfg)
  with cs_stop(4) [OF s2(1) cs_stop(6)] cs_stop(7) s1(2) show ?case
    by (auto simp: grows_cfg intro: keeps_trans)
next
  case (cs_cons s s1 i d s2 "is" ds s3)
  have s1: "sys_inv c s1" "grows s s1" using engine.steps_inv [OF cs_cons(1,5)] engine.steps_ext [OF cs_cons(1,5)] by simp_all
  have s2: "sys_inv c s2" "grows s1 s2" "chunk_is c (mCfg (sMgr s)) (keyOf (sMgr s) f i) d"
    using chunk_read_sound [OF cs_cons(2) s1(1) cs_cons(6)] cs_cons(7) s1(2) by (auto simp: grows_cfg)
  have g: "grows s s2" by (rule keeps_trans [OF s1(2) s2(2)])
  from cs_cons(4) [OF s2(1) cs_cons(6)] cs_cons(7) g
  have rest: "sys_inv c s3" "grows s2 s3" "length ds = length is"
    "\<forall>j<length is. chunk_is c (mCfg (sMgr s)) (keyOf (sMgr s) f (is ! j)) (ds ! j)"
    by (auto simp: grows_cfg)
  have "chunk_is c (mCfg (sMgr s)) (keyOf (sMgr s) f ((i # is) ! j)) ((d # ds) ! j)" if "j < length (i # is)" for j
    using that s2(3) rest(4) by (cases j) simp_all
  with rest keeps_trans [OF g rest(2)] show ?case by simp
qed simp

text \<open>\<open>readAt\<close>: the result, the handle and the state after it. Scheduling the read-ahead is among the
  steps between its parts.\<close>

inductive read_at ::
  "content \<Rightarrow> Handle \<Rightarrow> int \<Rightarrow> int \<Rightarrow> sys \<Rightarrow> goerr + bytes \<Rightarrow> Handle \<Rightarrow> sys \<Rightarrow> bool" for c where
  ra_bad: "readCheck (hFile h) offset n = PlanErr e \<Longrightarrow> read_at c h offset n s (Inl e) h s"
| ra_empty: "readCheck (hFile h) offset n = PlanEmpty \<Longrightarrow> read_at c h offset n s (Inr []) h s"
| ra_refused: "readCheck (hFile h) offset n = PlanRange n' \<Longrightarrow>
    prepareRead now h offset n' (sMgr s) = (Inl e, h', m') \<Longrightarrow> read_at c h offset n s (Inl e) h' (s\<lparr>sMgr := m'\<rparr>)"
| ra_failed: "readCheck (hFile h) offset n = PlanRange n' \<Longrightarrow>
    prepareRead now h offset n' (sMgr s) = (Inr pr, h', m') \<Longrightarrow>
    chunks_read c (hFile h) (prEpoch pr) (prMode pr \<noteq> ModeStream \<or> \<not> prStream pr)
      (readChunks (mCfg (sMgr s)) offset n') (s\<lparr>sMgr := m'\<rparr>) (Inl e) s2 \<Longrightarrow>
    read_at c h offset n s (Inl e) h' s2"
| ra_done: "readCheck (hFile h) offset n = PlanRange n' \<Longrightarrow>
    prepareRead now h offset n' (sMgr s) = (Inr pr, h', m') \<Longrightarrow>
    chunks_read c (hFile h) (prEpoch pr) (prMode pr \<noteq> ModeStream \<or> \<not> prStream pr)
      (readChunks (mCfg (sMgr s)) offset n') (s\<lparr>sMgr := m'\<rparr>) (Inr ds) s2 \<Longrightarrow>
    (sys_step c)\<^sup>*\<^sup>* s2 s3 \<Longrightarrow>
    read_at c h offset n s
      (assemble (mCfg (sMgr s)) offset n' (go_div offset (ChunkSize (mCfg (sMgr s)))) ds []) h' s3"

definition expected :: "content \<Rightarrow> File \<Rightarrow> int \<Rightarrow> int \<Rightarrow> bytes" where
  "expected c f offset n =
     bslice offset (if 0 < flSize f then max offset (min (offset + n) (flSize f)) else offset + n) (c (flFSID f))"

lemma assembled:
  assumes inv: "sys_inv c s" and f: "known c f" and r: "range_ok (mCfg (sMgr s)) f offset n"
    and ch: "length ds = length (readChunks (mCfg (sMgr s)) offset n)"
      "\<forall>j<length (readChunks (mCfg (sMgr s)) offset n).
         chunk_is c (mCfg (sMgr s)) (keyOf (sMgr s) f (readChunks (mCfg (sMgr s)) offset n ! j)) (ds ! j)"
  shows "assemble (mCfg (sMgr s)) offset n (go_div offset (ChunkSize (mCfg (sMgr s)))) ds [] =
    Inr (bslice offset (offset + n) (c (flFSID f)))"
proof -
  let ?cfg = "mCfg (sMgr s)" and ?X = "c (flFSID f)" and ?is = "readChunks (mCfg (sMgr s)) offset n"
  have idx: "idx_ok ?cfg i" "0 < taskLength ?cfg f i" if "i \<in> set ?is" for i
    using that range_index(1) [OF r] range_taskLength(2) [OF r] by (auto simp: readChunks_def range_last [OF r])
  have cs: "0 < ChunkSize ?cfg" using r by (simp add: range_ok_def)
  have at: "ds ! j = chunkSlice ?cfg f ?X (?is ! j) \<and> len (ds ! j) = taskLength ?cfg f (?is ! j)"
    if "j < length ?is" for j
  proof -
    have m: "?is ! j \<in> set ?is" using that by simp
    have "chunk_is c ?cfg (keyOf (sMgr s) f (?is ! j)) (ds ! j)" using ch(2) that by blast
    then show ?thesis
      using idx(2) [OF m] unfolding chunk_is_key [OF f idx(1) [OF m] cs] chunkSlice_def by auto
  qed
  then have ds: "ds = map (chunkSlice ?cfg f ?X) ?is" using ch(1) by (intro nth_equalityI) simp_all
  have "\<forall>i\<in>set ?is. len (chunkSlice ?cfg f ?X i) = taskLength ?cfg f i"
  proof
    fix i assume "i \<in> set ?is"
    then obtain j where "j < length ?is" "i = ?is ! j" by (metis in_set_conv_nth)
    with at [of j] show "len (chunkSlice ?cfg f ?X i) = taskLength ?cfg f i" by metis
  qed
  with assemble_correct [OF r, of ?X] f ds show ?thesis by (simp add: known_def)
qed

lemma read_at_sound:
  assumes "read_at c h offset n s r h' s'" "sys_inv c s" "known c (hFile h)" "offset + n < 2 ^ 62"
  shows "sys_inv c s' \<and> grows s s' \<and> (\<forall>d. r = Inr d \<longrightarrow> d = expected c (hFile h) offset n)"
  using assms
proof (induction rule: read_at.induct)
  case (ra_bad h offset n e s)
  then show ?case by simp
next
  case (ra_empty h offset n s)
  then have "expected c (hFile h) offset n = []"
    by (auto simp: readCheck_def expected_def bslice_def split: if_splits)
  with ra_empty show ?case by simp
next
  case (ra_refused h offset n n' now s e h' m')
  then have "advances c (sMgr s) m'" using advances_prepareRead [of c "sMgr s" now h offset n'] by simp
  with sys_inv_mgr [OF ra_refused(3)] show ?case by (simp add: advances_def)
next
  case (ra_failed h offset n n' now s pr h' m' e s2)
  then have adv: "advances c (sMgr s) m'" using advances_prepareRead [of c "sMgr s" now h offset n'] by simp
  note inv1 = sys_inv_mgr [OF ra_failed(4) adv]
  have g: "keeps (sMgr s) m'" using adv by (simp add: advances_def)
  have cf: "cfg_ok (mCfg (sMgr s))" using sys_invD(1) [OF ra_failed(4)] by (simp add: mgr_inv_def)
  have r: "range_ok (mCfg (sMgr s)) (hFile h) offset n'"
    using readCheck_range(1) [OF ra_failed(1)] cf ra_failed(5,6) by (simp add: cfg_ok_def known_def valid_file_def)
  have "\<forall>i\<in>set (readChunks (mCfg (sMgr s)) offset n'). idx_ok (mCfg m') i"
    using range_index(1) [OF r] by (auto simp: readChunks_def range_last [OF r] keeps_cfg [OF g])
  with chunks_read_sound [OF ra_failed(3) inv1 ra_failed(5)] keeps_trans [OF g] show ?case by simp
next
  case (ra_done h offset n n' now s pr h' m' ds s2 s3)
  then have adv: "advances c (sMgr s) m'" using advances_prepareRead [of c "sMgr s" now h offset n'] by simp
  note inv1 = sys_inv_mgr [OF ra_done(5) adv]
  have g: "keeps (sMgr s) m'" using adv by (simp add: advances_def)
  have cf: "cfg_ok (mCfg (sMgr s))" using sys_invD(1) [OF ra_done(5)] by (simp add: mgr_inv_def)
  note rc = readCheck_range [OF ra_done(1), of "mCfg (sMgr s)"]
  have r: "range_ok (mCfg (sMgr s)) (hFile h) offset n'" and n': "n' = (if 0 < flSize (hFile h) then min n (flSize (hFile h) - offset) else n)"
    using rc cf ra_done(6,7) by (simp_all add: cfg_ok_def known_def valid_file_def)
  have "\<forall>i\<in>set (readChunks (mCfg (sMgr s)) offset n'). idx_ok (mCfg m') i"
    using range_index(1) [OF r] by (auto simp: readChunks_def range_last [OF r] keeps_cfg [OF g])
  with chunks_read_sound [OF ra_done(3) inv1 ra_done(6)] keeps_cfg(1) [OF g]
  have s2: "sys_inv c s2" "keeps m' (sMgr s2)" and ch: "length ds = length (readChunks (mCfg (sMgr s)) offset n')"
    "\<forall>j<length (readChunks (mCfg (sMgr s)) offset n').
       chunk_is c (mCfg (sMgr s)) (keyOf (sMgr s) (hFile h) (readChunks (mCfg (sMgr s)) offset n' ! j)) (ds ! j)"
    by simp_all
  note as = assembled [OF ra_done(5,6) r ch]
  have "bslice offset (offset + n') (c (flFSID (hFile h))) = expected c (hFile h) offset n"
    using r n' by (auto simp: expected_def range_ok_def min_def max_def)
  moreover have "sys_inv c s3" "grows s s3"
    using engine.steps_inv [OF ra_done(4) s2(1)] engine.steps_ext [OF ra_done(4) s2(1)]
      keeps_trans [OF g keeps_trans [OF s2(2)]] by simp_all
  ultimately show ?case using as by simp
qed

end
