(* ===== verification/StreamPolicy.thy ===== *)
theory StreamPolicy
  imports StreamInvariant
begin

text \<open>
  What the policies of the stream manager promise: the read-ahead window lies in the file and
  around the cursor, the whole of \<open>scheduleBuffer\<close> keeps the invariant, one chunk has one live task,
  a seek of a second handle does not disturb the active one, hedge delays stay in their bounds,
  \<open>BufferAhead\<close> terminates and counts the contiguous cached bytes, and a closed manager refuses work.
\<close>

section \<open>The read-ahead window\<close>

definition window_cfg :: "Config \<Rightarrow> bool" where
  "window_cfg cfg \<longleftrightarrow> 0 < ChunkSize cfg \<and> ChunkSize cfg < 2 ^ 62 \<and> 0 < TargetBuffer cfg \<and>
     TargetBuffer cfg < 2 ^ 61 \<and> 0 < BackBuffer cfg \<and> BackBuffer cfg < 2 ^ 61"

lemma scheduleWindow_bounds:
  assumes cfg: "window_cfg cfg" and cur: "0 \<le> cur" "cur < 2 ^ 61" and w: "scheduleWindow cfg f cur = Some w"
  shows "0 \<le> wFloor w" "wFloor w \<le> wStart w" "wStart w \<le> wNear w" "wNear w \<le> wEnd w"
    "wStart w = cur div ChunkSize cfg" "wEnd w * ChunkSize cfg < cur + TargetBuffer cfg"
    "0 < flSize f \<Longrightarrow> wEnd w * ChunkSize cfg < flSize f"
proof -
  let ?cs = "ChunkSize cfg"
  define e where "e = (if 0 < flSize f \<and> flSize f < cur + TargetBuffer cfg then flSize f else cur + TargetBuffer cfg)"
  define fl where "fl = (if cur - BackBuffer cfg < 0 then 0 else cur - BackBuffer cfg)"
  note c = cfg [unfolded window_cfg_def]
  have i: "i64 (cur + TargetBuffer cfg) = cur + TargetBuffer cfg" "i64 (cur + 64 * MiB) = cur + 64 * MiB"
    "i64 (cur - BackBuffer cfg) = cur - BackBuffer cfg"
    using c cur by (auto intro!: i64_id)
  have e: "cur < e" "e \<le> cur + TargetBuffer cfg" "0 < flSize f \<longrightarrow> e \<le> flSize f"
    using w by (auto simp: scheduleWindow_def i e_def Let_def split: if_splits)
  have ie: "i64 (e - 1) = e - 1" using e c cur by (intro i64_nonneg_id) auto
  have g: "go_div x ?cs = x div ?cs" if "0 \<le> x" for x using that c by (simp add: go_arith)
  have fl: "0 \<le> fl" "fl \<le> cur" using c cur by (auto simp: fl_def)
  have weq: "w = \<lparr>wStart = cur div ?cs, wNear = min ((e - 1) div ?cs) ((cur + 64 * MiB) div ?cs),
      wEnd = (e - 1) div ?cs, wFloor = fl div ?cs\<rparr>"
  proof -
    have "scheduleWindow cfg f cur =
      (if flSize f \<le> cur \<and> 0 < flSize f then None
       else if e \<le> cur then None
       else Some \<lparr>wStart = go_div cur ?cs,
         wNear = (if go_div (i64 (e - 1)) ?cs < go_div (cur + 64 * MiB) ?cs then go_div (i64 (e - 1)) ?cs
                  else go_div (cur + 64 * MiB) ?cs),
         wEnd = go_div (i64 (e - 1)) ?cs, wFloor = go_div fl ?cs\<rparr>)"
      unfolding scheduleWindow_def Let_def i e_def fl_def by (rule refl)
    with w e(1) cur fl(1) show ?thesis by (auto simp: ie g min_def split: if_splits)
  qed
  have "(e - 1) div ?cs * ?cs \<le> e - 1" using c by (metis add.commute div_mult_mod_eq le_add_same_cancel1 pos_mod_sign)
  then show "wEnd w * ?cs < cur + TargetBuffer cfg" "0 < flSize f \<Longrightarrow> wEnd w * ?cs < flSize f"
    using e by (simp_all add: weq)
  show "0 \<le> wFloor w" "wFloor w \<le> wStart w" "wStart w \<le> wNear w" "wNear w \<le> wEnd w" "wStart w = cur div ?cs"
    using fl c e cur by (simp_all add: weq zdiv_mono1 pos_imp_zdiv_nonneg_iff)
qed

lemma window_idx_ok:
  assumes "window_cfg cfg" "0 \<le> cur" "cur < 2 ^ 61" "scheduleWindow cfg f cur = Some w" "0 \<le> i" "i \<le> wEnd w"
  shows "idx_ok cfg i"
proof -
  note b = scheduleWindow_bounds [OF assms(1-4)] and c = assms(1) [unfolded window_cfg_def]
  have "i * ChunkSize cfg \<le> wEnd w * ChunkSize cfg" using assms(6) c by (simp add: mult_right_mono)
  moreover have "(i + 1) * ChunkSize cfg = i * ChunkSize cfg + ChunkSize cfg" by (simp add: algebra_simps)
  moreover have "(2 :: int) ^ 62 = 2 * 2 ^ 61" "(2 :: int) ^ 63 = 4 * 2 ^ 61" by simp_all
  ultimately have "(i + 1) * ChunkSize cfg < 2 ^ 63" using b(6) c assms(3) by linarith
  with assms(5) show ?thesis by (simp add: idx_ok_def)
qed

section \<open>The whole of scheduleBuffer keeps the invariant\<close>

lemma advances_background:
  assumes "known c f" "idx_ok (mCfg m) i" "0 < ChunkSize (mCfg m)"
  shows "advances c m (ensureBackgroundTask os f i epoch prio m)"
proof -
  let ?m = "m\<lparr>mStore := snd (store_length (keyOf m f i) (mStore m))\<rparr>"
  have "advances c m ?m" by (rule advances_length)
  moreover have "advances c ?m (snd (ensureTask os f i epoch prio ?m))"
    using assms by (intro advances_ensureTask) simp_all
  ultimately show ?thesis
    by (auto simp: ensureBackgroundTask_def case_prod_beta Let_def intro: advances_trans)
qed

lemma advances_keeps_cfg: "advances c m m' \<Longrightarrow> mCfg m' = mCfg m"
  by (simp add: advances_def keeps_def)

lemma advances_range:
  assumes "known c f" "\<forall>i. a \<le> i \<and> i \<le> b \<longrightarrow> idx_ok (mCfg m) i" "0 < ChunkSize (mCfg m)"
  shows "advances c m (ensureRange os f epoch prio a b m)"
proof -
  have "advances c m' (fold (\<lambda>i. ensureBackgroundTask os f i epoch (prio i)) is m')"
    if "\<forall>i\<in>set is. idx_ok (mCfg m') i" "0 < ChunkSize (mCfg m')" for "is" m'
    using that
  proof (induction "is" arbitrary: m')
    case (Cons i "is")
    have a: "advances c m' (ensureBackgroundTask os f i epoch (prio i) m')"
      using Cons.prems assms(1) by (intro advances_background) simp_all
    from Cons.IH [of "ensureBackgroundTask os f i epoch (prio i) m'"] Cons.prems advances_keeps_cfg [OF a]
    show ?case using a by (auto intro: advances_trans)
  qed simp
  then show ?thesis using assms by (simp add: ensureRange_def)
qed

lemma advances_scheduleAhead:
  assumes "known c f" "window_cfg (mCfg m)" "0 \<le> cur" "cur < 2 ^ 61" "scheduleWindow (mCfg m) f cur = Some w"
    and "0 \<le> scheduledEnd old + 1"
  shows "advances c m (scheduleAhead os f epoch w reset old m)"
proof -
  note b = scheduleWindow_bounds [OF assms(2-5)]
  have cs: "0 < ChunkSize (mCfg m)" using assms(2) by (simp add: window_cfg_def)
  note idx = window_idx_ok [OF assms(2-5)]
  have R: "advances c m1 (ensureRange os f epoch prio x y m1)"
    if "mCfg m1 = mCfg m" "0 \<le> x" "y \<le> wEnd w" for m1 prio x y
    using that assms(1) cs idx by (intro advances_range) auto
  have two: "advances c m (ensureRange os f epoch p2 x2 y2 (ensureRange os f epoch p1 x1 y1 m))"
    if "0 \<le> x1" "y1 \<le> wEnd w" "0 \<le> x2" "y2 \<le> wEnd w" for p1 p2 x1 x2 y1 y2
    using R [of m x1 y1 p1] R [of "ensureRange os f epoch p1 x1 y1 m" x2 y2 p2] that
    by (auto dest: advances_keeps_cfg intro: advances_trans)
  show ?thesis unfolding scheduleAhead_def using b assms(6) by (auto intro!: two)
qed

lemma advances_scheduleBuffer:
  assumes f: "known c f" and cfg: "window_cfg (mCfg m)" and cur: "0 \<le> cur" "cur < 2 ^ 61"
    and old: "\<forall>s. getSession (versionOf m f) m = Some s \<longrightarrow> 0 \<le> scheduledEnd s + 1"
  shows "advances c m (scheduleBuffer os f cur epoch m)"
proof (cases "scheduleWindow (mCfg m) f cur")
  case (Some w)
  note idx = window_idx_ok [OF cfg cur Some] and b = scheduleWindow_bounds [OF cfg cur Some]
  have cs: "0 < ChunkSize (mCfg m)" using cfg by (simp add: window_cfg_def)
  show ?thesis
  proof (cases "fst (scheduleLocked f epoch w m)")
    case None
    then show ?thesis using Some advances_scheduleLocked [of c m f epoch w]
      by (auto simp: scheduleBuffer_def case_prod_beta split: option.split prod.split)
  next
    case (Some p)
    obtain reset s where p: "p = (reset, s)" by (cases p)
    let ?m1 = "snd (scheduleLocked f epoch w m)"
    let ?m2 = "schedulePrune f w reset s ?m1"
    let ?m3 = "scheduleAhead os f epoch w reset s ?m2"
    have a1: "advances c m ?m2" using advances_scheduleLocked advances_schedulePrune advances_trans by blast
    note c2 = advances_keeps_cfg [OF a1]
    have "getSession (versionOf m f) m = Some s"
      using Some p by (auto simp: scheduleLocked_def Let_def split: option.splits if_splits)
    with old have "0 \<le> scheduledEnd s + 1" by blast
    then have a2: "advances c m ?m3"
      using advances_trans [OF a1 advances_scheduleAhead [OF f _ cur]] cfg \<open>scheduleWindow (mCfg m) f cur = Some w\<close> c2
      by auto
    note c3 = advances_keeps_cfg [OF a2]
    let ?e = "go_div (i64 (cur - 1)) (ChunkSize (mCfg m))"
    have "?e \<le> wEnd w" if "0 < cur"
    proof -
      have "i64 (cur - 1) = cur - 1" using that cur by (intro i64_nonneg_id) auto
      then have "?e = (cur - 1) div ChunkSize (mCfg m)" using that cs by (simp add: go_arith)
      also have "\<dots> \<le> wStart w" using b(5) cs by (simp add: zdiv_mono1)
      finally show ?thesis using b by simp
    qed
    then have a3: "advances c ?m3 (ensureRange os f epoch (\<lambda>_. PriorityBack) (wFloor w) ?e ?m3)" if "0 < cur"
      using that f c3 cs idx b(1) by (intro advances_range) auto
    show ?thesis
      using Some p a2 advances_trans [OF a2 a3] \<open>scheduleWindow (mCfg m) f cur = Some w\<close>
      by (auto simp: scheduleBuffer_def Let_def case_prod_beta split: option.split prod.split)
  qed
qed (simp add: scheduleBuffer_def)

section \<open>One live task per chunk\<close>

text \<open>After \<open>ensureTask\<close> the chunk has a live task, the one returned, or the task returned is
  already finished; and a second request for the chunk gets the same task.\<close>

lemma liveTask_new:
  assumes "\<not> mClosed m" "liveTask m (keyOf m f i) = None" "0 < taskLength (mCfg m) f i"
  shows "fst (ensureTaskLocked f i e p m) = Some (mNext m)"
    "liveTask (snd (ensureTaskLocked f i e p m)) (keyOf m f i) = Some (mNext m)"
  using assms
  by (simp_all add: ensureTaskLocked_def Let_def allocTask_def liveTask_def ctxErr_def pushQueue_def newTask_def
      emptyTask_def)

lemma liveTask_keep:
  assumes "liveTask m (keyOf m f i) = Some t" "\<not> mClosed m"
  shows "fst (ensureTaskLocked f i e p m) = Some t"
    "liveTask (snd (ensureTaskLocked f i e p m)) (keyOf m f i) = Some t"
  using assms
  by (auto simp: ensureTaskLocked_def liveTask_def ctxErr_def fixQueue_def updTask_def split: option.splits if_splits)

lemma ensureTaskLocked_shared:
  assumes "\<not> mClosed m" "0 < taskLength (mCfg m) f i" "fst (ensureTaskLocked f i e p m) = Some t"
  shows "liveTask (snd (ensureTaskLocked f i e p m)) (keyOf m f i) = Some t \<and>
    fst (ensureTaskLocked f i e' p' (snd (ensureTaskLocked f i e p m))) = Some t"
proof -
  let ?m = "snd (ensureTaskLocked f i e p m)"
  have live: "liveTask ?m (keyOf m f i) = Some t"
    using assms liveTask_new [of m f i e p] liveTask_keep [of m f i _ e p]
    by (cases "liveTask m (keyOf m f i)") auto
  with assms(1) liveTask_keep(1) [of ?m f i t e' p'] show ?thesis by simp
qed

section \<open>Which tasks an epoch change cancels\<close>

lemma cancelSession_exact:
  "tCanceled (mObjs (cancelSessionTasksLocked v epoch m) t) \<longleftrightarrow>
     tCanceled (mObjs m t) \<or>
     t \<in> snd ` set (mTasks m) \<and> tHasCtx (mObjs m t) \<and> ckVersion (tKey (mObjs m t)) = v \<and>
     tEpoch (mObjs m t) < epoch \<and> tPriority (mObjs m t) \<noteq> PriorityForeground"
  by (auto simp: cancelSessionTasksLocked_def cancelTasks_def)

text \<open>A seek of a handle while another handle is active leaves that handle's epoch and tasks alone.\<close>

lemma prepareRead_independent:
  assumes "\<not> released h" "\<not> mClosed m" "getSession (versionOf m (hFile h)) m = Some s"
    and "activeHandle s \<noteq> 0" "activeHandle s \<noteq> hId h" "\<not> inScheduledWindowLocked (mCfg m) s off"
    and "obEvent (snd (observeHandleLocked (mCfg m) h off n)) = EventSeek"
  shows "\<exists>pr h' m' s'. prepareRead now h off n m = (Inr pr, h', m') \<and> mObjs m' = mObjs m \<and>
    getSession (versionOf m (hFile h)) m' = Some s' \<and> ssEpoch s' = ssEpoch s \<and> activeHandle s' = activeHandle s \<and>
    cursor s' = cursor s \<and> \<not> prStream pr \<and> prEpoch pr = ssEpoch s"
proof -
  have ma: "getSession v (markActivityLocked now m) = getSession v m" "mObjs (markActivityLocked now m) = mObjs m" for v
    by (simp_all add: markActivityLocked_def scheduleIdleReclaimAfterLocked_def getSession_def Let_def)
  have "sessionLocked now (hFile h) (markActivityLocked now m) = (s, markActivityLocked now m)"
    using assms(3) by (simp add: sessionLocked_def ma)
  moreover have "prepareSession (mCfg m) (hId h) off (snd (observeHandleLocked (mCfg m) h off n)) s = (s, EventNone, True)"
    using assms by (simp add: prepareSession_def Let_def)
  ultimately show ?thesis
    using assms(1,2) by (simp add: prepareRead_def case_prod_beta Let_def ma) (simp add: setSession_def ma)
qed

section \<open>Hedge delays and latencies\<close>

lemma hedgeDelay_bounds:
  assumes "HedgeMinDelay (mCfg m) \<le> HedgeMaxDelay (mCfg m)"
  shows "HedgeMinDelay (mCfg m) \<le> hedgeDelay m" "hedgeDelay m \<le> HedgeMaxDelay (mCfg m)"
  using assms by (simp_all add: hedgeDelay_def Let_def)

text \<open>The index of the 95th percentile is in range.\<close>

lemma p95_index: "xs \<noteq> [] \<Longrightarrow> (length xs * 95 - 1) div 100 < length xs"
  by (cases xs) auto

section \<open>Shutdown\<close>

lemma closed_refuses:
  assumes "mClosed m"
  shows "OpenHandle now f m = (None, m)" "fst (ensureTaskLocked f i e p m) = None" "startHedge t m = (None, m)"
    "nextTask now m = (NextClosed, m)" "ctxErr m t = Some ErrCanceled" "CloseManager m = m"
    "\<not> released h \<Longrightarrow> fst (prepareRead now h off n m) = Inl (ErrText ''stream manager is closed'')"
  using assms
  by (simp_all add: OpenHandle_def ensureTaskLocked_def startHedge_def nextTask_def ctxErr_def CloseManager_def
      prepareRead_def case_prod_beta Let_def)

lemma Close_closes: "mClosed (CloseManager m)" "mIdleTimer (CloseManager m) = None \<or> mClosed m"
  by (simp_all add: CloseManager_def cancelTasks_def cancelIdleReclaimLocked_def)

lemma Release_twice:
  "Release now2 (fst (Release now h m)) (snd (Release now h m)) = Release now h m"
  by (cases "released h") (auto simp: Release_def Let_def)

section \<open>BufferAhead\<close>

lemma store_length_frame:
  "memory (snd (store_length k st)) = memory st" "diskReady (snd (store_length k st)) = diskReady st"
  "diskOff (snd (store_length k st)) = diskOff st"
  by (simp_all add: store_length_def diskOff_def split: option.split)

text \<open>The length of a chunk depends on the contents of the store only.\<close>

definition lengthOf :: "chunkStore \<Rightarrow> chunkKey \<Rightarrow> int option" where
  "lengthOf st k = fst (store_length k st)"

lemma lengthOf_same: "lengthOf (snd (store_length j st)) k = lengthOf st k"
  using store_length_frame [of j st] by (simp add: lengthOf_def store_length_def split: option.split)

lemma lengthOf_finite:
  assumes "finite (dom (memory st))" "finite (dom (diskReady st))"
  shows "finite {i. lengthOf st (ChunkKey v i) \<noteq> None}"
proof -
  have "{i. lengthOf st (ChunkKey v i) \<noteq> None} \<subseteq> ckIndex ` (dom (memory st) \<union> dom (diskReady st))"
  proof
    fix i assume "i \<in> {i. lengthOf st (ChunkKey v i) \<noteq> None}"
    then have "ChunkKey v i \<in> dom (memory st) \<union> dom (diskReady st)"
      by (auto simp: lengthOf_def store_length_def split: option.splits if_splits)
    then show "i \<in> ckIndex ` (dom (memory st) \<union> dom (diskReady st))" by force
  qed
  then show ?thesis using assms by (meson finite_Un finite_imageI finite_subset)
qed

lemma bufferLoop_step:
  "bufferLoop cs v first within index ready st =
     (let st1 = snd (store_length (ChunkKey v index) st) in
      case lengthOf st (ChunkKey v index) of
        None \<Rightarrow> Some (ready, st1)
      | Some n \<Rightarrow>
          if index = first \<and> n \<le> within then Some (ready, st1)
          else let ready1 = i64 (ready + (if index = first then n - within else n)) in
            if n < cs then Some (ready1, st1)
            else bufferLoop cs v first within (i64 (index + 1)) ready1 st1)"
  by (subst bufferLoop.simps) (simp add: lengthOf_def case_prod_beta Let_def)

text \<open>The loop ends: the store holds finitely many chunks, none with a negative number.\<close>

lemma bufferLoop_terminates:
  assumes "finite {i. lengthOf st (ChunkKey v i) \<noteq> None}" "\<forall>i. lengthOf st (ChunkKey v i) \<noteq> None \<longrightarrow> 0 \<le> i \<and> i < 2 ^ 63"
  shows "\<exists>r. bufferLoop cs v first within index ready st = Some r"
  using assms
proof (induction "card {i. index \<le> i \<and> lengthOf st (ChunkKey v i) \<noteq> None}" arbitrary: index ready st rule: less_induct)
  case less
  let ?S = "\<lambda>j. {i. j \<le> i \<and> lengthOf st (ChunkKey v i) \<noteq> None}"
  let ?st = "snd (store_length (ChunkKey v index) st)"
  show ?case
  proof (cases "lengthOf st (ChunkKey v index)")
    case None
    then show ?thesis by (simp add: bufferLoop_step [of cs v first within index] Let_def)
  next
    case (Some n)
    then have i: "0 \<le> index" "index < 2 ^ 63" using less.prems(2) by simp_all
    have "\<exists>r. bufferLoop cs v first within (i64 (index + 1)) ready1 ?st = Some r" for ready1
    proof (cases "index + 1 < 2 ^ 63")
      case True
      then have n: "i64 (index + 1) = index + 1" using i by (intro i64_nonneg_id) auto
      have fin: "finite (?S index)" using less.prems(1) by (rule rev_finite_subset) blast
      have "?S (index + 1) \<subset> ?S index" using Some by force
      then have "card (?S (index + 1)) < card (?S index)" using fin by (rule psubset_card_mono [rotated])
      then show ?thesis using less.hyps [of "index + 1" ?st] less.prems by (simp add: n lengthOf_same)
    next
      case False
      with i have "index + 1 = 2 ^ 63" by linarith
      then have "i64 (index + 1) = - (2 ^ 63)" by (simp add: i64_def)
      then have "lengthOf ?st (ChunkKey v (i64 (index + 1))) = None"
        using less.prems(2) by (auto simp: lengthOf_same)
      then show ?thesis by (simp add: bufferLoop_step [of cs v first within "i64 (index + 1)"] Let_def)
    qed
    then show ?thesis using Some by (simp add: bufferLoop_step [of cs v first within index] Let_def)
  qed
qed

text \<open>
  Its value: \<open>k\<close> full chunks, and then a missing chunk or a short one, whose \<open>l\<close> bytes count (\<open>l = 0\<close> for a missing
  one). The part of the first chunk before the cursor does not count, whether that chunk is full or short.
\<close>

definition run_ends :: "chunkStore \<Rightarrow> chunkKey \<Rightarrow> int \<Rightarrow> int \<Rightarrow> bool" where
  "run_ends st k cs l \<longleftrightarrow> lengthOf st k = None \<and> l = 0 \<or> lengthOf st k = Some l \<and> 0 \<le> l \<and> l < cs"

lemma bufferLoop_value:
  assumes "\<forall>i. index \<le> i \<and> i < index + int k \<longrightarrow> lengthOf st (ChunkKey v i) = Some cs"
    and "run_ends st (ChunkKey v (index + int k)) cs l" "0 < cs" "0 \<le> within" "within < cs" "0 \<le> index"
    and "index + int k < 2 ^ 63" "0 \<le> ready" "ready + (int k + 1) * cs < 2 ^ 63"
    and "first \<le> index"
  shows "\<exists>st'. bufferLoop cs v first within index ready st =
     Some (ready + (if index = first then max 0 (int k * cs + l - within) else int k * cs + l), st')"
  using assms
proof (induction k arbitrary: index ready st)
  case 0
  let ?n = "ready + (if index = first then l - within else l)"
  consider (missing) "lengthOf st (ChunkKey v index) = None" "l = 0"
    | (short) "lengthOf st (ChunkKey v index) = Some l" "0 \<le> l" "l < cs"
    using "0.prems"(2) by (auto simp: run_ends_def)
  then show ?case
  proof cases
    case missing
    then show ?thesis using "0.prems"(4) by (simp add: bufferLoop_step [of cs v first within index] Let_def)
  next
    case short
    show ?thesis
    proof (cases "index = first \<and> l \<le> within")
      case True
      then show ?thesis using short by (simp add: bufferLoop_step [of cs v first within first] Let_def)
    next
      case False
      have "ready + cs < 2 ^ 63" using "0.prems"(9) by simp
      then have "i64 ?n = ?n" using short "0.prems"(4,8) False by (intro i64_nonneg_id) auto
      then have "bufferLoop cs v first within index ready st = Some (?n, snd (store_length (ChunkKey v index) st))"
        using short False by (simp add: bufferLoop_step [of cs v first within index] Let_def split: if_split_asm)
      moreover have "?n = ready + (if index = first then max 0 (int 0 * cs + l - within) else int 0 * cs + l)"
        using False by auto
      ultimately show ?thesis by simp
    qed
  qed
next
  case (Suc k)
  let ?st = "snd (store_length (ChunkKey v index) st)"
  let ?d = "if index = first then within else 0"
  have h: "lengthOf st (ChunkKey v index) = Some cs" using Suc.prems(1) by simp
  have b: "ready + cs + (int k + 1) * cs < 2 ^ 63" using Suc.prems(9) by (simp add: algebra_simps)
  have pos: "0 \<le> int k * cs" "0 \<le> (int k + 1) * cs" using Suc.prems(3) by simp_all
  have l: "0 \<le> l" using Suc.prems(2) by (auto simp: run_ends_def)
  have "ready + cs < 2 ^ 63" using b pos by linarith
  then have "i64 (ready + cs - ?d) = ready + cs - ?d"
    using Suc.prems(3,4,5,8) by (intro i64_nonneg_id) auto
  moreover have "ready + (if index = first then cs - within else cs) = ready + cs - ?d" by simp
  ultimately have r: "i64 (ready + (if index = first then cs - within else cs)) = ready + cs - ?d" by metis
  have n: "i64 (index + 1) = index + 1" using Suc.prems(6,7) by (intro i64_nonneg_id) auto
  have "bufferLoop cs v first within index ready st =
      bufferLoop cs v first within (index + 1) (ready + cs - ?d) ?st"
    using h r n Suc.prems(3,5)
    by (subst bufferLoop_step) (simp add: Let_def)
  moreover have "\<exists>st'. bufferLoop cs v first within (index + 1) (ready + cs - ?d) ?st =
      Some (ready + cs - ?d + (if index + 1 = first then max 0 (int k * cs + l - within) else int k * cs + l), st')"
  proof (rule Suc.IH)
    show "run_ends ?st (ChunkKey v (index + 1 + int k)) cs l"
      using Suc.prems(2) by (simp add: run_ends_def lengthOf_same add.assoc)
    show "ready + cs - ?d + (int k + 1) * cs < 2 ^ 63" using b Suc.prems(4) by (simp split: if_split)
  qed (use Suc.prems in \<open>auto simp: lengthOf_same\<close>)
  moreover have "index + 1 \<noteq> first" using Suc.prems(10) by simp
  ultimately have "\<exists>st'. bufferLoop cs v first within index ready st = Some (ready + cs - ?d + (int k * cs + l), st')"
    by simp
  moreover have "ready + cs - ?d + (int k * cs + l) =
      ready + (if index = first then max 0 (int (Suc k) * cs + l - within) else int (Suc k) * cs + l)"
    using pos l Suc.prems(5) by (simp add: algebra_simps)
  ultimately show ?case by (simp only:)
qed

section \<open>The buffer ahead of a cursor\<close>

text \<open>The loop of \<open>BufferAhead\<close> ends, and counts the full chunks from the cursor on.\<close>

lemma BufferAhead_returns:
  assumes "mem_ok (mStore m)" "disk_sync (mStore m)"
    and "\<forall>k \<in> dom (memory (mStore m)) \<union> dom (diskReady (mStore m)). 0 \<le> ckIndex k \<and> ckIndex k < 2 ^ 63"
  shows "\<exists>r. BufferAhead f cur m = Some r"
proof -
  have fin: "finite (dom (memory (mStore m)))" "finite (dom (diskReady (mStore m)))"
    using assms(1,2) finite_dom_map_of [of "diskLRU (mStore m)"] finite_dom_map_of [of "lru (mStore m)"]
    by (simp_all add: mem_ok_def mem_sync_def disk_sync_def dom_def)
  have "\<exists>r. bufferLoop cs v first within index ready (mStore m) = Some r" for cs v first within index ready
    by (rule bufferLoop_terminates [OF lengthOf_finite [OF fin]])
      (use assms(3) in \<open>force simp: lengthOf_def store_length_def split: option.splits if_splits\<close>)
  then show ?thesis by (auto simp: BufferAhead_def Let_def)
qed

lemma BufferAhead_counts:
  assumes "0 < cs" "cs = ChunkSize (mCfg m)" "0 \<le> cur"
    and "\<forall>i<k. lengthOf (mStore m) (keyOf m f (cur div cs + int i)) = Some cs"
    and "run_ends (mStore m) (keyOf m f (cur div cs + int k)) cs l"
    and "cur + (int k + 1) * cs < 2 ^ 63"
  shows "\<exists>m'. BufferAhead f cur m = Some (max 0 (int k * cs + l - cur mod cs), m')"
proof -
  have d: "0 \<le> cur div cs" "cur div cs * cs \<le> cur" "cur div cs \<le> cur"
    using assms(1,3) by (simp_all add: pos_imp_zdiv_nonneg_iff minus_mod_eq_div_mult [symmetric] div_by_1 zdiv_mono2 [of cur 1 cs, simplified])
  have k: "int k \<le> int k * cs" using assms(1) mult_left_mono [of 1 cs "int k"] by simp
  have b: "cur + int k * cs + cs < 2 ^ 63" using assms(6) by (simp add: algebra_simps)
  have "lengthOf (mStore m) (keyOf m f i) = Some cs" if "cur div cs \<le> i" "i < cur div cs + int k" for i
    using assms(4) [rule_format, of "nat (i - cur div cs)"] that by simp
  moreover have "cur div cs + int k < 2 ^ 63" "0 + (int k + 1) * cs < 2 ^ 63" using d k b assms(1,3,6) by linarith+
  ultimately have "\<exists>st'. bufferLoop cs (versionOf m f) (cur div cs) (cur mod cs) (cur div cs) 0 (mStore m) =
      Some (0 + (if cur div cs = cur div cs then max 0 (int k * cs + l - cur mod cs) else int k * cs + l), st')"
    using assms d by (intro bufferLoop_value) simp_all
  moreover have "cur < 2 ^ 63" using b k assms(1) by linarith
  ultimately show ?thesis
    using assms(1,3) by (auto simp: BufferAhead_def Let_def assms(2) [symmetric] go_div_nonneg go_mod_nonneg)
qed

end
