(* ===== verification/StreamOpen.thy ===== *)
theory StreamOpen
  imports StreamSystem
begin

text \<open>
  Opening an engine over a cache directory that an earlier run left behind: whatever coherent chunk
  files (and torn temporary files) it holds, the new store starts coherent and the system starts in
  an initial state.
\<close>

lemma removePartialFiles_frame:
  "memory (snd (removePartialFiles os es s)) = memory s \<and> lru (snd (removePartialFiles os es s)) = lru s \<and>
   memoryBytes (snd (removePartialFiles os es s)) = memoryBytes s \<and>
   memoryLimit (snd (removePartialFiles os es s)) = memoryLimit s \<and>
   diskPath (snd (removePartialFiles os es s)) = diskPath s \<and>
   disk_sync (snd (removePartialFiles os es s)) = disk_sync s"
  by (induction os es s rule: removePartialFiles.induct) (auto simp: Let_def split: option.split)

lemma removePartialFiles_files:
  "files (snd (removePartialFiles os es s)) p = Some d \<Longrightarrow> files s p = Some d"
proof (induction os es s rule: removePartialFiles.induct)
  case (2 os e es s)
  then show ?case by (fastforce simp: Let_def split: option.splits if_splits)
qed simp

definition indexEntry :: "dirEntry \<Rightarrow> chunkStore \<Rightarrow> chunkStore" where
  "indexEntry e t =
     (let path = path_Join [diskPath t, deName e] in
      case parseChunkFileName (Base path) of
        None \<Rightarrow> t
      | Some k \<Rightarrow> addDiskLocked k path (case files t path of None \<Rightarrow> 0 | Some d \<Rightarrow> len d) t)"

lemma indexEntry_frame:
  "memory (indexEntry e s) = memory s" "lru (indexEntry e s) = lru s" "memoryBytes (indexEntry e s) = memoryBytes s"
  "memoryLimit (indexEntry e s) = memoryLimit s" "diskPath (indexEntry e s) = diskPath s"
  "files (indexEntry e s) = files s" "disk_sync s \<Longrightarrow> disk_sync (indexEntry e s)"
  by (auto simp: indexEntry_def Let_def split: option.split intro!: addDiskLocked_sync)

lemma indexEntries_frame:
  "memory (fold indexEntry es s) = memory s \<and> lru (fold indexEntry es s) = lru s \<and>
   memoryBytes (fold indexEntry es s) = memoryBytes s \<and> memoryLimit (fold indexEntry es s) = memoryLimit s \<and>
   diskPath (fold indexEntry es s) = diskPath s \<and> files (fold indexEntry es s) = files s \<and>
   (disk_sync s \<longrightarrow> disk_sync (fold indexEntry es s))"
  by (induction es arbitrary: s) (simp_all add: indexEntry_frame)

lemma loadDiskIndex_fold:
  "loadDiskIndex os es s = trimDiskLocked os (fold indexEntry
     (sort_key deModTime (filter (\<lambda>e. \<not> deIsDir e \<and> HasSuffix (deName e) ''.chunk'' \<and> deRegular e) es)) s)"
  unfolding loadDiskIndex_def Let_def indexEntry_def [abs_def] ..

lemma loadDiskIndex_props:
  assumes "loadDiskIndex os es s = (e, t)" "disk_sync s"
  shows "memory t = memory s" "lru t = lru s" "memoryBytes t = memoryBytes s" "memoryLimit t = memoryLimit s"
    "diskPath t = diskPath s" "disk_sync t" "files t p = Some d \<Longrightarrow> files s p = Some d"
proof -
  let ?u = "fold indexEntry
     (sort_key deModTime (filter (\<lambda>e. \<not> deIsDir e \<and> HasSuffix (deName e) ''.chunk'' \<and> deRegular e) es)) s"
  note fr = indexEntries_frame [of "sort_key deModTime (filter (\<lambda>e. \<not> deIsDir e \<and> HasSuffix (deName e) ''.chunk'' \<and> deRegular e) es)" s]
  have t: "t = snd (trimDiskLocked os ?u)" using assms(1) by (simp add: loadDiskIndex_fold)
  show "memory t = memory s" "lru t = lru s" "memoryBytes t = memoryBytes s" "memoryLimit t = memoryLimit s"
    "diskPath t = diskPath s" "disk_sync t"
    using fr assms(2) by (simp_all add: t trimDiskLocked_sync)
  show "files t p = Some d \<Longrightarrow> files s p = Some d" using trimDiskLocked_files [of os ?u p d] fr by (simp add: t)
qed

lemma emptyStore_ok: "0 \<le> ml \<Longrightarrow> mem_ok (emptyStore ml dp dl fs)" "disk_sync (emptyStore ml dp dl fs)"
  by (simp_all add: emptyStore_def mem_ok_def mem_sync_def disk_sync_def lru_total_def)

lemma newChunkStore_coherent:
  assumes new: "newChunkStore os mk d1 d2 ml dp dl fs = Inr st"
    and co: "files_coherent good (emptyStore ml dp dl fs)"
  shows "store_coherent good st \<and> disk_sync st"
proof -
  let ?e = "emptyStore ml dp dl fs"
  have ml: "0 \<le> ml" using new by (auto simp: newChunkStore_def split: if_splits)
  have e: "store_coherent good ?e" using co emptyStore_ok(1) [OF ml] by (simp add: store_coherent_def) (simp add: emptyStore_def)
  show ?thesis
  proof (cases "dp \<noteq> [] \<and> 0 < dl")
    case False
    then have "st = ?e" using new by (auto simp: newChunkStore_def Let_def split: if_splits)
    with e show ?thesis by (simp add: emptyStore_ok(2))
  next
    case True
    then obtain es1 es2 s1 where s1: "removePartialFiles os es1 ?e = (None, s1)"
      and st: "loadDiskIndex os es2 s1 = (None, st)"
      using new by (auto simp: newChunkStore_def Let_def split: if_splits option.splits sum.splits prod.splits)
    note f1 = removePartialFiles_frame [of os es1 ?e, unfolded s1 snd_conv]
    have "disk_sync s1" using f1 emptyStore_ok(2) by blast
    note f2 = loadDiskIndex_props [OF st this]
    have "mem_ok st" using mem_ok_cong [of st ?e] f1 f2 emptyStore_ok(1) [OF ml] by simp
    moreover have "files ?e p = Some d" if "files st p = Some d" for p d
      using removePartialFiles_files [of os es1 ?e p d] f2(7) [OF that] s1 by simp
    ultimately have "store_coherent good st"
      using f1 f2 by (intro store_coherent_less [OF e]) auto
    with f2(6) show ?thesis by simp
  qed
qed

definition startSystem :: "mgr \<Rightarrow> sys" where
  "startSystem m = \<lparr>sMgr = m, sWorkers = replicate (nat (Workers (mCfg m))) WIdle, sHedges = [],
     sDiskClosed = False, sBadSend = False\<rparr>"

lemma NewManager_init:
  assumes new: "NewManager os mk d1 d2 fs True cfg = Inr m" and cs: "ChunkSize (mCfg m) < 2 ^ 62"
    and co: "files_coherent (chunk_is c (mCfg m))
      (emptyStore (MemoryCache (mCfg m)) (CachePath (mCfg m)) (DiskCache (mCfg m)) fs)"
  shows "sys_init c (startSystem m)"
proof -
  from new obtain cfg' st where n: "normalizeConfig cfg = Inr cfg'"
    and st: "newChunkStore os mk d1 d2 (MemoryCache cfg') (CachePath cfg') (DiskCache cfg') fs = Inr st"
    and m: "m = newMgr cfg' st"
    by (auto simp: NewManager_def split: sum.splits)
  have c: "mCfg m = cfg'" by (simp add: m newMgr_def)
  have "cfg_ok cfg'" using normalizeConfig_config_ok [OF n] cs by (simp add: cfg_ok_def config_ok_def c)
  moreover have "cache_inv c cfg' st []" using newChunkStore_coherent [OF st] co by (simp add: cache_inv_def c)
  moreover have "mCfg (newMgr cfg' st) = cfg'" using c by (simp add: m)
  ultimately show ?thesis unfolding sys_init_def startSystem_def m
    by (intro exI [of _ cfg'] exI [of _ st]) simp
qed

end
