(* ===== verification/StreamExample.thy ===== *)
theory StreamExample
  imports StreamRead StreamPolicy StreamOpen
begin

text \<open>
  A small engine over a ten-byte file with chunks of four bytes: a concrete instance on which the
  theorems about the stream engine are exercised. Chunk \<open>0\<close> is cached from the start; a task
  for chunk \<open>1\<close> is queued in the second state.
\<close>

definition exFile :: File where
  "exFile = \<lparr>flFSID = ''7'', flSize = 10, flMTM = 3\<rparr>"

definition exContent :: content where
  "exContent fsid = map word_of_nat [0..<10]"

definition exCfg :: Config where
  "exCfg = DefaultConfig\<lparr>ChunkSize := 4\<rparr>"

definition exChunk :: bytes where
  "exChunk = map word_of_nat [0..<4]"

definition exStore :: chunkStore where
  "exStore = putMemory (ChunkKey (chunkVersion exFile 4) 0) exChunk (emptyStore 100 [] 0 Map.empty)"

definition exSys :: sys where
  "exSys = startSystem (newMgr exCfg exStore)"

definition exMgr1 :: mgr where
  "exMgr1 = snd (ensureTaskLocked exFile 1 0 PriorityForeground (newMgr exCfg exStore))"

definition exSys1 :: sys where
  "exSys1 = exSys\<lparr>sMgr := exMgr1\<rparr>"

lemma newMgr_simps [simp]:
  "mCfg (newMgr cfg st) = cfg" "mStore (newMgr cfg st) = st" "mNext (newMgr cfg st) = 0"
  "mClosed (newMgr cfg st) = False" "mTasks (newMgr cfg st) = []" "mSessions (newMgr cfg st) = []"
  "mSequence (newMgr cfg st) = 0" "mDiskWrites (newMgr cfg st) = []"
  by (simp_all add: newMgr_def)

lemma exCfg_simps [simp]:
  "ChunkSize exCfg = 4" "Workers exCfg = 8" "SessionWorkers exCfg = 6" "TargetBuffer exCfg = 256 * MiB"
  "BackBuffer exCfg = 32 * MiB" "HedgeMinDelay exCfg = 300 * milliseconds"
  "HedgeMaxDelay exCfg = 800 * milliseconds" "SeekThreshold exCfg = 16 * MiB" "ForwardGap exCfg = 8 * MiB"
  "IdleReclaim exCfg = 600 * seconds"
  by (simp_all add: exCfg_def DefaultConfig_def)

lemma exFile_simps [simp]: "flFSID exFile = ''7''" "flSize exFile = 10" "flMTM exFile = 3"
  by (simp_all add: exFile_def)

lemma ex_known: "known exContent exFile"
  by (simp add: known_def valid_file_def plainv_def exContent_def)

lemma ex_idx [simp]: "idx_ok exCfg 0" "idx_ok exCfg 1"
  by (simp_all add: idx_ok_def)

lemma ex_taskLength: "taskLength exCfg exFile 0 = 4" "taskLength exCfg exFile 1 = 4"
  by (simp_all add: taskLength_def Let_def i64_def)

lemma ex_chunk: "chunk_is exContent exCfg (ChunkKey (chunkVersion exFile 4) 0) exChunk"
proof -
  have "exChunk = bslice 0 4 (exContent ''7'')"
    by (simp add: exChunk_def exContent_def bslice_def take_map upt_conv_Cons numeral_eq_Suc)
  moreover have "len exChunk = 4" by (simp add: exChunk_def)
  ultimately show ?thesis
    using chunk_is_key [OF ex_known ex_idx(1), of exChunk] by (simp add: ex_taskLength)
qed

lemma ex_cache: "cache_inv exContent exCfg exStore []"
proof -
  have "cache_inv exContent exCfg (emptyStore 100 [] 0 Map.empty) []"
    using emptyStore_ok [of 100 "[]" 0 Map.empty]
    by (simp add: cache_inv_def store_coherent_def files_coherent_def) (simp add: emptyStore_def)
  then show ?thesis unfolding exStore_def by (rule cache_inv_put [OF _ ex_chunk])
qed

lemma ex_init: "sys_init exContent exSys"
  unfolding sys_init_def exSys_def startSystem_def
  by (intro exI [of _ exCfg] exI [of _ exStore]) (simp add: cfg_ok_def ex_cache)

lemma ex_reachable: "reachable (sys_init exContent) (sys_step exContent) exSys"
  using ex_init by (rule reach_init)

lemma ex_reachable1: "reachable (sys_init exContent) (sys_step exContent) exSys1"
proof (rule reach_step [OF ex_reachable])
  have "mop exContent (sMgr exSys) exMgr1"
    using mop_ensure [OF ex_known, of "newMgr exCfg exStore" 1 0 PriorityForeground]
    by (simp add: exMgr1_def exSys_def startSystem_def)
  then show "sys_step exContent exSys exSys1" unfolding exSys1_def by (rule client)
qed

lemma ex_memory: "memory exStore (ChunkKey (chunkVersion exFile 4) 0) = Some exChunk"
proof -
  have "mem_ok (emptyStore 100 [] 0 Map.empty)" by (rule emptyStore_ok) simp
  from mem.put_find_same [OF this] show ?thesis
    by (simp add: exStore_def exChunk_def emptyStore_def)
qed

lemma ex_store_simps:
  "memory exStore = [ChunkKey (chunkVersion exFile 4) 0 \<mapsto> exChunk]" "diskReady exStore = Map.empty"
  "diskLRU exStore = []" "diskEntries exStore = Map.empty" "diskBytes exStore = 0" "diskPath exStore = []"
  by (simp_all add: exStore_def putMemory_def emptyStore_def exChunk_def evictMemory.simps)

text \<open>A store with the end of the file: the full chunk \<open>1\<close> and the short chunk \<open>2\<close>.\<close>

definition exTailStore :: chunkStore where
  "exTailStore = putMemory (ChunkKey (chunkVersion exFile 4) 2) (map word_of_nat [8..<10])
     (putMemory (ChunkKey (chunkVersion exFile 4) 1) (map word_of_nat [4..<8]) (emptyStore 100 [] 0 Map.empty))"

lemma ex_tail_store:
  "mem_ok exTailStore" "disk_sync exTailStore" "diskReady exTailStore = Map.empty"
  "dom (memory exTailStore) = {ChunkKey (chunkVersion exFile 4) 1, ChunkKey (chunkVersion exFile 4) 2}"
  "lengthOf exTailStore (ChunkKey (chunkVersion exFile 4) 1) = Some 4"
  "lengthOf exTailStore (ChunkKey (chunkVersion exFile 4) 2) = Some 2"
proof -
  have "mem_ok (emptyStore 100 [] 0 Map.empty)" by (rule emptyStore_ok) simp
  then show "mem_ok exTailStore" unfolding exTailStore_def by (intro putMemory_ok)
  show "disk_sync exTailStore" "diskReady exTailStore = Map.empty"
    "dom (memory exTailStore) = {ChunkKey (chunkVersion exFile 4) 1, ChunkKey (chunkVersion exFile 4) 2}"
    by (auto simp: disk_sync_def exTailStore_def putMemory_def emptyStore_def evictMemory.simps)
  show "lengthOf exTailStore (ChunkKey (chunkVersion exFile 4) 1) = Some 4"
    "lengthOf exTailStore (ChunkKey (chunkVersion exFile 4) 2) = Some 2"
    by (simp_all add: lengthOf_def store_length_def diskOff_def exTailStore_def putMemory_def emptyStore_def evictMemory.simps)
qed

section \<open>A read that is served from the cache\<close>

lemma prepareRead_frame:
  "mStore (snd (snd (prepareRead now h off n m))) = mStore m" "mCfg (snd (snd (prepareRead now h off n m))) = mCfg m"
  by (simp_all add: prepareRead_def case_prod_beta Let_def setSession_def cancelSessionTasksLocked_def
      cancelTasks_def sessionLocked_def markActivityLocked_def scheduleIdleReclaimAfterLocked_def
      split: option.split)

lemma prepareRead_open:
  "\<not> released h \<Longrightarrow> \<not> mClosed m \<Longrightarrow> \<exists>pr h' m'. prepareRead now h off n m = (Inr pr, h', m')"
  by (simp add: prepareRead_def case_prod_beta Let_def)

definition exHandle :: Handle where
  "exHandle = newHandle exFile 1"

lemma ex_read: "\<exists>h' s'. read_at exContent exHandle 1 2 exSys (Inr [1, 2]) h' s'"
proof -
  have h: "\<not> released exHandle" "hFile exHandle = exFile" by (simp_all add: exHandle_def newHandle_def)
  have m: "sMgr exSys = newMgr exCfg exStore" by (simp add: exSys_def startSystem_def)
  obtain pr h' m' where p: "prepareRead 0 exHandle 1 2 (newMgr exCfg exStore) = (Inr pr, h', m')"
    using prepareRead_open [OF h(1), of "newMgr exCfg exStore" 0 1 2] by auto
  have fr: "mStore m' = exStore" "mCfg m' = exCfg"
    using prepareRead_frame [of 0 exHandle 1 2 "newMgr exCfg exStore"] p by simp_all
  let ?s = "exSys\<lparr>sMgr := m'\<rparr>" and ?touch = "prMode pr \<noteq> ModeStream \<or> \<not> prStream pr"
  have "\<exists>m''. cacheLookup quiet_os ?touch (keyOf (sMgr ?s) exFile 0) (sMgr ?s) = (Some exChunk, m'')"
    using ex_memory by (simp add: cacheLookup_def store_get_def getWithoutTouch_def getWithTouch_def fr)
  then obtain m'' where "cacheLookup quiet_os ?touch (keyOf (sMgr ?s) exFile 0) (sMgr ?s) = (Some exChunk, m'')" by blast
  from cr_hit [OF this, of exContent "prEpoch pr"]
  have "chunks_read exContent exFile (prEpoch pr) ?touch [0] ?s (Inr [exChunk]) (exSys\<lparr>sMgr := m''\<rparr>)"
    by (auto intro!: cs_cons [OF rtranclp.rtrancl_refl] cs_nil)
  moreover have "readChunks exCfg 1 2 = [0]"
    by (simp add: readChunks_def go_div_def i64_def upto_rec1)
  ultimately have "read_at exContent exHandle 1 2 exSys
      (assemble exCfg 1 2 (go_div 1 4) [exChunk] []) h' (exSys\<lparr>sMgr := m''\<rparr>)"
    using ra_done [of exHandle 1 2 2 0 exSys pr h' m' exContent "[exChunk]" "exSys\<lparr>sMgr := m''\<rparr>"] p
    by (simp add: m h readCheck_def i64_def)
  moreover have "assemble exCfg 1 2 (go_div 1 4) [exChunk] [] = Inr [1, 2]"
    by (simp add: go_div_def i64_def exChunk_def bslice_def Let_def upt_conv_Cons numeral_eq_Suc)
  ultimately show ?thesis by auto
qed

section \<open>A finished task\<close>

text \<open>\<open>ensureTask\<close> on the cached chunk returns a task that is finished from the start.\<close>

definition exSys2 :: sys where
  "exSys2 = exSys\<lparr>sMgr := snd (ensureTask quiet_os exFile 0 0 PriorityForeground (newMgr exCfg exStore))\<rparr>"

lemma ex_hit: "store_get quiet_os (ChunkKey (chunkVersion exFile 4) 0) exStore =
   (Some exChunk, exStore\<lparr>lru := lru_touch (ChunkKey (chunkVersion exFile 4) 0) (lru exStore)\<rparr>)"
  using ex_memory by (simp add: store_get_def getWithTouch_def)

lemma ex_done:
  "mNext (sMgr exSys2) = 1" "tDone (mObjs (sMgr exSys2) 0)" "taskResult (sMgr exSys2) 0 = Inr exChunk"
  by (simp_all add: exSys2_def ensureTask_def ex_hit Let_def allocTask_def finishedTask_def emptyTask_def taskResult_def)

lemma ex_reachable2: "reachable (sys_init exContent) (sys_step exContent) exSys2"
proof (rule reach_step [OF ex_reachable])
  have "mop exContent (sMgr exSys) (sMgr exSys2)"
    using mop_hit [OF ex_known, of "newMgr exCfg exStore" 0 quiet_os exChunk _ 0 PriorityForeground] ex_hit
    by (simp add: exSys2_def exSys_def startSystem_def ensureTask_def Let_def case_prod_beta)
  from client [of exContent exSys, OF this] show "sys_step exContent exSys exSys2" by (simp add: exSys2_def)
qed

section \<open>A worker takes the queued task\<close>

lemma ex_first: "fst (ensureTaskLocked exFile 1 0 PriorityForeground (newMgr exCfg exStore)) = Some 0"
  by (simp add: ensureTaskLocked_def liveTask_def ex_taskLength allocTask_def Let_def)

lemma ex_queued:
  "hItems (mQueue exMgr1) = [0]" "mClosed exMgr1 = False" "mSessions exMgr1 = []"
  "tFinished (mObjs exMgr1 0) = False" "tCanceled (mObjs exMgr1 0) = False"
  by (simp_all add: exMgr1_def ensureTaskLocked_def liveTask_def ex_taskLength allocTask_def Let_def pushQueue_def
      heapPush_def heapAppend_def heapUp.simps newMgr_def newTask_def emptyTask_def)

lemma ex_next: "fst (nextTask now exMgr1) = NextTask 0"
proof -
  note q = ex_queued
  then have "fst (popQueue exMgr1) = 0"
    by (simp add: popQueue_def heapPop_def heapSwap_def heapDown.simps heapDropLast_def Let_def split: prod.split)
  with q show ?thesis
    by (simp add: nextTask_def nextScan.simps [of now "[]" exMgr1] Let_def ctxErr_def overLimit_def getSession_def)
qed

definition exSys3 :: sys where
  "exSys3 = exSys1\<lparr>sMgr := snd (nextTask 5 exMgr1), sWorkers := (sWorkers exSys1)[0 := WDownload 0]\<rparr>"

lemma ex_workers3: "sWorkers exSys3 = (replicate 8 WIdle)[0 := WDownload 0]"
  by (simp add: exSys3_def exSys1_def exSys_def startSystem_def)

lemma ex_reachable3: "reachable (sys_init exContent) (sys_step exContent) exSys3"
proof (rule reach_step [OF ex_reachable1])
  have "nextTask 5 (sMgr exSys1) = (NextTask 0, snd (nextTask 5 exMgr1))"
    using ex_next [of 5] by (simp add: exSys1_def prod_eq_iff)
  then show "sys_step exContent exSys1 exSys3"
    unfolding exSys3_def by (intro next_task) (simp_all add: exSys1_def exSys_def startSystem_def)
qed

end
