(* ===== verification/BaiduClient.thy ===== *)
theory BaiduClient
  imports GoStrings
begin

text \<open>
  The client of the drive's web API (\<open>internal/baidu\<close>): listing with pagination, metadata, download
  links and their cache, deletion, token refresh, and the download of a byte range with its checks
  of the response.

  The network is a parameter: a \<open>wire\<close> maps a request to the error of building or sending it, or to a reply.
  A request is the method, the URL it is built from, the query parameters the code sets
  (\<open>url.Values\<close>), the form and the headers. A reply has the status, the body or the error of reading it,
  and what \<open>json.Unmarshal\<close> makes of the body. Times are nanoseconds; the zero \<open>time.Time\<close> is
  \<open>None\<close>. The fields of the client that hold HTTP clients and the token callback are arguments.
\<close>

section \<open>Types\<close>

record RemoteEntry =
  reFSID :: string
  reServerName :: string
  rePath :: string
  reSize :: int
  reIsDir :: bool
  reServerMTime :: int
  reLocalMTime :: int
  reMD5 :: string

record Entry =
  enFSID :: string
  enPath :: string
  enName :: string
  enSize :: int
  enIsDir :: bool
  enMTM :: int
  enMD5 :: string

record DownloadLink =
  dlURL :: string
  dlExpiresAt :: "int option"

record apiListEntry =
  alFSID :: int
  alServerName :: string
  alPath :: string
  alSize :: int
  alIsDir :: int
  alServerMTime :: int
  alLocalMTime :: int
  alMD5 :: string

record apiListResponse =
  arEntries :: "apiListEntry list"
  arHasMore :: int
  arNext :: int
  arErrorCode :: int
  arErrorMsg :: string

record apiFileMeta = apiListEntry +
  amDLink :: string

record apiFileMetaResponse =
  amEntries :: "apiFileMeta list"
  amList :: "apiFileMeta list"
  amErrorCode :: int
  amErrorMsg :: string

record apiFileManagerResponse =
  afErrorCode :: int
  afErrorMsg :: string
  afErrorMsg2 :: string

record tokenResponse =
  trAccessToken :: string
  trRefreshToken :: string

record request =
  rqMethod :: string
  rqURL :: string
  rqQuery :: "(string \<times> string) list"
  rqForm :: "(string \<times> string list) list"
  rqHeaders :: "(string \<times> string) list"

record 'a reply =
  rpStatus :: int
  rpBody :: "goerr + string"
  rpJSON :: "goerr + 'a"

type_synonym 'a wire = "request \<Rightarrow> goerr + 'a reply"

record APIClient =
  accessToken :: string
  refreshToken :: string
  clientID :: string
  clientSecret :: string
  tokenURL :: string
  apiBaseURL :: string
  links :: "string \<rightharpoonup> DownloadLink"

section \<open>Construction\<close>

record httpTransport =
  htMaxIdleConns :: int
  htMaxIdleConnsPerHost :: int
  htMaxConnsPerHost :: int
  htResponseHeaderTimeout :: int

record httpClient =
  hcTimeout :: int
  hcTransport :: httpTransport

definition newHTTPTransport :: "int \<Rightarrow> int \<Rightarrow> httpTransport" where
  "newHTTPTransport perHost responseHeaderTimeout =
     \<lparr>htMaxIdleConns = perHost * 2, htMaxIdleConnsPerHost = perHost, htMaxConnsPerHost = perHost,
      htResponseHeaderTimeout = responseHeaderTimeout\<rparr>"

definition NewMetadataHTTPClient :: httpClient where
  "NewMetadataHTTPClient =
     \<lparr>hcTimeout = 30 * 1000000000, hcTransport = newHTTPTransport 2 (15 * 1000000000)\<rparr>"

definition NewDownloadHTTPClient :: "int \<Rightarrow> httpClient" where
  "NewDownloadHTTPClient concurrency =
     (let perHost = (if concurrency + 8 < 12 then 12 else concurrency + 8)
      in \<lparr>hcTimeout = 75 * 1000000000, hcTransport = newHTTPTransport perHost (30 * 1000000000)\<rparr>)"

definition NewAPIClient :: "string \<Rightarrow> string \<Rightarrow> string \<Rightarrow> string \<Rightarrow> string \<Rightarrow> string \<Rightarrow> APIClient" where
  "NewAPIClient access refresh cid secret base turl =
     \<lparr>accessToken = access, refreshToken = refresh, clientID = cid, clientSecret = secret,
      tokenURL = (if turl = [] then ''https://openapi.baidu.com/oauth/2.0/token'' else turl),
      apiBaseURL = (if base = [] then ''https://pan.baidu.com'' else base),
      links = Map.empty\<rparr>"

section \<open>Calls of the JSON API\<close>

definition doJSON :: "'a wire \<Rightarrow> request \<Rightarrow> goerr + 'a" where
  "doJSON wire req =
     (case wire req of Inl e \<Rightarrow> Inl e | Inr resp \<Rightarrow>
      case rpBody resp of Inl e \<Rightarrow> Inl e | Inr body \<Rightarrow>
        if 400 \<le> rpStatus resp then Inl (ErrText (''baidu api failed: '' @ TrimSpace body))
        else rpJSON resp)"

definition getJSON :: "'a wire \<Rightarrow> string \<Rightarrow> (string \<times> string) list \<Rightarrow> goerr + 'a" where
  "getJSON wire rawurl values =
     doJSON wire \<lparr>rqMethod = ''GET'', rqURL = rawurl, rqQuery = values, rqForm = [], rqHeaders = []\<rparr>"

definition listToRemote :: "('a) apiListEntry_scheme \<Rightarrow> RemoteEntry" where
  "listToRemote m =
     \<lparr>reFSID = FormatInt (alFSID m), reServerName = alServerName m, rePath = alPath m,
      reSize = alSize m, reIsDir = (alIsDir m \<noteq> 0), reServerMTime = alServerMTime m,
      reLocalMTime = alLocalMTime m, reMD5 = alMD5 m\<rparr>"

definition metaToRemote :: "apiFileMeta \<Rightarrow> RemoteEntry" where
  "metaToRemote m = listToRemote m"

definition MapRemoteEntry :: "RemoteEntry \<Rightarrow> Entry" where
  "MapRemoteEntry r =
     \<lparr>enFSID = reFSID r, enPath = rePath r, enName = reServerName r, enSize = reSize r,
      enIsDir = reIsDir r, enMTM = reServerMTime r, enMD5 = reMD5 r\<rparr>"

definition listValues :: "string \<Rightarrow> string \<Rightarrow> int \<Rightarrow> (string \<times> string) list" where
  "listValues token path mark =
     [(''method'', ''list''), (''access_token'', token), (''dir'', path), (''limit'', ''200'')] @
     (if 0 < mark then [(''start'', FormatInt mark)] else [])"

definition listPage :: "apiListResponse wire \<Rightarrow> APIClient \<Rightarrow> string \<Rightarrow> int \<Rightarrow> goerr + apiListResponse" where
  "listPage wire c path mark =
     (case getJSON wire (apiBaseURL c @ ''/rest/2.0/xpan/file'') (listValues (accessToken c) path mark) of
        Inl e \<Rightarrow> Inl e
      | Inr resp \<Rightarrow>
          if arErrorCode resp \<noteq> 0 \<and> arErrorCode resp \<noteq> 109
          then Inl (ErrText (''baidu list failed: '' @ arErrorMsg resp)) else Inr resp)"

text \<open>The loop of \<open>List\<close>; \<open>None\<close> would be a listing that never ends.\<close>

partial_function (option) listLoop ::
  "apiListResponse wire \<Rightarrow> APIClient \<Rightarrow> string \<Rightarrow> int \<Rightarrow> RemoteEntry list \<Rightarrow> (goerr + RemoteEntry list) option" where
  "listLoop wire c path mark out =
     (case listPage wire c path mark of
        Inl e \<Rightarrow> Some (Inl e)
      | Inr resp \<Rightarrow>
          let out1 = out @ map listToRemote (arEntries resp)
          in if arHasMore resp = 0 \<or> arNext resp \<le> mark \<or> arEntries resp = []
             then Some (Inr out1)
             else listLoop wire c path (arNext resp) out1)"

definition List :: "apiListResponse wire \<Rightarrow> APIClient \<Rightarrow> string \<Rightarrow> (goerr + RemoteEntry list) option" where
  "List wire c path = listLoop wire c path 0 []"

definition emptyRemote :: RemoteEntry where
  "emptyRemote = \<lparr>reFSID = [], reServerName = [], rePath = [], reSize = 0, reIsDir = False,
     reServerMTime = 0, reLocalMTime = 0, reMD5 = []\<rparr>"

text \<open>The request and the choice of the entries that \<open>Stat\<close> and \<open>GetDownloadLink\<close> share.\<close>

definition fileMetas :: "apiFileMetaResponse wire \<Rightarrow> APIClient \<Rightarrow> string \<Rightarrow> string \<Rightarrow> goerr + apiFileMeta list" where
  "fileMetas wire c what fsid =
     (case getJSON wire (apiBaseURL c @ ''/rest/2.0/xpan/multimedia'')
             [(''method'', ''filemetas''), (''access_token'', accessToken c),
              (''fsids'', ''['' @ fsid @ '']''), (''dlink'', ''1'')] of
        Inl e \<Rightarrow> Inl e
      | Inr resp \<Rightarrow>
          if amErrorCode resp \<noteq> 0
          then Inl (ErrText (''baidu '' @ what @ '' failed: '' @ amErrorMsg resp))
          else Inr (if amEntries resp = [] then amList resp else amEntries resp))"

definition Stat :: "apiFileMetaResponse wire \<Rightarrow> APIClient \<Rightarrow> string \<Rightarrow> goerr + RemoteEntry" where
  "Stat wire c path =
     (case fileMetas wire c ''stat'' path of
        Inl e \<Rightarrow> Inl e
      | Inr [] \<Rightarrow> Inr emptyRemote
      | Inr (m # ms) \<Rightarrow> Inr (metaToRemote m))"

definition Delete :: "apiFileManagerResponse wire \<Rightarrow> APIClient \<Rightarrow> string list \<Rightarrow> goerr option" where
  "Delete wire c paths =
     (if paths = [] then None
      else case doJSON wire
             \<lparr>rqMethod = ''POST'', rqURL = apiBaseURL c @ ''/rest/2.0/xpan/file'',
              rqQuery = [(''method'', ''filemanager''), (''opera'', ''delete''), (''access_token'', accessToken c)],
              rqForm = [(''async'', [''0'']), (''filelist'', paths)],
              rqHeaders = [(''Content-Type'', ''application/x-www-form-urlencoded'')]\<rparr> of
          Inl e \<Rightarrow> Some e
        | Inr resp \<Rightarrow>
            if afErrorCode resp \<noteq> 0
            then let msg = (if afErrorMsg resp = [] then afErrorMsg2 resp else afErrorMsg resp);
                     msg1 = (if msg = [] then ''errno='' @ FormatInt (afErrorCode resp) else msg)
                 in Some (ErrText (''baidu delete failed: '' @ msg1))
            else None)"

section \<open>Download links\<close>

definition cachedDownloadLink :: "int \<Rightarrow> string \<Rightarrow> APIClient \<Rightarrow> DownloadLink option \<times> APIClient" where
  "cachedDownloadLink now fsid c =
     (case links c fsid of
        None \<Rightarrow> (None, c)
      | Some link \<Rightarrow>
          if (case dlExpiresAt link of None \<Rightarrow> False | Some e \<Rightarrow> e < now)
          then (None, c\<lparr>links := (links c)(fsid := None)\<rparr>)
          else (Some link, c))"

definition cacheDownloadLink :: "string \<Rightarrow> DownloadLink \<Rightarrow> APIClient \<Rightarrow> APIClient" where
  "cacheDownloadLink fsid link c = c\<lparr>links := (links c)(fsid \<mapsto> link)\<rparr>"

definition InvalidateDownloadLink :: "string \<Rightarrow> APIClient \<Rightarrow> APIClient" where
  "InvalidateDownloadLink fsid c = (if fsid = [] then c else c\<lparr>links := (links c)(fsid := None)\<rparr>)"

text \<open>\<open>resolveDownloadURL\<close> does not follow redirects; the decoded part of the reply is the
  \<open>Location\<close> header. \<open>io.LimitReader\<close> cuts the body at 512 bytes and its error is ignored.\<close>

definition bodyHead :: "'a reply \<Rightarrow> string" where
  "bodyHead resp = (case rpBody resp of Inl e \<Rightarrow> [] | Inr b \<Rightarrow> TrimSpace (take 512 b))"

definition resolveDownloadURL :: "string wire \<Rightarrow> APIClient \<Rightarrow> string \<Rightarrow> goerr + string" where
  "resolveDownloadURL wire c link =
     (case wire \<lparr>rqMethod = ''HEAD'', rqURL = link, rqQuery = [(''access_token'', accessToken c)],
                 rqForm = [], rqHeaders = [(''User-Agent'', ''pan.baidu.com'')]\<rparr> of
        Inl e \<Rightarrow> Inl e
      | Inr resp \<Rightarrow>
          if 400 \<le> rpStatus resp then Inl (ErrText (''download head failed: '' @ bodyHead resp))
          else case rpJSON resp of
                 Inr location \<Rightarrow> Inr (if location = [] then link else location)
               | Inl e \<Rightarrow> Inr link)"

abbreviation linkLifetime :: int where
  "linkLifetime \<equiv> 600 * 1000000000"

definition GetDownloadLink ::
  "apiFileMetaResponse wire \<Rightarrow> string wire \<Rightarrow> int \<Rightarrow> string \<Rightarrow> APIClient \<Rightarrow> (goerr + DownloadLink) \<times> APIClient" where
  "GetDownloadLink metaWire headWire now fsid c =
     (case cachedDownloadLink now fsid c of
        (Some link, c1) \<Rightarrow> (Inr link, c1)
      | (None, c1) \<Rightarrow>
          case fileMetas metaWire c1 ''dlink'' fsid of
            Inl e \<Rightarrow> (Inl e, c1)
          | Inr [] \<Rightarrow> (Inl (ErrText ''missing file metadata''), c1)
          | Inr (m # ms) \<Rightarrow>
              if amDLink m = [] then (Inl (ErrText ''missing download link''), c1)
              else case resolveDownloadURL headWire c1 (amDLink m) of
                     Inl e \<Rightarrow> (Inl e, c1)
                   | Inr finalURL \<Rightarrow>
                       let out = \<lparr>dlURL = finalURL, dlExpiresAt = Some (now + linkLifetime)\<rparr>
                       in (Inr out, cacheDownloadLink fsid out c1))"

section \<open>Token refresh\<close>

text \<open>The exchange of \<open>RefreshAuth\<close> with the token server, then the update of the client.\<close>

definition refreshExchange :: "tokenResponse wire \<Rightarrow> APIClient \<Rightarrow> goerr + tokenResponse" where
  "refreshExchange wire c =
     (if refreshToken c = [] then Inl (ErrText ''refresh token is required'')
      else case wire \<lparr>rqMethod = ''GET'', rqURL = tokenURL c,
             rqQuery = [(''grant_type'', ''refresh_token''), (''refresh_token'', refreshToken c),
                        (''client_id'', clientID c), (''client_secret'', clientSecret c)],
             rqForm = [], rqHeaders = []\<rparr> of
        Inl e \<Rightarrow> Inl e
      | Inr resp \<Rightarrow>
          case rpBody resp of Inl e \<Rightarrow> Inl e | Inr body \<Rightarrow>
            if 400 \<le> rpStatus resp then Inl (ErrText (''refresh failed: '' @ TrimSpace body))
            else case rpJSON resp of Inl e \<Rightarrow> Inl e | Inr out \<Rightarrow>
              if trAccessToken out = [] then Inl (ErrText ''missing access token'') else Inr out)"

definition RefreshAuth ::
  "tokenResponse wire \<Rightarrow> (string \<Rightarrow> string \<Rightarrow> goerr option) option \<Rightarrow> APIClient \<Rightarrow> goerr option \<times> APIClient" where
  "RefreshAuth wire onTokenUpdate c =
     (case refreshExchange wire c of
        Inl e \<Rightarrow> (Some e, c)
      | Inr out \<Rightarrow>
          let c1 = c\<lparr>accessToken := trAccessToken out,
                     refreshToken := (if trRefreshToken out = [] then refreshToken c else trRefreshToken out),
                     links := Map.empty\<rparr>
          in (case onTokenUpdate of None \<Rightarrow> None | Some f \<Rightarrow> f (accessToken c1) (refreshToken c1), c1))"

section \<open>Reading a byte range\<close>

text \<open>\<open>strconv.Quote\<close> on printable text: quote and backslash are escaped.\<close>

definition Quote :: "string \<Rightarrow> string" where
  "Quote s = CHR 0x22 # concat (map (\<lambda>c. if c = CHR 0x22 \<or> c = CHR 0x5C then [CHR 0x5C, c] else [c]) s) @ [CHR 0x22]"

definition parseContentRange :: "string \<Rightarrow> goerr + (int \<times> int \<times> int)" where
  "parseContentRange value =
     (let bad = Inl (ErrText (''invalid content range '' @ Quote value)) in
      if \<not> HasPrefix value ''bytes '' then bad
      else case SplitN2 CHR ''/'' (TrimPrefix value ''bytes '') of
        [p, q] \<Rightarrow>
          (case SplitN2 CHR ''-'' p of
             [a, b] \<Rightarrow>
               (case ParseInt a of None \<Rightarrow> bad | Some start \<Rightarrow>
                case ParseInt b of None \<Rightarrow> bad | Some end \<Rightarrow>
                  if end < start then bad
                  else if q = ''*'' then Inr (start, end, - 1)
                  else case ParseInt q of None \<Rightarrow> bad | Some whole \<Rightarrow>
                    if whole \<le> end then bad else Inr (start, end, whole))
           | _ \<Rightarrow> bad)
      | _ \<Rightarrow> bad)"

text \<open>A response to a range request: status, head of the body, the \<open>Content-Range\<close> header, what the
  calls of \<open>Body.Read\<close> return in turn, and \<open>downloadCtx.Err()\<close> after each of them.\<close>

record rangeResponse =
  rrStatus :: int
  rrHead :: string
  rrContentRange :: string
  rrReads :: "nat \<Rightarrow> bytes \<times> goerr option"
  rrCtx :: "nat \<Rightarrow> goerr option"

definition bodyTimeout :: "int \<Rightarrow> int \<Rightarrow> goerr \<Rightarrow> goerr" where
  "bodyTimeout n want e =
     ErrWrap (''download range body timeout after '' @ FormatInt n @ '' of '' @ FormatInt want @ '' bytes: '') e"

definition bodyShort :: "int \<Rightarrow> int \<Rightarrow> goerr \<Rightarrow> goerr" where
  "bodyShort n want e =
     ErrWrap (''download range body length '' @ FormatInt n @ '', declared '' @ FormatInt want @ '': '') e"

text \<open>The loop that fills \<open>dst\<close>: \<open>acc\<close> is \<open>dst[:n]\<close>, and the result carries the number of the next
  call of \<open>Read\<close>.\<close>

function bodyLoop :: "rangeResponse \<Rightarrow> int \<Rightarrow> nat \<Rightarrow> bytes \<Rightarrow> nat \<times> bytes \<times> goerr option" where
  "bodyLoop resp want i acc =
     (if len acc < want then
        let (d, err) = rrReads resp i; acc1 = acc @ d; n = len acc1 in
        case err of
          Some e \<Rightarrow>
            (case rrCtx resp i of
               Some ce \<Rightarrow> (i + 1, acc1, Some (bodyTimeout n want ce))
             | None \<Rightarrow>
                 if errors_Is e ErrEOF \<and> n = want then (i + 1, acc1, None)
                 else (i + 1, acc1, Some (bodyShort n want (if errors_Is e ErrEOF then ErrUnexpectedEOF else e))))
        | None \<Rightarrow>
            if d = [] then (i + 1, acc1, Some (bodyShort n want ErrNoProgress))
            else bodyLoop resp want (i + 1) acc1
      else (i, acc, None))"
  by pat_completeness auto
termination
  by (relation "measure (\<lambda>(resp, want, i, acc). nat (want - len acc))") (auto simp: neq_Nil_conv)

declare bodyLoop.simps [simp del]

definition readBody :: "rangeResponse \<Rightarrow> int \<Rightarrow> bytes \<times> goerr option" where
  "readBody resp want =
     (let (i, d, err) = bodyLoop resp want 0 []; (x, xerr) = rrReads resp i in
      case err of
        Some e \<Rightarrow> (d, Some e)
      | None \<Rightarrow>
          if x \<noteq> [] then (d, Some (ErrText (''download range exceeded declared length '' @ FormatInt want)))
          else case xerr of
                 None \<Rightarrow> (d, None)
               | Some e \<Rightarrow>
                   if errors_Is e ErrEOF then (d, None)
                   else case rrCtx resp i of
                          Some ce \<Rightarrow> (d, Some (bodyTimeout (len d) want ce))
                        | None \<Rightarrow> (d, Some e))"

definition checkRange :: "int \<Rightarrow> int \<Rightarrow> rangeResponse \<Rightarrow> goerr + int" where
  "checkRange offset end resp =
     (if rrStatus resp \<noteq> 206
      then Inl (ErrText (''download range failed: status='' @ FormatInt (rrStatus resp) @ '' body='' @
             TrimSpace (take 512 (rrHead resp))))
      else case parseContentRange (rrContentRange resp) of
        Inl e \<Rightarrow> Inl e
      | Inr (start, rangeEnd, whole) \<Rightarrow>
          if start \<noteq> offset
          then Inl (ErrText (''download content range starts at '' @ FormatInt start @ '', want '' @ FormatInt offset))
          else if end < rangeEnd
          then Inl (ErrText (''download content range ends at '' @ FormatInt rangeEnd @ '', requested at most '' @ FormatInt end))
          else if rangeEnd < end \<and> \<not> (0 \<le> whole \<and> rangeEnd = whole - 1)
          then Inl (ErrWrap (''download content range ends at '' @ FormatInt rangeEnd @ '' before requested end '' @
                 FormatInt end @ '': '') ErrUnexpectedEOF)
          else Inr (i64 (rangeEnd - start + 1)))"

text \<open>The range request: its failure comes with \<open>downloadCtx.Err()\<close>.\<close>

type_synonym range_wire = "request \<Rightarrow> (goerr \<times> goerr option) + rangeResponse"

definition ReadRange ::
  "apiFileMetaResponse wire \<Rightarrow> string wire \<Rightarrow> range_wire \<Rightarrow> int \<Rightarrow> string \<Rightarrow> int \<Rightarrow> int \<Rightarrow> APIClient \<Rightarrow>
   (bytes \<times> goerr option) \<times> APIClient" where
  "ReadRange metaWire headWire rangeWire now fsid offset dstLen c =
     (if offset < 0 then (([], Some (ErrText ''offset must be non-negative'')), c)
      else if dstLen = 0 then (([], None), c)
      else case GetDownloadLink metaWire headWire now fsid c of
        (Inl e, c1) \<Rightarrow> (([], Some e), c1)
      | (Inr link, c1) \<Rightarrow>
          let end = i64 (offset + dstLen - 1) in
          case rangeWire \<lparr>rqMethod = ''GET'', rqURL = dlURL link, rqQuery = [], rqForm = [],
                 rqHeaders = [(''Range'', ''bytes='' @ FormatInt offset @ ''-'' @ FormatInt end),
                              (''User-Agent'', ''pan.baidu.com'')]\<rparr> of
            Inl (e, Some ce) \<Rightarrow> (([], Some (ErrWrap ''download range timed out or canceled: '' ce)), c1)
          | Inl (e, None) \<Rightarrow> (([], Some e), c1)
          | Inr resp \<Rightarrow>
              (case checkRange offset end resp of
                 Inl e \<Rightarrow> (([], Some e), c1)
               | Inr want \<Rightarrow> (readBody resp want, c1)))"

section \<open>The static client\<close>

definition StaticList :: "(string \<Rightarrow> RemoteEntry list) \<Rightarrow> string \<Rightarrow> goerr + RemoteEntry list" where
  "StaticList entries path = Inr (entries path)"

definition StaticStat :: "(string \<Rightarrow> RemoteEntry list) \<Rightarrow> string \<Rightarrow> goerr + RemoteEntry" where
  "StaticStat entries path = (case entries path of [] \<Rightarrow> Inr emptyRemote | e # es \<Rightarrow> Inr e)"

definition StaticGetDownloadLink :: "string \<Rightarrow> goerr + DownloadLink" where
  "StaticGetDownloadLink fsid = Inr \<lparr>dlURL = ''https://example.invalid/'' @ fsid, dlExpiresAt = None\<rparr>"

end
