(* ===== verification/RemoteReader.thy ===== *)
theory RemoteReader
  imports LruSpec BaiduClient
begin

text \<open>
  The remote reader (\<open>internal/remote/remote.go\<close>): classification of download errors, the read cache, the
  table of reads in flight, and the four ways of reading a range on top of a client.

  State. \<open>cached\<close>, \<open>cacheByFSID\<close>, \<open>cacheOrder\<close> and \<open>cacheBytes\<close> are the fields of the source; a bucket,
  a Go set that is ranged over, is a list, and the order in which \<open>range\<close> visits it is an argument. The
  pointers of \<open>inflight\<close> are addresses of \<open>rObjs\<close>; \<open>ioKey\<close> remembers the key an object was begun with.
  The client is an argument: its answers on successive attempts (the bytes written to the
  buffer and the error), and \<open>ctx.Err()\<close> after each. \<open>rRefreshes\<close> counts the calls of
  \<open>client.RefreshAuth\<close>, whose result the code drops.
\<close>

section \<open>Classification of errors\<close>

datatype DownloadErrorKind =
  DownloadErrorOther | DownloadErrorTransport | DownloadErrorAuth | DownloadErrorRange | DownloadErrorEOF

definition ClassifyDownloadError :: "goerr option \<Rightarrow> DownloadErrorKind" where
  "ClassifyDownloadError err =
     (case err of None \<Rightarrow> DownloadErrorOther | Some e \<Rightarrow>
        if errors_Is e ErrEOF \<or> errors_Is e ErrUnexpectedEOF then DownloadErrorEOF
        else let message = ToLower (err_text e) in
          if Contains message ''status=401'' \<or> Contains message ''status=403'' \<or>
             Contains message ''unauthorized'' \<or> Contains message ''forbidden'' then DownloadErrorAuth
          else if Contains message ''status=416'' \<or> Contains message ''content range'' then DownloadErrorRange
          else if errors_Is e ErrDeadline \<or> errors_Is e ErrCanceled \<or>
                  Contains message ''timeout'' \<or> Contains message ''connection reset'' then DownloadErrorTransport
          else DownloadErrorOther)"

section \<open>State\<close>

type_synonym cacheKey = "string \<times> int"

record cachedRead =
  crFsid :: string
  crOffset :: int
  crData :: bytes

record inflightRead =
  ioKey :: cacheKey
  ioDone :: bool
  ioData :: bytes
  ioErr :: "goerr option"

record Reader =
  rHasClient :: bool
  rLinks :: "string \<rightharpoonup> DownloadLink \<times> int"
  cached :: "cacheKey \<rightharpoonup> cachedRead"
  cacheByFSID :: "string \<rightharpoonup> cacheKey list"
  cacheOrder :: "cacheKey list"
  cacheBytes :: int
  cacheLimit :: int
  inflightMap :: "cacheKey \<rightharpoonup> nat"
  rObjs :: "nat \<Rightarrow> inflightRead"
  rNext :: nat
  concurrency :: int
  rChunkSize :: int
  rRefreshes :: nat

abbreviation prefetchBytes :: int where
  "prefetchBytes \<equiv> 8388608"

definition NewReader :: "bool \<Rightarrow> Reader" where
  "NewReader hasClient =
     \<lparr>rHasClient = hasClient, rLinks = Map.empty, cached = Map.empty, cacheByFSID = Map.empty, cacheOrder = [],
      cacheBytes = 0, cacheLimit = 67108864, inflightMap = Map.empty,
      rObjs = (\<lambda>_. \<lparr>ioKey = ([], 0), ioDone = False, ioData = [], ioErr = None\<rparr>), rNext = 0,
      concurrency = 1, rChunkSize = 8388608, rRefreshes = 0\<rparr>"

section \<open>The read cache\<close>

definition clearCachedReadsLocked :: "Reader \<Rightarrow> Reader" where
  "clearCachedReadsLocked r =
     r\<lparr>cached := Map.empty, cacheByFSID := Map.empty, cacheOrder := [], cacheBytes := 0\<rparr>"

definition clearReadCacheLocked :: "Reader \<Rightarrow> Reader" where
  "clearReadCacheLocked r = (clearCachedReadsLocked r)\<lparr>inflightMap := Map.empty\<rparr>"

definition ClearReadCache :: "Reader \<Rightarrow> int \<times> Reader" where
  "ClearReadCache r = (cacheBytes r, clearCachedReadsLocked r)"

definition SetDownloadOptions :: "int \<Rightarrow> int \<Rightarrow> Reader \<Rightarrow> Reader" where
  "SetDownloadOptions conc chunk r =
     clearReadCacheLocked (r\<lparr>concurrency := (if conc \<le> 0 then 1 else conc),
                             rChunkSize := (if chunk \<le> 0 then 8388608 else chunk)\<rparr>)"

definition ChunkSizeOf :: "Reader \<Rightarrow> int" where
  "ChunkSizeOf r = (if rChunkSize r \<le> 0 then 8388608 else rChunkSize r)"

definition SetClient :: "bool \<Rightarrow> Reader \<Rightarrow> Reader" where
  "SetClient hasClient r = clearReadCacheLocked (r\<lparr>rHasClient := hasClient, rLinks := Map.empty\<rparr>)"

definition forgetLink :: "string \<Rightarrow> Reader \<Rightarrow> Reader" where
  "forgetLink fsid r = (if fsid = [] then r else r\<lparr>rLinks := (rLinks r)(fsid := None)\<rparr>)"

text \<open>The search of \<open>readCachedLocked\<close> through the keys of a bucket.\<close>

fun findCached :: "Reader \<Rightarrow> cacheKey list \<Rightarrow> int \<Rightarrow> int \<Rightarrow> (cacheKey \<times> bytes) option" where
  "findCached r [] offset n = None"
| "findCached r (key # ks) offset n =
     (case cached r key of
        None \<Rightarrow> findCached r ks offset n
      | Some e \<Rightarrow>
          if crData e = [] \<or> offset < crOffset e \<or> i64 (crOffset e + len (crData e)) < i64 (offset + n)
          then findCached r ks offset n
          else let start = i64 (offset - crOffset e)
               in Some (key, bslice start (i64 (start + n)) (crData e)))"

text \<open>The first occurrence of the key is moved to the end.\<close>

definition touchOrder :: "cacheKey \<Rightarrow> cacheKey list \<Rightarrow> cacheKey list" where
  "touchOrder key ks = (if key \<in> set ks then remove1 key ks @ [key] else ks)"

definition readCachedLocked ::
  "(cacheKey list \<Rightarrow> cacheKey list) \<Rightarrow> string \<Rightarrow> int \<Rightarrow> int \<Rightarrow> Reader \<Rightarrow> bytes option \<times> Reader" where
  "readCachedLocked rng fsid offset n r =
     (case findCached r (case cacheByFSID r fsid of None \<Rightarrow> [] | Some ks \<Rightarrow> rng ks) offset n of
        None \<Rightarrow> (None, r)
      | Some (key, d) \<Rightarrow> (Some d, r\<lparr>cacheOrder := touchOrder key (cacheOrder r)\<rparr>))"

definition ReadCachedWindow ::
  "(cacheKey list \<Rightarrow> cacheKey list) \<Rightarrow> string \<Rightarrow> int \<Rightarrow> int \<Rightarrow> Reader \<Rightarrow> bytes option \<times> Reader" where
  "ReadCachedWindow rng fsid offset n r = (if n \<le> 0 then (None, r) else readCachedLocked rng fsid offset n r)"

definition removeCachedKeyLocked :: "cacheKey \<Rightarrow> Reader \<Rightarrow> Reader" where
  "removeCachedKeyLocked key r =
     (case cached r key of
        None \<Rightarrow> r
      | Some e \<Rightarrow>
          r\<lparr>cacheBytes := cacheBytes r - len (crData e), cached := (cached r)(key := None),
            cacheByFSID := (case cacheByFSID r (fst key) of
               None \<Rightarrow> cacheByFSID r
             | Some ks \<Rightarrow> (cacheByFSID r)(fst key :=
                 (if removeAll key ks = [] then None else Some (removeAll key ks))))\<rparr>)"

text \<open>Dropping a cached key before it is stored anew.\<close>

definition dropCached :: "cacheKey \<Rightarrow> Reader \<Rightarrow> Reader" where
  "dropCached key r =
     (case cached r key of
        None \<Rightarrow> r
      | Some e \<Rightarrow> let r1 = removeCachedKeyLocked key r in r1\<lparr>cacheOrder := remove1 key (cacheOrder r1)\<rparr>)"

definition insertCached :: "cacheKey \<Rightarrow> bytes \<Rightarrow> Reader \<Rightarrow> Reader" where
  "insertCached key d r =
     r\<lparr>cached := (cached r)(key \<mapsto> \<lparr>crFsid = fst key, crOffset = snd key, crData = d\<rparr>),
       cacheByFSID := (cacheByFSID r)(fst key \<mapsto>
         (case cacheByFSID r (fst key) of None \<Rightarrow> [key] | Some ks \<Rightarrow> if key \<in> set ks then ks else ks @ [key])),
       cacheOrder := cacheOrder r @ [key],
       cacheBytes := cacheBytes r + len d\<rparr>"

function evictReads :: "Reader \<Rightarrow> Reader" where
  "evictReads r =
     (if cacheLimit r < cacheBytes r \<and> cacheOrder r \<noteq> [] then
        evictReads (removeCachedKeyLocked (hd (cacheOrder r)) (r\<lparr>cacheOrder := tl (cacheOrder r)\<rparr>))
      else r)"
  by pat_completeness auto
termination
  by (relation "measure (\<lambda>r. length (cacheOrder r))") (auto simp: removeCachedKeyLocked_def split: option.split)

declare evictReads.simps [simp del]

definition storeCachedLocked :: "string \<Rightarrow> int \<Rightarrow> bytes \<Rightarrow> Reader \<Rightarrow> Reader" where
  "storeCachedLocked fsid offset d r =
     (if d = [] \<or> cacheLimit r < len d then r
      else evictReads (insertCached (fsid, offset) d (dropCached (fsid, offset) r)))"

section \<open>Download links\<close>

text \<open>\<open>downloadLink\<close>; \<open>getLink\<close> is the client's \<open>GetDownloadLink\<close>.\<close>

definition downloadLink ::
  "int \<Rightarrow> (string \<Rightarrow> goerr + DownloadLink) \<Rightarrow> string \<Rightarrow> Reader \<Rightarrow> (goerr + DownloadLink) \<times> Reader" where
  "downloadLink now getLink fsid r =
     (case rLinks r fsid of
        Some (link, expires) \<Rightarrow>
          if now < expires then (Inr link, r)
          else (case getLink fsid of Inl e \<Rightarrow> (Inl e, r)
                | Inr l \<Rightarrow> (Inr l, r\<lparr>rLinks := (rLinks r)(fsid \<mapsto>
                    (l, case dlExpiresAt l of None \<Rightarrow> now + linkLifetime | Some x \<Rightarrow> x))\<rparr>))
      | None \<Rightarrow>
          (case getLink fsid of Inl e \<Rightarrow> (Inl e, r)
           | Inr l \<Rightarrow> (Inr l, r\<lparr>rLinks := (rLinks r)(fsid \<mapsto>
               (l, case dlExpiresAt l of None \<Rightarrow> now + linkLifetime | Some x \<Rightarrow> x))\<rparr>)))"

section \<open>Reads in flight\<close>

definition alignOffset :: "int \<Rightarrow> int \<Rightarrow> int" where
  "alignOffset offset n = (if n \<le> 0 \<or> offset \<le> 0 then 0 else i64 (go_div offset n * n))"

definition sliceForWindow :: "bytes \<Rightarrow> int \<Rightarrow> int \<Rightarrow> int \<Rightarrow> bytes" where
  "sliceForWindow d windowOffset offset n =
     (let start = (if i64 (offset - windowOffset) < 0 then 0 else i64 (offset - windowOffset)) in
      if len d \<le> start then []
      else let end = i64 (start + n) in bslice start (if len d < end then len d else end) d)"

definition beginInflight :: "string \<Rightarrow> int \<Rightarrow> Reader \<Rightarrow> nat \<times> bool \<times> Reader" where
  "beginInflight fsid windowOffset r =
     (case inflightMap r (fsid, windowOffset) of
        Some a \<Rightarrow> (a, False, r)
      | None \<Rightarrow>
          (rNext r, True,
           r\<lparr>rObjs := (rObjs r)(rNext r := \<lparr>ioKey = (fsid, windowOffset), ioDone = False, ioData = [], ioErr = None\<rparr>),
             rNext := rNext r + 1, inflightMap := (inflightMap r)((fsid, windowOffset) \<mapsto> rNext r)\<rparr>))"

definition finishInflight :: "string \<Rightarrow> int \<Rightarrow> nat \<Rightarrow> bytes \<Rightarrow> goerr option \<Rightarrow> Reader \<Rightarrow> Reader" where
  "finishInflight fsid windowOffset a d err r =
     r\<lparr>inflightMap := (if inflightMap r (fsid, windowOffset) = Some a
                       then (inflightMap r)((fsid, windowOffset) := None) else inflightMap r),
       rObjs := (rObjs r)(a := (rObjs r a)\<lparr>ioDone := True, ioData := d, ioErr := err\<rparr>)\<rparr>"

text \<open>What a reader gets that waited for the \<open>done\<close> channel of an object (\<open>waitInflight\<close>, and the
  branch of the readers that found the read begun by another).\<close>

definition inflightResult :: "Reader \<Rightarrow> nat \<Rightarrow> int \<Rightarrow> int \<Rightarrow> int \<Rightarrow> goerr option + bytes" where
  "inflightResult r a windowOffset offset n =
     (case ioErr (rObjs r a) of
        Some e \<Rightarrow> Inl (Some e)
      | None \<Rightarrow> Inr (sliceForWindow (ioData (rObjs r a)) windowOffset offset n))"

section \<open>Reading\<close>

text \<open>The error of one answer of the client: \<open>exact\<close> says whether a short answer counts as one, and
  carries its text.\<close>

definition attemptErr :: "(int \<Rightarrow> string) option \<Rightarrow> int \<Rightarrow> bytes \<times> goerr option \<Rightarrow> goerr option" where
  "attemptErr exact n answer =
     (case (snd answer, exact) of
        (None, Some msg) \<Rightarrow>
          if len (fst answer) \<noteq> n then Some (ErrWrap (msg (len (fst answer))) ErrUnexpectedEOF) else None
      | _ \<Rightarrow> snd answer)"

text \<open>The attempts all readers make. The result is the data or the error, and how often the token was
  refreshed.\<close>

fun attempts ::
  "(int \<Rightarrow> string) option \<Rightarrow> int \<Rightarrow> (nat \<Rightarrow> bytes \<times> goerr option) \<Rightarrow> (nat \<Rightarrow> goerr option) \<Rightarrow>
   nat \<Rightarrow> nat \<Rightarrow> goerr option \<Rightarrow> nat \<Rightarrow> (goerr option + bytes) \<times> nat" where
  "attempts exact n answers ctxAt a 0 lastErr refreshed = (Inl lastErr, refreshed)"
| "attempts exact n answers ctxAt a (Suc left) lastErr refreshed =
     (case attemptErr exact n (answers a) of
        None \<Rightarrow> (Inr (fst (answers a)), refreshed)
      | Some e \<Rightarrow>
          if ctxAt a \<noteq> None then (Inl (ctxAt a), refreshed)
          else attempts exact n answers ctxAt (a + 1) left (Some e)
                 (if ClassifyDownloadError (Some e) = DownloadErrorAuth then refreshed + 1 else refreshed))"

definition shortText :: "string \<Rightarrow> int \<Rightarrow> int \<Rightarrow> int \<Rightarrow> string" where
  "shortText what offset n got =
     what @ FormatInt offset @ '' returned '' @ FormatInt got @ '' of '' @ FormatInt n @ '' bytes: ''"

definition checkArgs :: "string \<Rightarrow> int \<Rightarrow> goerr option" where
  "checkArgs fsid n =
     (if n < 0 then Some (ErrText ''length must be non-negative'')
      else if fsid = [] then Some (ErrText ''fsid is required'') else None)"

definition zeros :: "int \<Rightarrow> bytes" where
  "zeros n = replicate (nat n) 0"

definition ReadExactRange ::
  "(cacheKey list \<Rightarrow> cacheKey list) \<Rightarrow> int \<Rightarrow> (string \<Rightarrow> goerr + DownloadLink) \<Rightarrow>
   (nat \<Rightarrow> bytes \<times> goerr option) \<Rightarrow> (nat \<Rightarrow> goerr option) \<Rightarrow> string \<Rightarrow> int \<Rightarrow> int \<Rightarrow> Reader \<Rightarrow>
   (goerr option + bytes) \<times> Reader" where
  "ReadExactRange rng now getLink reads ctxAt fsid offset n r =
     (case checkArgs fsid n of Some e \<Rightarrow> (Inl (Some e), r) | None \<Rightarrow>
      if \<not> rHasClient r then (Inr (zeros n), r)
      else case downloadLink now getLink fsid r of
        (Inl e, r1) \<Rightarrow> (Inl (Some e), r1)
      | (Inr _, r1) \<Rightarrow>
          (case readCachedLocked rng fsid offset n r1 of
             (Some d, r2) \<Rightarrow> (Inr d, r2)
           | (None, r2) \<Rightarrow>
               let (res, k) = attempts (Some (shortText ''read exact range at '' offset n)) n reads ctxAt 0 2 None 0;
                   r3 = r2\<lparr>rRefreshes := rRefreshes r2 + k\<rparr>
               in case res of Inl e \<Rightarrow> (Inl e, r3) | Inr d \<Rightarrow> (Inr d, storeCachedLocked fsid offset d r3)))"

definition ReadStreamRange ::
  "bytes \<times> goerr option \<Rightarrow> string \<Rightarrow> int \<Rightarrow> int \<Rightarrow> Reader \<Rightarrow> (bytes \<times> goerr option) \<times> Reader" where
  "ReadStreamRange answer fsid offset n r =
     (case checkArgs fsid n of Some e \<Rightarrow> (([], Some e), r) | None \<Rightarrow>
      if \<not> rHasClient r then ((zeros n, None), r)
      else let (d, err0) = answer;
               err = (if err0 = None \<and> len d \<noteq> n
                      then Some (ErrWrap (shortText ''stream range at '' offset n (len d)) ErrUnexpectedEOF) else err0)
           in case err of
                None \<Rightarrow> ((d, None), r)
              | Some e \<Rightarrow> (([], Some e),
                  if ClassifyDownloadError (Some e) = DownloadErrorAuth then r\<lparr>rRefreshes := rRefreshes r + 1\<rparr> else r))"

definition fetchWindow :: "int \<Rightarrow> int \<Rightarrow> int" where
  "fetchWindow n chunk =
     (let f = (if n < prefetchBytes then prefetchBytes else n) in if f < chunk then chunk else f)"

text \<open>\<open>readConcurrent\<close>: how the range is cut, and the buffer the chunks are copied into. A chunk shorter
  than its part of the buffer leaves the rest of the part zero.\<close>

definition chunkCount :: "int \<Rightarrow> int \<Rightarrow> nat" where
  "chunkCount n chunk = nat (go_div (i64 (n + chunk - 1)) chunk)"

definition partOf :: "int \<Rightarrow> int \<Rightarrow> nat \<Rightarrow> int" where
  "partOf n chunk i = (if n < (int i + 1) * chunk then n - int i * chunk else chunk)"

definition copyInto :: "int \<Rightarrow> bytes \<Rightarrow> bytes" where
  "copyInto room d = take (nat room) d @ replicate (nat room - length d) 0"

definition concurrentBuffer :: "int \<Rightarrow> int \<Rightarrow> (nat \<Rightarrow> bytes) \<Rightarrow> bytes" where
  "concurrentBuffer n chunk got = concat (map (\<lambda>i. copyInto (partOf n chunk i) (got i)) [0..<chunkCount n chunk])"

text \<open>The end of \<open>ReadRange\<close>: a short answer is completed by \<open>ReadExactRange\<close>, whose outcome is
  \<open>missing\<close>.\<close>

definition completeRange :: "int \<Rightarrow> int \<Rightarrow> bytes \<Rightarrow> goerr option + bytes \<Rightarrow> goerr option + bytes" where
  "completeRange offset n d missing =
     (if n \<le> len d then Inr d
      else case missing of
             Inl e \<Rightarrow> Inl e
           | Inr m \<Rightarrow>
               if len (d @ m) \<noteq> n
               then Inl (Some (ErrWrap (shortText ''read range at '' offset n (len (d @ m))) ErrUnexpectedEOF))
               else Inr (d @ m))"

end
