(* ===== verification/RemoteCache.thy ===== *)
theory RemoteCache
  imports RemoteReader "HOL-Library.Multiset"
begin

text \<open>
  The read cache of the remote reader is the third byte-bounded LRU cache of the program: its map, its
  buckets, its order and its byte counter agree, and storing a window refines \<open>lru_put\<close>.
\<close>

section \<open>The books\<close>

definition reads :: "Reader \<Rightarrow> (cacheKey \<times> bytes) list" where
  "reads r = map (\<lambda>k. (k, crData (the (cached r k)))) (cacheOrder r)"

definition bucket_ok :: "Reader \<Rightarrow> bool" where
  "bucket_ok r \<longleftrightarrow>
     (\<forall>f. set (case cacheByFSID r f of None \<Rightarrow> [] | Some ks \<Rightarrow> ks) = {k \<in> dom (cached r). fst k = f})"

definition rc_sync :: "Reader \<Rightarrow> bool" where
  "rc_sync r \<longleftrightarrow> distinct (cacheOrder r) \<and> dom (cached r) = set (cacheOrder r) \<and>
     cacheBytes r = lru_total len (reads r) \<and>
     (\<forall>k e. cached r k = Some e \<longrightarrow> e = \<lparr>crFsid = fst k, crOffset = snd k, crData = crData e\<rparr> \<and> crData e \<noteq> []) \<and>
     bucket_ok r"

definition rc_ok :: "Reader \<Rightarrow> bool" where
  "rc_ok r \<longleftrightarrow> rc_sync r \<and> cacheBytes r \<le> cacheLimit r"

lemma map_fst_reads [simp]: "map fst (reads r) = cacheOrder r"
  by (simp add: reads_def comp_def)

lemma map_of_reads:
  "dom (cached r) = set (cacheOrder r) \<Longrightarrow> map_of (reads r) k = map_option crData (cached r k)"
  by (force simp: reads_def map_of_map_restrict restrict_map_def)

lemma rc_sync_bytes:
  assumes "rc_sync r" "cached r k = Some e"
  shows "lru_total len (without k (reads r)) = cacheBytes r - len (crData e)"
  using assms lru_total_without [of "reads r" len k] by (simp add: rc_sync_def map_of_reads)

section \<open>Removing a key\<close>

lemma removeCached_frame [simp]:
  "cacheOrder (removeCachedKeyLocked k r) = cacheOrder r" "cacheLimit (removeCachedKeyLocked k r) = cacheLimit r"
  "rObjs (removeCachedKeyLocked k r) = rObjs r" "rNext (removeCachedKeyLocked k r) = rNext r"
  "inflightMap (removeCachedKeyLocked k r) = inflightMap r"
  by (simp_all add: removeCachedKeyLocked_def split: option.split)

lemma removeCached_cached [simp]: "cached (removeCachedKeyLocked k r) = (cached r)(k := None)"
  by (auto simp: removeCachedKeyLocked_def split: option.split)

lemma removeCached_bucket:
  assumes "bucket_ok r"
  shows "bucket_ok (removeCachedKeyLocked k r)"
proof (cases "cached r k")
  case None
  with assms show ?thesis by (simp add: removeCachedKeyLocked_def)
next
  case (Some e)
  have b: "set (case cacheByFSID r f of None \<Rightarrow> [] | Some ks \<Rightarrow> ks) = {j \<in> dom (cached r). fst j = f}" for f
    using assms by (simp add: bucket_ok_def)
  have "k \<in> set (case cacheByFSID r (fst k) of None \<Rightarrow> [] | Some ks \<Rightarrow> ks)" using b Some by auto
  then obtain ks where ks: "cacheByFSID r (fst k) = Some ks" by (cases "cacheByFSID r (fst k)") auto
  have "set (case cacheByFSID (removeCachedKeyLocked k r) f of None \<Rightarrow> [] | Some ks \<Rightarrow> ks) =
      {j \<in> dom ((cached r)(k := None)). fst j = f}" for f
  proof (cases "f = fst k")
    case True
    have "set (case cacheByFSID (removeCachedKeyLocked k r) f of None \<Rightarrow> [] | Some ks \<Rightarrow> ks) = set (removeAll k ks)"
      using Some ks True by (cases "removeAll k ks = []") (simp_all add: removeCachedKeyLocked_def)
    then show ?thesis using b [of f] ks True by auto
  next
    case False
    then have "cacheByFSID (removeCachedKeyLocked k r) f = cacheByFSID r f"
      using Some ks by (simp add: removeCachedKeyLocked_def)
    then show ?thesis using b [of f] False by auto
  qed
  then show ?thesis unfolding bucket_ok_def removeCached_cached by blast
qed

lemma drop_reads:
  assumes "rc_sync r"
  shows "reads ((removeCachedKeyLocked k r)\<lparr>cacheOrder := remove1 k (cacheOrder r)\<rparr>) = without k (reads r)"
  using assms
  by (auto simp: reads_def without_def rc_sync_def distinct_remove1_removeAll removeAll_filter_not_eq filter_map comp_def
      intro!: map_cong filter_cong)

lemma drop_sync:
  assumes "rc_sync r" "cached r k = Some e"
  shows "rc_sync ((removeCachedKeyLocked k r)\<lparr>cacheOrder := remove1 k (cacheOrder r)\<rparr>)"
proof -
  let ?r = "(removeCachedKeyLocked k r)\<lparr>cacheOrder := remove1 k (cacheOrder r)\<rparr>"
  have "bucket_ok (removeCachedKeyLocked k r)" using assms(1) by (simp add: rc_sync_def removeCached_bucket)
  then have "bucket_ok ?r" by (simp add: bucket_ok_def)
  moreover have "cacheBytes ?r = lru_total len (reads ?r)"
    unfolding drop_reads [OF assms(1)] rc_sync_bytes [OF assms] using assms(2) by (simp add: removeCachedKeyLocked_def)
  ultimately show ?thesis using assms(1) by (auto simp: rc_sync_def)
qed

section \<open>Eviction\<close>

lemma evictReads_frame [simp]:
  "cacheLimit (evictReads r) = cacheLimit r" "rObjs (evictReads r) = rObjs r" "rNext (evictReads r) = rNext r"
  "inflightMap (evictReads r) = inflightMap r"
  by (induction r rule: evictReads.induct; subst evictReads.simps; simp)+

lemma evictReads_spec:
  "rc_sync r \<Longrightarrow> rc_sync (evictReads r) \<and> reads (evictReads r) = trim len (cacheLimit r) (reads r)"
proof (induction r rule: evictReads.induct)
  case (1 r)
  show ?case
  proof (cases "cacheLimit r < cacheBytes r \<and> cacheOrder r \<noteq> []")
    case False
    moreover have "trim len (cacheLimit r) (reads r) = reads r"
      using False "1.prems" by (cases "cacheOrder r") (auto simp: rc_sync_def reads_def intro: trim_fits)
    moreover have "evictReads r = r" using False by (subst evictReads.simps) auto
    ultimately show ?thesis using "1.prems" by simp
  next
    case True
    then obtain k ks where ks: "cacheOrder r = k # ks" by (cases "cacheOrder r") auto
    have "k \<in> dom (cached r)" using "1.prems" ks by (simp add: rc_sync_def)
    then obtain e where e: "cached r k = Some e" by blast
    let ?t = "removeCachedKeyLocked k (r\<lparr>cacheOrder := ks\<rparr>)"
    have t: "?t = (removeCachedKeyLocked k r)\<lparr>cacheOrder := remove1 k (cacheOrder r)\<rparr>"
      by (simp add: removeCachedKeyLocked_def ks split: option.split)
    have sync: "rc_sync ?t" unfolding t by (rule drop_sync [OF "1.prems" e])
    have "k \<notin> set ks" using "1.prems" ks by (simp add: rc_sync_def)
    then have "k \<notin> fst ` set (map (\<lambda>k. (k, crData (the (cached r k)))) ks)" by force
    then have "without k (reads r) = tl (reads r)" by (simp add: reads_def ks)
    then have rd: "reads ?t = tl (reads r)" unfolding t drop_reads [OF "1.prems"] .
    have "trim len (cacheLimit r) (reads r) = trim len (cacheLimit r) (tl (reads r))"
      using True "1.prems" by (cases "reads r") (auto simp: rc_sync_def)
    moreover have "evictReads r = evictReads ?t"
      using True by (subst evictReads.simps) (simp add: ks)
    ultimately show ?thesis
      using "1.IH" [OF True] sync by (simp add: ks rd)
  qed
qed

section \<open>Storing a window\<close>

lemma insertCached_sync:
  assumes "rc_sync r" "cached r k = None" "d \<noteq> []"
  shows "rc_sync (insertCached k d r) \<and> reads (insertCached k d r) = reads r @ [(k, d)]"
proof -
  let ?t = "insertCached k d r"
  have k: "k \<notin> set (cacheOrder r)" using assms by (auto simp: rc_sync_def)
  then have rd: "reads ?t = reads r @ [(k, d)]"
    by (auto simp: reads_def insertCached_def)
  have b: "set (case cacheByFSID r f of None \<Rightarrow> [] | Some ks \<Rightarrow> ks) = {j \<in> dom (cached r). fst j = f}" for f
    using assms(1) by (simp add: rc_sync_def bucket_ok_def)
  have "set (case cacheByFSID ?t f of None \<Rightarrow> [] | Some ks \<Rightarrow> ks) = {j \<in> dom (cached ?t). fst j = f}" for f
    using b [of f] b [of "fst k"] by (auto simp: insertCached_def split: option.splits)
  then have "bucket_ok ?t" unfolding bucket_ok_def by blast
  moreover have "cacheBytes ?t = lru_total len (reads ?t)"
    unfolding rd using assms(1) by (simp add: insertCached_def rc_sync_def)
  moreover have "distinct (cacheOrder ?t)" "dom (cached ?t) = set (cacheOrder ?t)"
    using assms(1) k by (auto simp: insertCached_def rc_sync_def)
  moreover have "\<forall>j e. cached ?t j = Some e \<longrightarrow> e = \<lparr>crFsid = fst j, crOffset = snd j, crData = crData e\<rparr> \<and> crData e \<noteq> []"
    using assms(1,3) by (auto simp: insertCached_def rc_sync_def)
  ultimately show ?thesis using rd by (simp add: rc_sync_def)
qed

lemma dropCached_all:
  assumes "rc_sync r"
  shows "rc_sync (dropCached k r) \<and> reads (dropCached k r) = without k (reads r) \<and> cached (dropCached k r) k = None \<and>
    cacheLimit (dropCached k r) = cacheLimit r"
proof (cases "cached r k")
  case None
  then have "k \<notin> fst ` set (reads r)" using assms by (force simp: rc_sync_def reads_def)
  with None assms show ?thesis by (simp add: dropCached_def)
next
  case (Some e)
  then show ?thesis using drop_sync [OF assms Some] drop_reads [OF assms, of k] by (simp add: dropCached_def Let_def)
qed

lemma dropCached_spec:
  assumes "rc_sync r"
  shows "rc_sync (dropCached k r)" "reads (dropCached k r) = without k (reads r)" "cached (dropCached k r) k = None"
    "cacheLimit (dropCached k r) = cacheLimit r"
  using dropCached_all [OF assms, of k] by simp_all

lemma dropCached_frame [simp]:
  "rObjs (dropCached k r) = rObjs r" "rNext (dropCached k r) = rNext r" "inflightMap (dropCached k r) = inflightMap r"
  by (simp_all add: dropCached_def Let_def split: option.split)

abbreviation storeKey :: "cacheKey \<Rightarrow> bytes \<Rightarrow> Reader \<Rightarrow> Reader" where
  "storeKey k d r \<equiv> storeCachedLocked (fst k) (snd k) d r"

lemma storeCached_frame [simp]:
  "cacheLimit (storeCachedLocked f off d r) = cacheLimit r" "rObjs (storeCachedLocked f off d r) = rObjs r"
  "rNext (storeCachedLocked f off d r) = rNext r" "inflightMap (storeCachedLocked f off d r) = inflightMap r"
  by (simp_all add: storeCachedLocked_def insertCached_def dropCached_def Let_def split: option.split)

lemma storeCached_spec:
  assumes "rc_ok r" "d \<noteq> []" "len d \<le> cacheLimit r"
  shows "reads (storeKey k d r) = lru_put len (cacheLimit r) k d (reads r)" "rc_sync (storeKey k d r)"
proof -
  have s: "rc_sync r" using assms(1) by (simp add: rc_ok_def)
  note dr = dropCached_spec [OF s, of k]
  note i = insertCached_sync [OF dr(1,3) assms(2)]
  have lim: "cacheLimit (insertCached k d (dropCached k r)) = cacheLimit r" using dr(4) by (simp add: insertCached_def)
  have "storeKey k d r = evictReads (insertCached k d (dropCached k r))"
    using assms by (simp add: storeCachedLocked_def)
  with evictReads_spec [OF conjunct1 [OF i]] i dr(2) lim
  show "reads (storeKey k d r) = lru_put len (cacheLimit r) k d (reads r)" "rc_sync (storeKey k d r)"
    by (simp_all add: lru_put_def)
qed

lemma storeCached_ok: "rc_ok r \<Longrightarrow> rc_ok (storeKey k d r)"
proof (cases "d \<noteq> [] \<and> len d \<le> cacheLimit r")
  case True
  assume ok: "rc_ok r"
  have "lru_total len (reads (storeKey k d r)) \<le> cacheLimit r"
    unfolding storeCached_spec(1) [OF ok conjunct1 [OF True] conjunct2 [OF True]] lru_put_def
    by (rule trim_total) (use True in auto)
  with storeCached_spec(2) [OF ok, of d k] True show ?thesis by (simp add: rc_ok_def rc_sync_def)
qed (auto simp: storeCachedLocked_def)

lemma dropCached_ok: "rc_ok r \<Longrightarrow> rc_ok (dropCached k r)"
proof -
  assume ok: "rc_ok r"
  then have s: "rc_sync r" by (simp add: rc_ok_def)
  have "lru_total len (without k (reads r)) \<le> lru_total len (reads r)"
    unfolding without_def by (rule lru_total_filter_le) simp
  with dropCached_spec [OF s, of k] ok show ?thesis by (simp add: rc_ok_def rc_sync_def)
qed

interpretation windows: sized_lru reads cacheBytes cacheLimit len rc_ok "\<lambda>r k. map_option crData (cached r k)"
  "\<lambda>r d. d \<noteq> [] \<and> len d \<le> cacheLimit r" storeKey dropCached
proof (unfold_locales, goal_cases)
  case (6 s v k)
  then show ?case by (simp add: storeCached_spec)
next
  case (7 s v k)
  then show ?case by (auto simp: storeCachedLocked_def)
next
  case (9 s k v)
  then show ?case by (rule storeCached_ok)
next
  case (10 s k)
  then show ?case by (simp add: rc_ok_def dropCached_spec)
next
  case (11 k s)
  show ?case by (simp add: dropCached_def Let_def split: option.split)
next
  case (12 s k)
  then show ?case by (rule dropCached_ok)
qed (simp_all add: rc_ok_def rc_sync_def map_of_reads)

section \<open>Lookups\<close>

lemma touchOrder_set [simp]: "set (touchOrder k ks) = set ks"
proof (rule set_eqI)
  fix x
  show "x \<in> set (touchOrder k ks) \<longleftrightarrow> x \<in> set ks"
    by (cases "x = k") (auto simp: touchOrder_def dest: notin_set_remove1)
qed

lemma lru_total_sum_mset: "lru_total sz xs = (\<Sum>e\<in>#mset xs. sz (snd e))"
  by (simp add: lru_total_def flip: sum_mset_sum_list)

lemma lru_total_mset: "mset xs = mset ys \<Longrightarrow> lru_total sz xs = lru_total sz ys"
  by (simp add: lru_total_sum_mset)

lemma touch_sync:
  assumes "rc_sync r"
  shows "rc_sync (r\<lparr>cacheOrder := touchOrder k (cacheOrder r)\<rparr>)"
proof (cases "k \<in> set (cacheOrder r)")
  case False
  with assms show ?thesis by (simp add: touchOrder_def)
next
  case True
  have d: "distinct (cacheOrder r)" using assms by (simp add: rc_sync_def)
  let ?f = "\<lambda>k. (k, crData (the (cached r k)))"
  have "mset (remove1 k (cacheOrder r) @ [k]) = mset (cacheOrder r)"
    using True insert_DiffM [of k "mset (cacheOrder r)"] by simp
  then have "mset (touchOrder k (cacheOrder r)) = mset (cacheOrder r)" using True by (simp only: touchOrder_def if_True)
  then have "mset (map ?f (touchOrder k (cacheOrder r))) = mset (map ?f (cacheOrder r))" by (simp only: mset_map)
  then have "lru_total len (map ?f (touchOrder k (cacheOrder r))) = lru_total len (map ?f (cacheOrder r))"
    by (rule lru_total_mset)
  moreover have "distinct (touchOrder k (cacheOrder r))" using d True by (simp add: touchOrder_def)
  ultimately show ?thesis
    using assms by (simp add: rc_sync_def reads_def bucket_ok_def)
qed

lemma findCached_Some:
  "findCached r ks offset n = Some (k, d) \<Longrightarrow>
   k \<in> set ks \<and> (\<exists>e. cached r k = Some e \<and> crOffset e \<le> offset \<and>
     i64 (offset + n) \<le> i64 (crOffset e + len (crData e)) \<and>
     d = bslice (i64 (offset - crOffset e)) (i64 (i64 (offset - crOffset e) + n)) (crData e))"
  by (induction r ks offset n rule: findCached.induct) (auto simp: Let_def split: option.splits if_splits)

lemma readCached_frame [simp]:
  "rObjs (snd (readCachedLocked rng f off n r)) = rObjs r" "rNext (snd (readCachedLocked rng f off n r)) = rNext r"
  "inflightMap (snd (readCachedLocked rng f off n r)) = inflightMap r"
  "cached (snd (readCachedLocked rng f off n r)) = cached r"
  "cacheLimit (snd (readCachedLocked rng f off n r)) = cacheLimit r"
  "cacheBytes (snd (readCachedLocked rng f off n r)) = cacheBytes r"
  by (simp_all add: readCachedLocked_def split: option.split prod.split)

lemma readCached_ok: "rc_ok r \<Longrightarrow> rc_ok (snd (readCachedLocked rng f off n r))"
  by (auto simp: readCachedLocked_def rc_ok_def touch_sync split: option.split prod.split)

end
