(* ===== verification/RemoteSystem.thy ===== *)
theory RemoteSystem
  imports RemoteCache Transition
begin

text \<open>
  The remote reader under concurrent use. A step is one critical section of any goroutine: a lookup, a store,
  the begin or the end of a read in flight, a change of the client. A read is a relation that runs
  its own critical sections with any steps of others in between. The download options are set before the reader is
  used, as \<open>app.New\<close> and \<open>main\<close> do.
\<close>

declare split_paired_All [simp del]

section \<open>Good data\<close>

text \<open>A window is good if it holds the bytes of the file from its offset on, possibly fewer than there are.\<close>

definition good :: "content \<Rightarrow> cacheKey \<Rightarrow> bytes \<Rightarrow> bool" where
  "good c k d \<longleftrightarrow> 0 \<le> snd k \<and> prefix d (drop (nat (snd k)) (c (fst k)))"

text \<open>The files are smaller than \<open>2 ^ 62\<close> bytes.\<close>

definition sized :: "content \<Rightarrow> bool" where
  "sized c \<longleftrightarrow> (\<forall>f. len (c f) < 2 ^ 62)"

lemma good_bound:
  assumes "good c k d" "d \<noteq> []"
  shows "snd k + len d \<le> len (c (fst k))"
proof -
  have "length d \<le> length (c (fst k)) - nat (snd k)" "0 < length d" "0 \<le> snd k"
    using assms prefix_length_le [of d "drop (nat (snd k)) (c (fst k))"] by (auto simp: good_def)
  then show ?thesis by linarith
qed

lemma prefix_take_drop:
  assumes "prefix d (drop w X)"
  shows "take m (drop k d) = take (min m (length d - k)) (drop (w + k) X)"
proof -
  obtain z where "drop w X = d @ z" using assms by (auto simp: prefix_def)
  then have "drop (w + k) X = drop k d @ drop (k - length d) z"
    by (metis add.commute drop_append drop_drop)
  then show ?thesis by (cases "m \<le> length d - k") (simp_all add: min_def)
qed

lemma good_slice:
  assumes "good c k d" "snd k \<le> off" "0 \<le> n" "off + n \<le> snd k + len d"
  shows "bslice (off - snd k) (off - snd k + n) d = bslice off (off + n) (c (fst k))"
proof -
  have "nat (snd k) + nat (off - snd k) = nat off" "min (nat n) (length d - nat (off - snd k)) = nat n"
    using assms by (auto simp: good_def)
  with assms show ?thesis
    using prefix_take_drop [of d "nat (snd k)" "c (fst k)" "nat n" "nat (off - snd k)"]
    by (simp add: bslice_def good_def)
qed

lemma slice_prefix:
  assumes "good c (f, w) d" "w \<le> off" "0 \<le> n" "off + n < 2 ^ 62" "sized c"
  shows "sliceForWindow d w off n = take (nat n) (drop (nat (off - w)) d)"
    "prefix (sliceForWindow d w off n) (bslice off (off + n) (c f))"
proof -
  have w: "0 \<le> w" using assms(1) by (simp add: good_def)
  have i: "i64 (off - w) = off - w" using w assms by (intro i64_nonneg_id) auto
  have j: "i64 (off - w + n) = off - w + n" using w assms by (intro i64_nonneg_id) auto
  show eq: "sliceForWindow d w off n = take (nat n) (drop (nat (off - w)) d)"
    using assms(2,3) by (auto simp: sliceForWindow_def i j Let_def bslice_def)
  have "nat w + nat (off - w) = nat off" using w assms(2) by simp
  then have "sliceForWindow d w off n = take (min (nat n) (length d - nat (off - w))) (drop (nat off) (c f))"
    using prefix_take_drop [of d "nat w" "c f" "nat n" "nat (off - w)"] assms(1) by (simp add: eq good_def)
  moreover have "bslice off (off + n) (c f) = take (nat n) (drop (nat off) (c f))" by (simp add: bslice_def)
  ultimately show "prefix (sliceForWindow d w off n) (bslice off (off + n) (c f))"
    by (metis min.cobounded1 take_is_prefix take_take min.commute)
qed

section \<open>Steps\<close>

inductive rd_step :: "content \<Rightarrow> Reader \<Rightarrow> Reader \<Rightarrow> bool" for c where
  rd_lookup: "rd_step c r (snd (readCachedLocked rng f off n r))"
| rd_store: "good c (f, off) d \<Longrightarrow> rd_step c r (storeCachedLocked f off d r)"
| rd_begin: "rd_step c r (snd (snd (beginInflight f w r)))"
| rd_finish: "a < rNext r \<Longrightarrow> \<not> ioDone (rObjs r a) \<Longrightarrow> ioKey (rObjs r a) = (f, w) \<Longrightarrow> (err = None \<longrightarrow> good c (f, w) d) \<Longrightarrow>
    rd_step c r (finishInflight f w a d err r)"
| rd_clear: "rd_step c r (snd (ClearReadCache r))"
| rd_client: "rd_step c r (SetClient True r)"
| rd_link: "rd_step c r (snd (downloadLink now getLink f r))"
| rd_forget: "rd_step c r (forgetLink f r)"
| rd_refresh: "rd_step c r (r\<lparr>rRefreshes := k\<rparr>)"

definition rd_init :: "Reader \<Rightarrow> bool" where
  "rd_init r \<longleftrightarrow> (\<exists>b conc chunk. r = NewReader b \<or> r = SetDownloadOptions conc chunk (NewReader b))"

definition rd_inv :: "content \<Rightarrow> Reader \<Rightarrow> bool" where
  "rd_inv c r \<longleftrightarrow> rc_ok r \<and> (\<forall>k e. cached r k = Some e \<longrightarrow> good c k (crData e)) \<and>
     (\<forall>a<rNext r. ioDone (rObjs r a) \<and> ioErr (rObjs r a) = None \<longrightarrow> good c (ioKey (rObjs r a)) (ioData (rObjs r a))) \<and>
     (\<forall>k a. inflightMap r k = Some a \<longrightarrow> a < rNext r \<and> ioKey (rObjs r a) = k)"

definition options_kept :: "Reader \<Rightarrow> Reader \<Rightarrow> bool" where
  "options_kept r s \<longleftrightarrow> concurrency s = concurrency r \<and> rChunkSize s = rChunkSize r \<and> (rHasClient r \<longrightarrow> rHasClient s)"

definition rd_ext :: "Reader \<Rightarrow> Reader \<Rightarrow> bool" where
  "rd_ext r s \<longleftrightarrow> rNext r \<le> rNext s \<and> options_kept r s \<and>
     (\<forall>a<rNext r. ioKey (rObjs s a) = ioKey (rObjs r a) \<and> (ioDone (rObjs r a) \<longrightarrow> rObjs s a = rObjs r a))"

lemma rd_invI:
  assumes "rc_ok r" "\<And>k e. cached r k = Some e \<Longrightarrow> good c k (crData e)"
    and "\<And>a. a < rNext r \<Longrightarrow> ioDone (rObjs r a) \<Longrightarrow> ioErr (rObjs r a) = None \<Longrightarrow> good c (ioKey (rObjs r a)) (ioData (rObjs r a))"
    and "\<And>k a. inflightMap r k = Some a \<Longrightarrow> a < rNext r \<and> ioKey (rObjs r a) = k"
  shows "rd_inv c r"
  unfolding rd_inv_def using assms by blast

lemma rd_invD:
  assumes "rd_inv c r"
  shows "rc_ok r" "cached r k = Some e \<Longrightarrow> good c k (crData e)"
    "a < rNext r \<Longrightarrow> ioDone (rObjs r a) \<Longrightarrow> ioErr (rObjs r a) = None \<Longrightarrow> good c (ioKey (rObjs r a)) (ioData (rObjs r a))"
    "inflightMap r k = Some a \<Longrightarrow> a < rNext r" "inflightMap r k = Some a \<Longrightarrow> ioKey (rObjs r a) = k"
  using assms by (simp_all add: rd_inv_def)

text \<open>Steps that leave the cache, or the reads in flight, alone.\<close>

lemma rd_same_objs:
  assumes "rd_inv c r" "rc_ok s" "\<And>k e. cached s k = Some e \<Longrightarrow> good c k (crData e)"
    and "rNext s = rNext r" "rObjs s = rObjs r" "\<And>k a. inflightMap s k = Some a \<Longrightarrow> inflightMap r k = Some a"
    and "options_kept r s"
  shows "rd_inv c s \<and> rd_ext r s"
proof
  have "a < rNext s \<and> ioKey (rObjs s a) = k" if "inflightMap s k = Some a" for k a
    using rd_invD(4,5) [OF assms(1) assms(6) [OF that]] assms(4,5) by simp
  then show "rd_inv c s"
    using rd_invD(3) [OF assms(1)] assms(2-5) by (intro rd_invI) simp_all
  show "rd_ext r s" using assms(4,5,7) by (simp add: rd_ext_def)
qed

text \<open>No operation but \<open>SetDownloadOptions\<close> touches the options.\<close>

lemma evictReads_options: "options_kept r (evictReads r)"
proof (induction r rule: evictReads.induct)
  case (1 r)
  have "options_kept r (removeCachedKeyLocked (hd (cacheOrder r)) (r\<lparr>cacheOrder := tl (cacheOrder r)\<rparr>))"
    by (simp add: options_kept_def removeCachedKeyLocked_def split: option.split)
  with 1 show ?case by (subst evictReads.simps) (auto simp: options_kept_def)
qed

lemma store_options: "options_kept r (storeCachedLocked f off d r)"
  using evictReads_options [of "insertCached (f, off) d (dropCached (f, off) r)"]
  by (auto simp: storeCachedLocked_def options_kept_def insertCached_def dropCached_def removeCachedKeyLocked_def Let_def
      split: option.splits)

lemma plain_options:
  "options_kept r (snd (readCachedLocked rng f off n r))" "options_kept r (snd (snd (beginInflight f w r)))"
  "options_kept r (finishInflight f w a d err r)" "options_kept r (snd (ClearReadCache r))" "options_kept r (SetClient True r)"
  "options_kept r (snd (downloadLink now getLink f r))" "options_kept r (forgetLink f r)" "options_kept r (r\<lparr>rRefreshes := k\<rparr>)"
  by (simp_all add: options_kept_def readCachedLocked_def beginInflight_def finishInflight_def ClearReadCache_def SetClient_def
      clearReadCacheLocked_def clearCachedReadsLocked_def downloadLink_def forgetLink_def split: option.split prod.split sum.split)

lemma clearCached_ok: "rc_ok r \<Longrightarrow> rc_ok (clearCachedReadsLocked r)"
  using lru_total_nonneg [of len "reads r"]
  by (simp add: rc_ok_def rc_sync_def clearCachedReadsLocked_def reads_def bucket_ok_def)

lemma rc_ok_cong:
  assumes "cached s = cached r" "cacheByFSID s = cacheByFSID r" "cacheOrder s = cacheOrder r"
    "cacheBytes s = cacheBytes r" "cacheLimit s = cacheLimit r"
  shows "rc_ok s = rc_ok r"
  using assms by (simp add: rc_ok_def rc_sync_def reads_def bucket_ok_def)

lemma rd_store_inv:
  assumes "rd_inv c r" "good c (f, off) d"
  shows "rd_inv c (storeCachedLocked f off d r) \<and> rd_ext r (storeCachedLocked f off d r)"
proof (rule rd_same_objs [OF assms(1)])
  have ok: "rc_ok r" using assms(1) by (simp add: rd_inv_def)
  then show "rc_ok (storeCachedLocked f off d r)" using storeCached_ok [of r "(f, off)" d] by simp
  fix k e assume "cached (storeCachedLocked f off d r) k = Some e"
  then have "map_option crData (cached (storeKey (f, off) d r) k) = Some (crData e)" by simp
  from windows.put_all [OF ok _ _ this, of "good c"] assms show "good c k (crData e)"
    by (auto simp: rd_inv_def)
qed (simp_all add: store_options)

lemma rd_cleared:
  assumes "rd_inv c r" "rc_ok s" "cached s = Map.empty" "rNext s = rNext r" "rObjs s = rObjs r"
    "inflightMap s = Map.empty \<or> inflightMap s = inflightMap r" "options_kept r s"
  shows "rd_inv c s \<and> rd_ext r s"
  by (rule rd_same_objs [OF assms(1,2)]) (use assms in auto)

lemma rd_unchanged:
  assumes "rd_inv c r" "cached s = cached r" "cacheByFSID s = cacheByFSID r" "cacheOrder s = cacheOrder r"
    "cacheBytes s = cacheBytes r" "cacheLimit s = cacheLimit r" "rNext s = rNext r" "rObjs s = rObjs r" "inflightMap s = inflightMap r"
    "options_kept r s"
  shows "rd_inv c s \<and> rd_ext r s"
  using rc_ok_cong [of s r] assms by (intro rd_same_objs [OF assms(1)]) (auto simp: rd_inv_def)

lemma rd_begin_inv:
  assumes "rd_inv c r"
  shows "rd_inv c (snd (snd (beginInflight f w r))) \<and> rd_ext r (snd (snd (beginInflight f w r)))"
proof (cases "inflightMap r (f, w)")
  case None
  let ?s = "snd (snd (beginInflight f w r))"
  have s: "rNext ?s = Suc (rNext r)" "inflightMap ?s = (inflightMap r)((f, w) \<mapsto> rNext r)" "cached ?s = cached r"
    "rObjs ?s = (rObjs r)(rNext r := \<lparr>ioKey = (f, w), ioDone = False, ioData = [], ioErr = None\<rparr>)"
    using None by (simp_all add: beginInflight_def)
  have "rc_ok ?s" using rd_invD(1) [OF assms] None rc_ok_cong [of ?s r] by (simp add: beginInflight_def)
  moreover have "a < rNext ?s \<and> ioKey (rObjs ?s a) = k" if "inflightMap ?s k = Some a" for k a
    using that rd_invD(4,5) [OF assms, of k a] by (auto simp: s split: if_splits)
  ultimately have "rd_inv c ?s"
    using rd_invD(2,3) [OF assms] by (intro rd_invI) (auto simp: s less_Suc_eq split: if_splits)
  then show ?thesis using plain_options(2) [of r f w] by (simp add: rd_ext_def s)
qed (use assms in \<open>simp add: beginInflight_def rd_ext_def options_kept_def\<close>)

lemma rd_finish_inv:
  assumes "rd_inv c r" "a < rNext r" "\<not> ioDone (rObjs r a)" "ioKey (rObjs r a) = (f, w)" "err = None \<longrightarrow> good c (f, w) d"
  shows "rd_inv c (finishInflight f w a d err r) \<and> rd_ext r (finishInflight f w a d err r)"
proof -
  let ?s = "finishInflight f w a d err r"
  have s: "rNext ?s = rNext r" "cached ?s = cached r"
    "rObjs ?s = (rObjs r)(a := (rObjs r a)\<lparr>ioDone := True, ioData := d, ioErr := err\<rparr>)"
    by (simp_all add: finishInflight_def)
  have "rc_ok ?s" using rd_invD(1) [OF assms(1)] rc_ok_cong [of ?s r] by (simp add: finishInflight_def)
  moreover have "b < rNext ?s \<and> ioKey (rObjs ?s b) = k" if "inflightMap ?s k = Some b" for k b
  proof -
    have "inflightMap r k = Some b" using that by (auto simp: finishInflight_def split: if_splits)
    from rd_invD(4,5) [OF assms(1) this] show ?thesis by (auto simp: s)
  qed
  ultimately have "rd_inv c ?s"
    using rd_invD(2,3) [OF assms(1)] assms(4,5) by (intro rd_invI) (auto simp: s split: if_splits)
  then show ?thesis using assms(3) by (simp add: rd_ext_def s plain_options)
qed

lemma rd_step_keeps:
  assumes "rd_step c r s" "rd_inv c r"
  shows "rd_inv c s \<and> rd_ext r s"
  using assms(1)
proof cases
  case (rd_lookup rng f off n)
  have ok: "rc_ok r" using assms(2) by (simp add: rd_inv_def)
  show ?thesis unfolding rd_lookup
    by (rule rd_same_objs [OF assms(2) readCached_ok [OF ok]]) (use assms(2) in \<open>auto simp: rd_inv_def plain_options\<close>)
next
  case (rd_store f off d)
  with assms(2) show ?thesis by (simp add: rd_store_inv)
next
  case (rd_begin f w)
  with assms(2) show ?thesis by (simp add: rd_begin_inv)
next
  case (rd_finish a f w err d)
  with assms(2) show ?thesis by (simp add: rd_finish_inv)
next
  case rd_clear
  have ok: "rc_ok r" using assms(2) by (simp add: rd_inv_def)
  show ?thesis unfolding rd_clear
    by (rule rd_cleared [OF assms(2)])
      (simp_all add: plain_options, simp_all add: ClearReadCache_def clearCached_ok [OF ok], simp_all add: clearCachedReadsLocked_def)
next
  case rd_client
  have ok: "rc_ok (clearCachedReadsLocked r)" using assms(2) by (simp add: rd_inv_def clearCached_ok)
  show ?thesis unfolding rd_client
    by (rule rd_cleared [OF assms(2)])
      (use ok in \<open>simp_all add: plain_options, simp_all add: SetClient_def clearReadCacheLocked_def clearCachedReadsLocked_def
        rc_ok_def rc_sync_def reads_def bucket_ok_def\<close>)
next
  case (rd_link now getLink f)
  show ?thesis unfolding rd_link
    by (rule rd_unchanged [OF assms(2)])
      (simp_all add: plain_options, simp_all add: downloadLink_def split: option.split prod.split sum.split)
next
  case (rd_forget f)
  show ?thesis unfolding rd_forget by (rule rd_unchanged [OF assms(2)]) (simp_all add: plain_options, simp_all add: forgetLink_def)
next
  case (rd_refresh k)
  show ?thesis unfolding rd_refresh by (rule rd_unchanged [OF assms(2)]) (simp_all add: plain_options)
qed

lemma rd_init_inv: "rd_init r \<Longrightarrow> rd_inv c r"
  by (auto simp: rd_init_def NewReader_def SetDownloadOptions_def clearReadCacheLocked_def clearCachedReadsLocked_def
      rd_inv_def rc_ok_def rc_sync_def reads_def bucket_ok_def)

interpretation remote: transition_system rd_init "rd_step c" "rd_inv c" rd_ext for c
proof (unfold_locales, goal_cases)
  case (5 s t u)
  then show ?case unfolding rd_ext_def options_kept_def by (metis less_le_trans order_trans)
qed (auto simp: rd_init_inv dest: rd_step_keeps, simp_all add: rd_ext_def options_kept_def)

section \<open>Cache hits\<close>

text \<open>A hit is the requested range, in whatever order the bucket is searched.\<close>

lemma readCached_exact:
  assumes inv: "rd_inv c r" and sz: "sized c" and rng: "\<And>ks. set (rng ks) = set ks"
    and b: "0 \<le> off" "0 \<le> n" "off + n < 2 ^ 62"
    and hit: "fst (readCachedLocked rng f off n r) = Some d"
  shows "d = bslice off (off + n) (c f)" "off + n \<le> len (c f)"
proof -
  let ?ks = "case cacheByFSID r f of None \<Rightarrow> [] | Some ks \<Rightarrow> rng ks"
  from hit obtain k where fc: "findCached r ?ks off n = Some (k, d)"
    by (auto simp: readCachedLocked_def split: option.splits prod.splits)
  from findCached_Some [OF fc] obtain e where k: "k \<in> set ?ks" and e: "cached r k = Some e" "crOffset e \<le> off"
    and le: "i64 (off + n) \<le> i64 (crOffset e + len (crData e))"
    and d: "d = bslice (i64 (off - crOffset e)) (i64 (i64 (off - crOffset e) + n)) (crData e)" by blast
  have sync: "rc_sync r" using rd_invD(1) [OF inv] by (simp add: rc_ok_def)
  then have bk: "set (case cacheByFSID r f of None \<Rightarrow> [] | Some ks \<Rightarrow> ks) = {k \<in> dom (cached r). fst k = f}"
    unfolding rc_sync_def bucket_ok_def by blast
  have "e = \<lparr>crFsid = fst k, crOffset = snd k, crData = crData e\<rparr> \<and> crData e \<noteq> []"
    using sync e(1) unfolding rc_sync_def by blast
  then have o: "crOffset e = snd k" and ne: "crData e \<noteq> []" by (metis cachedRead.select_convs(2), blast)
  have f: "fst k = f" using k bk rng by (auto split: option.splits)
  have g: "good c k (crData e)" using inv e(1) by (simp add: rd_inv_def)
  have nn: "0 \<le> snd k" using g by (simp add: good_def)
  have end_: "snd k + len (crData e) \<le> len (c f)" using good_bound [OF g ne] f by simp
  have "len (c f) < 2 ^ 62" using sz by (simp add: sized_def)
  then have i: "i64 (off + n) = off + n" "i64 (crOffset e + len (crData e)) = snd k + len (crData e)"
    "i64 (off - snd k) = off - snd k" "i64 (off - snd k + n) = off - snd k + n"
    using b nn end_ e(2) o by (auto intro!: i64_nonneg_id)
  have cov: "off + n \<le> snd k + len (crData e)" using le by (simp add: i)
  show "d = bslice off (off + n) (c f)"
    using good_slice [OF g _ b(2) cov] d e(2) o f by (simp add: i)
  show "off + n \<le> len (c f)" using cov end_ by simp
qed

end
