(* ===== verification/BaiduLaws.thy ===== *)
theory BaiduLaws
  imports BaiduClient
begin

text \<open>
  What the client of the drive's web API guarantees: a parsed \<open>Content-Range\<close> is what the server wrote,
  a range that is read without an error is the range of the remote file that was asked for,
  a listing ends and is the concatenation of the pages, and the link cache returns a link until it
  expires, is invalidated or the token changes.
\<close>

section \<open>Content-Range\<close>

lemma SplitN2_two:
  assumes "SplitN2 c s = [a, b]"
  shows "c \<notin> set a" "s = a @ c # b"
proof -
  have c: "c \<in> set s" and a: "a = takeWhile (\<lambda>x. x \<noteq> c) s" and b: "b = tl (dropWhile (\<lambda>x. x \<noteq> c) s)"
    using assms by (auto simp: SplitN2_def split: if_splits)
  show "c \<notin> set a" using a by (auto dest: set_takeWhileD)
  have "dropWhile (\<lambda>x. x \<noteq> c) s \<noteq> []" using c by auto
  then have "dropWhile (\<lambda>x. x \<noteq> c) s = c # b"
    using hd_dropWhile [of "\<lambda>x. x \<noteq> c" s] b by (cases "dropWhile (\<lambda>x. x \<noteq> c) s") auto
  then show "s = a @ c # b" using takeWhile_dropWhile_id [of "\<lambda>x. x \<noteq> c" s] a by simp
qed

definition contentRange :: "int \<Rightarrow> int \<Rightarrow> int \<Rightarrow> string" where
  "contentRange s e t = ''bytes '' @ FormatInt s @ ''-'' @ FormatInt e @ ''/'' @ FormatInt t"

lemma FormatInt_not_star: "FormatInt t \<noteq> ''*''"
proof
  assume "FormatInt t = ''*''"
  then have "CHR ''*'' \<in> set (FormatInt t)" by simp
  moreover have "\<not> (48 \<le> (of_char CHR ''*'' :: nat))" by code_simp
  ultimately show False
    using nat_digits_chars [of "CHR ''*''"] by (auto simp: FormatInt_def split: if_splits)
qed

lemma parseContentRange_format:
  assumes "0 \<le> s" "s \<le> e" "e < t" "t < 2 ^ 63"
  shows "parseContentRange (contentRange s e t) = Inr (s, e, t)"
proof -
  let ?p = "FormatInt s @ CHR ''-'' # FormatInt e"
  have v: "contentRange s e t = ''bytes '' @ ?p @ CHR ''/'' # FormatInt t"
    by (simp add: contentRange_def)
  have "SplitN2 CHR ''/'' (?p @ CHR ''/'' # FormatInt t) = [?p, FormatInt t]"
    by (rule SplitN2_append) simp
  moreover have "SplitN2 CHR ''-'' ?p = [FormatInt s, FormatInt e]"
    using assms by (intro SplitN2_append) simp
  moreover have "ParseInt (FormatInt n) = Some n" if "0 \<le> n" "n < 2 ^ 63" for n
    using that by (intro ParseInt_FormatInt) (simp add: in_i64_def)
  moreover have "HasPrefix (contentRange s e t) ''bytes ''" by (simp add: v HasPrefix_def)
  moreover have "TrimPrefix (contentRange s e t) ''bytes '' = ?p @ CHR ''/'' # FormatInt t"
    unfolding v by (rule TrimPrefix_append)
  ultimately show ?thesis
    using assms FormatInt_not_star by (simp add: parseContentRange_def Let_def)
qed

lemma ParseInt_range: "ParseInt s = Some n \<Longrightarrow> in_i64 n"
  by (auto simp: ParseInt_def in_i64_def Let_def split: list.splits option.splits if_splits)

lemma ParseInt_nonneg: "ParseInt s = Some n \<Longrightarrow> CHR ''-'' \<notin> set s \<Longrightarrow> 0 \<le> n"
  by (auto simp: ParseInt_def Let_def split: list.splits option.splits if_splits)

lemma parseContentRange_sound:
  assumes "parseContentRange v = Inr (s, e, t)"
  shows "0 \<le> s" "s \<le> e" "e < 2 ^ 63" "t = - 1 \<or> e < t"
proof -
  from assms obtain p q a b where
    ab: "SplitN2 CHR ''-'' p = [a, b]" and s: "ParseInt a = Some s" and e: "ParseInt b = Some e"
    and le: "s \<le> e" and t: "t = - 1 \<or> e < t"
    by (auto simp: parseContentRange_def Let_def split: if_splits list.splits option.splits)
  from ParseInt_nonneg [OF s] SplitN2_two(1) [OF ab] show "0 \<le> s" by simp
  from ParseInt_range [OF e] show "e < 2 ^ 63" by (simp add: in_i64_def)
  show "s \<le> e" "t = - 1 \<or> e < t" by (fact le, fact t)
qed

section \<open>The body of a range response\<close>

definition stream :: "rangeResponse \<Rightarrow> nat \<Rightarrow> bytes" where
  "stream resp i = concat (map (\<lambda>j. fst (rrReads resp j)) [0..<i])"

lemma stream_Suc [simp]: "stream resp (Suc i) = stream resp i @ fst (rrReads resp i)" "stream resp 0 = []"
  by (simp_all add: stream_def)

text \<open>\<open>io.Reader\<close>: a read never returns more than there is room for.\<close>

definition body_contract :: "rangeResponse \<Rightarrow> int \<Rightarrow> bool" where
  "body_contract resp want \<longleftrightarrow>
     (\<forall>i. len (stream resp i) < want \<longrightarrow> len (stream resp (Suc i)) \<le> want)"

lemma bodyLoop_stop: "want \<le> len acc \<Longrightarrow> bodyLoop resp want i acc = (i, acc, None)"
  by (simp add: bodyLoop.simps)

lemma bodyLoop_step:
  assumes "len acc < want" "rrReads resp i = (x, xe)"
  shows "bodyLoop resp want i acc =
    (if xe = None \<and> x \<noteq> [] then bodyLoop resp want (i + 1) (acc @ x)
     else (i + 1, acc @ x, snd (snd (bodyLoop resp want i acc))))"
    "snd (snd (bodyLoop resp want i acc)) = None \<Longrightarrow> xe = None \<and> x \<noteq> [] \<or> len (acc @ x) = want"
  using assms by (auto simp: bodyLoop.simps [of resp want i acc] Let_def split: option.splits if_splits)

lemma bodyLoop_stream:
  "acc = stream resp i \<Longrightarrow> fst (snd (bodyLoop resp want i acc)) = stream resp (fst (bodyLoop resp want i acc))"
proof (induction "nat (want - len acc)" arbitrary: i acc rule: less_induct)
  case less
  obtain x xe where x: "rrReads resp i = (x, xe)" by fastforce
  show ?case
  proof (cases "len acc < want")
    case False
    with less.prems show ?thesis by (simp add: bodyLoop_stop)
  next
    case True
    have st: "acc @ x = stream resp (i + 1)" using less.prems x by simp
    show ?thesis
    proof (cases "xe = None \<and> x \<noteq> []")
      case more: True
      then have "nat (want - len (acc @ x)) < nat (want - len acc)" using True by (auto simp: neq_Nil_conv)
      from less.hyps [OF this st] more bodyLoop_step(1) [OF True x] show ?thesis by simp
    next
      case False
      then have "bodyLoop resp want i acc = (i + 1, acc @ x, snd (snd (bodyLoop resp want i acc)))"
        using bodyLoop_step(1) [OF True x] by metis
      with st show ?thesis by (metis fst_conv snd_conv)
    qed
  qed
qed

lemma bodyLoop_full:
  assumes "acc = stream resp i" "len acc \<le> want" "body_contract resp want" "snd (snd (bodyLoop resp want i acc)) = None"
  shows "len (fst (snd (bodyLoop resp want i acc))) = want"
  using assms(1,2,4)
proof (induction "nat (want - len acc)" arbitrary: i acc rule: less_induct)
  case less
  obtain x xe where x: "rrReads resp i = (x, xe)" by fastforce
  show ?case
  proof (cases "len acc < want")
    case False
    with less.prems show ?thesis by (simp add: bodyLoop_stop)
  next
    case True
    have st: "acc @ x = stream resp (i + 1)" using less.prems(1) x by simp
    have le: "len (acc @ x) \<le> want" using assms(3) True less.prems(1) st by (auto simp: body_contract_def)
    show ?thesis
    proof (cases "xe = None \<and> x \<noteq> []")
      case more: True
      then have eq: "bodyLoop resp want i acc = bodyLoop resp want (i + 1) (acc @ x)"
        using bodyLoop_step(1) [OF True x] by simp
      have "nat (want - len (acc @ x)) < nat (want - len acc)" using True more by (auto simp: neq_Nil_conv)
      from less.hyps [OF this st le] less.prems(3) show ?thesis by (simp add: eq)
    next
      case False
      then have "bodyLoop resp want i acc = (i + 1, acc @ x, snd (snd (bodyLoop resp want i acc)))"
        using bodyLoop_step(1) [OF True x] by metis
      moreover have "len (acc @ x) = want" using bodyLoop_step(2) [OF True x less.prems(3)] False by blast
      ultimately show ?thesis by (metis fst_conv snd_conv)
    qed
  qed
qed

lemma readBody_full:
  assumes "readBody resp want = (d, None)" "0 \<le> want" "body_contract resp want"
  shows "len d = want \<and> (\<exists>i. d = stream resp i)"
proof -
  let ?b = "bodyLoop resp want 0 []"
  have "snd (snd ?b) = None" "fst (snd ?b) = d"
    using assms(1) by (auto simp: readBody_def Let_def split: option.splits prod.splits if_splits)
  with assms bodyLoop_full [of "[]" resp 0 want] bodyLoop_stream [of "[]" resp 0 want]
  show ?thesis by auto
qed

section \<open>A range that is read is the range of the file\<close>

text \<open>A server that says which bytes of the file it sends, and sends those.\<close>

definition honest :: "bytes \<Rightarrow> rangeResponse \<Rightarrow> bool" where
  "honest X resp \<longleftrightarrow> len X < 2 ^ 63 \<and>
     (\<forall>s e t. rrStatus resp = 206 \<and> parseContentRange (rrContentRange resp) = Inr (s, e, t) \<longrightarrow>
        e < len X \<and> (0 \<le> t \<longrightarrow> t = len X) \<and> body_contract resp (e - s + 1) \<and>
        (\<forall>i. len (stream resp i) \<le> e - s + 1 \<longrightarrow> prefix (stream resp i) (bslice s (e + 1) X)))"

lemma checkRange_body:
  assumes h: "honest X resp" and c: "checkRange offset end resp = Inr want"
    and r: "readBody resp want = (d, None)"
  shows "d = bslice offset (min (end + 1) (len X)) X"
proof -
  from c obtain s e t where p: "parseContentRange (rrContentRange resp) = Inr (s, e, t)"
    and st: "rrStatus resp = 206" and s: "s = offset" and e: "e \<le> end"
    and cut: "e < end \<longrightarrow> 0 \<le> t \<and> e = t - 1" and want: "want = i64 (e - s + 1)"
    by (auto simp: checkRange_def split: if_splits sum.splits)
  note b = parseContentRange_sound [OF p]
  have X: "e < len X" "0 \<le> t \<longrightarrow> t = len X" "body_contract resp (e - s + 1)"
    and pre: "\<And>i. len (stream resp i) \<le> e - s + 1 \<Longrightarrow> prefix (stream resp i) (bslice s (e + 1) X)"
    using h st p by (auto simp: honest_def)
  have "e - s + 1 < 2 ^ 63" using b(1) X(1) h by (simp add: honest_def)
  then have w: "want = e - s + 1" using b want by (simp add: i64_nonneg_id)
  from readBody_full [OF r] X(3) b obtain i where i: "d = stream resp i" "len d = e - s + 1" by (auto simp: w)
  with pre [of i] have "prefix d (bslice s (e + 1) X)" by simp
  moreover have "len (bslice s (e + 1) X) = e + 1 - s"
    using b X(1) by (intro length_bslice) (simp add: bslice_ok_def)
  ultimately have "d = bslice s (e + 1) X" using i by (auto simp: prefix_def)
  moreover have "min (end + 1) (len X) = e + 1" using X e cut by auto
  ultimately show ?thesis by (simp add: s)
qed

lemma ReadRange_exact:
  assumes "\<And>req resp. rangeWire req = Inr resp \<Longrightarrow> honest X resp"
    and "ReadRange mw hw rangeWire now fsid offset n c = ((d, None), c')" "0 < n" "offset + n < 2 ^ 63"
  shows "0 \<le> offset \<and> d = bslice offset (min (offset + n) (len X)) X"
proof -
  have off: "0 \<le> offset" using assms(2) by (auto simp: ReadRange_def split: if_splits)
  then have "i64 (offset + n - 1) = offset + n - 1" using assms(3,4) by (intro i64_nonneg_id) auto
  with assms(2,3) off obtain req resp want where "rangeWire req = Inr resp"
    "checkRange offset (offset + n - 1) resp = Inr want" "readBody resp want = (d, None)"
    by (auto simp: ReadRange_def Let_def split: if_splits sum.splits prod.splits option.splits)
  from checkRange_body [OF assms(1) [OF this(1)] this(2,3)] off show ?thesis by (simp add: algebra_simps)
qed

section \<open>Listing\<close>

lemma listLoop_unfold:
  "listLoop wire c path mark out =
     (case listPage wire c path mark of
        Inl e \<Rightarrow> Some (Inl e)
      | Inr resp \<Rightarrow>
          if arHasMore resp = 0 \<or> arNext resp \<le> mark \<or> arEntries resp = []
          then Some (Inr (out @ map listToRemote (arEntries resp)))
          else listLoop wire c path (arNext resp) (out @ map listToRemote (arEntries resp)))"
  by (subst listLoop.simps) (simp add: Let_def split: sum.split)

text \<open>The marks grow and are 64-bit integers, so the listing ends.\<close>

lemma listLoop_terminates:
  assumes "\<And>mark resp. listPage wire c path mark = Inr resp \<Longrightarrow> arNext resp < 2 ^ 63"
  shows "\<exists>r. listLoop wire c path mark out = Some r"
proof (induction "nat (2 ^ 63 - mark)" arbitrary: mark out rule: less_induct)
  case less
  show ?case
  proof (cases "listPage wire c path mark")
    case (Inl e)
    then show ?thesis by (simp add: listLoop_unfold)
  next
    case (Inr resp)
    show ?thesis
    proof (cases "arHasMore resp = 0 \<or> arNext resp \<le> mark \<or> arEntries resp = []")
      case False
      then have "nat (2 ^ 63 - arNext resp) < nat (2 ^ 63 - mark)" using assms [OF Inr] by auto
      from less [OF this] Inr False show ?thesis by (subst listLoop_unfold) simp
    qed (simp add: Inr listLoop_unfold [of wire c path mark])
  qed
qed

text \<open>The pages a listing is made of: each follows the mark of the one before, and the last one says
  that there is no more.\<close>

fun pages :: "apiListResponse wire \<Rightarrow> APIClient \<Rightarrow> string \<Rightarrow> int \<Rightarrow> apiListResponse list \<Rightarrow> bool" where
  "pages wire c path mark [] = False"
| "pages wire c path mark (r # rs) =
     (listPage wire c path mark = Inr r \<and>
      (if arHasMore r = 0 \<or> arNext r \<le> mark \<or> arEntries r = [] then rs = [] else pages wire c path (arNext r) rs))"

definition listed :: "apiListResponse list \<Rightarrow> RemoteEntry list" where
  "listed rs = concat (map (\<lambda>r. map listToRemote (arEntries r)) rs)"

lemma listLoop_pages:
  "pages wire c path mark rs \<Longrightarrow> listLoop wire c path mark out = Some (Inr (out @ listed rs))"
proof (induction wire c path mark rs arbitrary: out rule: pages.induct)
  case (2 wire c path mark r rs)
  then show ?case by (subst listLoop_unfold) (auto simp: listed_def split: if_splits)
qed simp

lemma listLoop_is_pages:
  assumes "\<And>mark resp. listPage wire c path mark = Inr resp \<Longrightarrow> arNext resp < 2 ^ 63"
    and "listLoop wire c path mark out = Some (Inr res)"
  shows "\<exists>rs. pages wire c path mark rs \<and> res = out @ listed rs"
  using assms(2)
proof (induction "nat (2 ^ 63 - mark)" arbitrary: mark out rule: less_induct)
  case less
  from less.prems obtain resp where p: "listPage wire c path mark = Inr resp"
    by (subst (asm) listLoop_unfold) (auto split: sum.splits)
  show ?case
  proof (cases "arHasMore resp = 0 \<or> arNext resp \<le> mark \<or> arEntries resp = []")
    case True
    with p less.prems have "res = out @ listed [resp]" "pages wire c path mark [resp]"
      by (simp_all add: listLoop_unfold [of wire c path mark] listed_def)
    then show ?thesis by blast
  next
    case False
    then have "nat (2 ^ 63 - arNext resp) < nat (2 ^ 63 - mark)" using assms(1) [OF p] by auto
    moreover have "listLoop wire c path (arNext resp) (out @ map listToRemote (arEntries resp)) = Some (Inr res)"
      using less.prems p False by (subst (asm) listLoop_unfold) simp
    ultimately obtain rs where "pages wire c path (arNext resp) rs" "res = (out @ map listToRemote (arEntries resp)) @ listed rs"
      using less.hyps by blast
    with p False have "pages wire c path mark (resp # rs)" "res = out @ listed (resp # rs)" by (simp_all add: listed_def)
    then show ?thesis by blast
  qed
qed

section \<open>The link cache and the token\<close>

definition fresh :: "int \<Rightarrow> DownloadLink \<Rightarrow> bool" where
  "fresh now link \<longleftrightarrow> (case dlExpiresAt link of None \<Rightarrow> True | Some e \<Rightarrow> now \<le> e)"

lemma cached_fresh: "links c f = Some l \<Longrightarrow> fresh now l \<Longrightarrow> GetDownloadLink mw hw now f c = (Inr l, c)"
  by (simp add: GetDownloadLink_def cachedDownloadLink_def fresh_def split: option.splits)

lemma GetDownloadLink_caches:
  assumes "GetDownloadLink mw hw now f c = (Inr l, c')"
  shows "links c' f = Some l" "fresh now l" "accessToken c' = accessToken c" "\<And>g. g \<noteq> f \<Longrightarrow> links c' g = links c g"
proof -
  have "links c' f = Some l \<and> fresh now l \<and> accessToken c' = accessToken c \<and> (\<forall>g. g \<noteq> f \<longrightarrow> links c' g = links c g)"
  proof (cases "fst (cachedDownloadLink now f c)")
    case (Some k)
    with assms show ?thesis
      by (auto simp: GetDownloadLink_def cachedDownloadLink_def fresh_def split: option.splits if_splits)
  next
    case None
    then have "cachedDownloadLink now f c = (None, snd (cachedDownloadLink now f c))" by (metis prod.collapse)
    with assms show ?thesis
      by (auto simp: GetDownloadLink_def cachedDownloadLink_def cacheDownloadLink_def fresh_def Let_def
          split: option.splits if_splits sum.splits list.splits)
  qed
  then show "links c' f = Some l" "fresh now l" "accessToken c' = accessToken c" "\<And>g. g \<noteq> f \<Longrightarrow> links c' g = links c g"
    by auto
qed

lemma refreshExchange_token: "refreshExchange w c = Inr out \<Longrightarrow> trAccessToken out \<noteq> [] \<and> refreshToken c \<noteq> []"
  by (auto simp: refreshExchange_def split: sum.splits if_splits)

lemma RefreshAuth_state:
  "case refreshExchange w c of
     Inl e \<Rightarrow> RefreshAuth w cb c = (Some e, c)
   | Inr out \<Rightarrow> accessToken (snd (RefreshAuth w cb c)) = trAccessToken out \<and>
       refreshToken (snd (RefreshAuth w cb c)) = (if trRefreshToken out = [] then refreshToken c else trRefreshToken out) \<and>
       links (snd (RefreshAuth w cb c)) = Map.empty \<and> (cb = None \<longrightarrow> fst (RefreshAuth w cb c) = None)"
  by (simp add: RefreshAuth_def Let_def split: sum.split)

end
