(* ===== verification/RemoteRead.thy ===== *)
theory RemoteRead
  imports RemoteSystem BaiduLaws
begin

text \<open>
  The reads of the remote reader over its concurrent steps: \<open>readSequential\<close> and \<open>readChunk\<close> (one relation
  with two instances), \<open>readConcurrent\<close>, \<open>ReadExactRange\<close>, \<open>ReadRange\<close> and \<open>Prefetch\<close>; what a successful read
  returns; and the case in which \<open>readConcurrent\<close> pads a part of its buffer with zeros.
\<close>

section \<open>The attempts\<close>

text \<open>What a client promises about a range: on success, a prefix of it.\<close>

definition answer_ok :: "content \<Rightarrow> string \<Rightarrow> int \<Rightarrow> int \<Rightarrow> bytes \<times> goerr option \<Rightarrow> bool" where
  "answer_ok c f off n ans \<longleftrightarrow> (snd ans = None \<longrightarrow> prefix (fst ans) (bslice off (off + n) (c f)))"

lemma attemptErr_None: "attemptErr exact n ans = None \<Longrightarrow> snd ans = None \<and> (exact \<noteq> None \<longrightarrow> len (fst ans) = n)"
  by (auto simp: attemptErr_def split: option.splits if_splits)

lemma attempts_ok:
  "attempts exact n ans ctxAt a left lastErr k = (Inr d, k') \<Longrightarrow>
   \<exists>i. ans i = (d, None) \<and> (exact \<noteq> None \<longrightarrow> len d = n)"
proof (induction exact n ans ctxAt a left lastErr k rule: attempts.induct)
  case (2 exact n answers ctxAt a left lastErr refreshed)
  show ?case
  proof (cases "attemptErr exact n (answers a)")
    case None
    with "2.prems" attemptErr_None [OF None] show ?thesis by (intro exI [of _ a]) (auto simp: prod_eq_iff)
  next
    case (Some e)
    with "2.prems" "2.IH" [OF Some] show ?thesis by (auto split: if_splits)
  qed
qed simp

text \<open>The token is refreshed only after an error that says so, and at most once per attempt.\<close>

lemma attempts_refreshes:
  "k \<le> snd (attempts exact n ans ctxAt a left lastErr k) \<and> snd (attempts exact n ans ctxAt a left lastErr k) \<le> k + left"
proof (induction exact n ans ctxAt a left lastErr k rule: attempts.induct)
  case (2 exact n answers ctxAt a left lastErr refreshed)
  show ?case
  proof (cases "attemptErr exact n (answers a)")
    case (Some e)
    with "2.IH" [OF Some] show ?thesis by (cases "ctxAt a") (auto split: if_splits)
  qed simp
qed simp

lemma attempts_fail:
  "attempts exact n ans ctxAt a left lastErr k = (Inl e, k') \<Longrightarrow> 0 < left \<or> lastErr \<noteq> None \<Longrightarrow> e \<noteq> None"
proof (induction exact n ans ctxAt a left lastErr k rule: attempts.induct)
  case (2 exact n answers ctxAt a left lastErr refreshed)
  show ?case
  proof (cases "attemptErr exact n (answers a)")
    case (Some x)
    show ?thesis
    proof (cases "ctxAt a")
      case None
      with "2.prems" "2.IH" [OF Some] Some show ?thesis by simp
    next
      case ctx: (Some y)
      then have "e = Some y" using "2.prems"(1) Some by simp
      then show ?thesis by simp
    qed
  qed (use "2.prems" in simp)
qed simp

lemma prefix_full: "prefix d (bslice a (a + n) X) \<Longrightarrow> len d = n \<Longrightarrow> d = bslice a (a + n) X"
proof -
  assume p: "prefix d (bslice a (a + n) X)" and n: "len d = n"
  have "length (bslice a (a + n) X) \<le> nat n" by (simp add: bslice_def)
  with p n show ?thesis by (auto simp: prefix_def)
qed

lemma prefix_of_slice:
  assumes "prefix d (bslice w (w + n) X)" "0 \<le> w"
  shows "prefix d (drop (nat w) X)"
  using assms by (metis bslice_def prefix_order.trans take_is_prefix)

lemma attempts_good:
  assumes "\<forall>i. answer_ok c f w n (ans i)" "0 \<le> w" "attempts exact n ans ctxAt a left lastErr k = (Inr d, k')"
  shows "good c (f, w) d"
proof -
  from attempts_ok [OF assms(3)] obtain i where "ans i = (d, None)" by blast
  with assms(1) have "prefix d (bslice w (w + n) (c f))" by (metis answer_ok_def fst_conv snd_conv)
  with assms(2) show ?thesis by (simp add: good_def prefix_of_slice)
qed

section \<open>Reading a window\<close>

text \<open>
  The common course of \<open>readSequential\<close> and \<open>readChunk\<close>: a cached window; a read of the same window
  in flight, found by \<open>waitInflight\<close> or by \<open>beginInflight\<close>; or a read of its own of \<open>F\<close> bytes
  from \<open>w\<close> on, published and stored.
\<close>

inductive window_read ::
  "content \<Rightarrow> (cacheKey list \<Rightarrow> cacheKey list) \<Rightarrow> (int \<Rightarrow> string) option \<Rightarrow> string \<Rightarrow> int \<Rightarrow> int \<Rightarrow> int \<Rightarrow> int \<Rightarrow>
   Reader \<Rightarrow> goerr option + bytes \<Rightarrow> Reader \<Rightarrow> bool"
  for c rng exact f w F offset n where
  wr_hit: "readCachedLocked rng f offset n r = (Some d, r') \<Longrightarrow> window_read c rng exact f w F offset n r (Inr d) r'"
| wr_wait: "readCachedLocked rng f offset n r = (None, r1) \<Longrightarrow> (rd_step c)\<^sup>*\<^sup>* r1 r2 \<Longrightarrow>
    inflightMap r2 (f, w) = Some a \<Longrightarrow> (rd_step c)\<^sup>*\<^sup>* r2 r3 \<Longrightarrow> ioDone (rObjs r3 a) \<Longrightarrow>
    window_read c rng exact f w F offset n r (inflightResult r3 a w offset n) r3"
| wr_canceled: "readCachedLocked rng f offset n r = (None, r1) \<Longrightarrow> (rd_step c)\<^sup>*\<^sup>* r1 r2 \<Longrightarrow>
    inflightMap r2 (f, w) = Some a \<Longrightarrow> (rd_step c)\<^sup>*\<^sup>* r2 r3 \<Longrightarrow>
    window_read c rng exact f w F offset n r (Inl (Some e)) r3"
| wr_own: "readCachedLocked rng f offset n r = (None, r1) \<Longrightarrow> (rd_step c)\<^sup>*\<^sup>* r1 r2 \<Longrightarrow>
    beginInflight f w r2 = (a, True, r3) \<Longrightarrow> (rd_step c)\<^sup>*\<^sup>* r3 r4 \<Longrightarrow>
    \<not> ioDone (rObjs r4 a) \<Longrightarrow> \<forall>i. answer_ok c f w F (ans i) \<Longrightarrow>
    attempts exact F ans ctxAt 0 2 None 0 = (Inr d, k) \<Longrightarrow>
    (rd_step c)\<^sup>*\<^sup>* (finishInflight f w a d None (r4\<lparr>rRefreshes := rRefreshes r4 + k\<rparr>)) r5 \<Longrightarrow>
    window_read c rng exact f w F offset n r (Inr (sliceForWindow d w offset n)) (storeCachedLocked f w d r5)"
| wr_fail: "readCachedLocked rng f offset n r = (None, r1) \<Longrightarrow> (rd_step c)\<^sup>*\<^sup>* r1 r2 \<Longrightarrow>
    beginInflight f w r2 = (a, True, r3) \<Longrightarrow> (rd_step c)\<^sup>*\<^sup>* r3 r4 \<Longrightarrow>
    \<not> ioDone (rObjs r4 a) \<Longrightarrow> attempts exact F ans ctxAt 0 2 None 0 = (Inl (Some e), k) \<Longrightarrow>
    window_read c rng exact f w F offset n r (Inl (Some e))
      (finishInflight f w a [] (Some e) (r4\<lparr>rRefreshes := rRefreshes r4 + k\<rparr>))"

definition readSequential ::
  "content \<Rightarrow> (cacheKey list \<Rightarrow> cacheKey list) \<Rightarrow> string \<Rightarrow> int \<Rightarrow> int \<Rightarrow> int \<Rightarrow> Reader \<Rightarrow> goerr option + bytes \<Rightarrow> Reader \<Rightarrow> bool" where
  "readSequential c rng f offset n chunk =
     (let F = fetchWindow n chunk in window_read c rng None f (alignOffset offset F) F offset n)"

definition readChunk ::
  "content \<Rightarrow> (cacheKey list \<Rightarrow> cacheKey list) \<Rightarrow> string \<Rightarrow> int \<Rightarrow> int \<Rightarrow> Reader \<Rightarrow> goerr option + bytes \<Rightarrow> Reader \<Rightarrow> bool" where
  "readChunk c rng f offset n =
     window_read c rng (Some (shortText ''read chunk at '' offset n)) f offset n offset n"

lemma steps_keep:
  assumes "(rd_step c)\<^sup>*\<^sup>* r s" "rd_inv c r"
  shows "rd_inv c s" "rd_ext r s"
  using remote.steps_inv [OF assms] remote.steps_ext [OF assms] .

lemma ext_key:
  assumes "rd_ext r s" "a < rNext r"
  shows "a < rNext s" "ioKey (rObjs s a) = ioKey (rObjs r a)"
  using assms by (auto simp: rd_ext_def)

lemma own_key:
  assumes "rd_inv c r" "beginInflight f w r = (a, True, r')"
  shows "rd_inv c r'" "a < rNext r'" "ioKey (rObjs r' a) = (f, w)"
proof -
  show "rd_inv c r'" using rd_begin_inv [OF assms(1), of f w] assms(2) by simp
  show "a < rNext r'" "ioKey (rObjs r' a) = (f, w)"
    using assms(2) by (auto simp: beginInflight_def split: option.splits)
qed

lemma rd_inv_refreshes [simp]: "rd_inv c (r\<lparr>rRefreshes := k\<rparr>) = rd_inv c r"
  by (simp add: rd_inv_def rc_ok_def rc_sync_def reads_def bucket_ok_def)

text \<open>A read of a window keeps the invariant, and what it returns are bytes of the file from the
  offset on, possibly fewer than asked for.\<close>

lemma window_read_sound:
  assumes rd: "window_read c rng exact f w F offset n r res r'" and inv: "rd_inv c r" and sz: "sized c"
    and rng: "\<And>ks. set (rng ks) = set ks" and b: "0 \<le> w" "w \<le> offset" "0 \<le> n" "offset + n < 2 ^ 62"
  shows "rd_inv c r' \<and> (\<forall>d. res = Inr d \<longrightarrow> prefix d (bslice offset (offset + n) (c f)))"
  using rd
proof cases
  case (wr_hit d)
  have "rd_inv c r'" using rd_step_keeps [OF rd_lookup inv, of rng f offset n] wr_hit by simp
  moreover have "d = bslice offset (offset + n) (c f)"
    using readCached_exact(1) [OF inv sz rng _ b(3,4), of f d] wr_hit b by simp
  ultimately show ?thesis using wr_hit by simp
next
  case (wr_wait r1 r2 a)
  have "rd_inv c r1" using rd_step_keeps [OF rd_lookup inv, of rng f offset n] wr_wait by simp
  note i2 = steps_keep(1) [OF wr_wait(3) this]
  note i3 = steps_keep [OF wr_wait(5) i2]
  note a = rd_invD(4,5) [OF i2 wr_wait(4)]
  have "prefix d (bslice offset (offset + n) (c f))" if "res = Inr d" for d
  proof -
    have e: "ioErr (rObjs r' a) = None" "d = sliceForWindow (ioData (rObjs r' a)) w offset n"
      using that wr_wait(1) by (auto simp: inflightResult_def split: option.splits)
    have "good c (f, w) (ioData (rObjs r' a))"
      using rd_invD(3) [OF i3(1) ext_key(1) [OF i3(2) a(1)] wr_wait(6) e(1)] ext_key(2) [OF i3(2) a(1)] a(2) by simp
    from slice_prefix(2) [OF this b(2,3,4) sz] e show ?thesis by simp
  qed
  with i3 show ?thesis by simp
next
  case (wr_canceled r1 r2 a e)
  have "rd_inv c r1" using rd_step_keeps [OF rd_lookup inv, of rng f offset n] wr_canceled by simp
  from steps_keep(1) [OF wr_canceled(5) steps_keep(1) [OF wr_canceled(3) this]] wr_canceled show ?thesis by simp
next
  case (wr_own r1 r2 a r3 r4 ans ctxAt d k r5)
  have "rd_inv c r1" using rd_step_keeps [OF rd_lookup inv, of rng f offset n] wr_own by simp
  note o = own_key [OF steps_keep(1) [OF wr_own(4) this] wr_own(5)]
  note i4 = steps_keep [OF wr_own(6) o(1)]
  have g: "good c (f, w) d" by (rule attempts_good [OF wr_own(8) b(1) wr_own(9)])
  have "rd_inv c (finishInflight f w a d None (r4\<lparr>rRefreshes := rRefreshes r4 + k\<rparr>))"
    using i4 ext_key [OF i4(2) o(2)] o(3) wr_own(7) g by (intro conjunct1 [OF rd_finish_inv]) simp_all
  from rd_store_inv [OF steps_keep(1) [OF wr_own(10) this] g] slice_prefix(2) [OF g b(2,3,4) sz] wr_own
  show ?thesis by simp
next
  case (wr_fail r1 r2 a r3 r4 ans ctxAt e k)
  have "rd_inv c r1" using rd_step_keeps [OF rd_lookup inv, of rng f offset n] wr_fail by simp
  note o = own_key [OF steps_keep(1) [OF wr_fail(4) this] wr_fail(5)]
  note i4 = steps_keep [OF wr_fail(6) o(1)]
  have "rd_inv c (finishInflight f w a [] (Some e) (r4\<lparr>rRefreshes := rRefreshes r4 + k\<rparr>))"
    using i4 ext_key [OF i4(2) o(2)] o(3) wr_fail(7) by (intro conjunct1 [OF rd_finish_inv]) simp_all
  with wr_fail show ?thesis by simp
qed

section \<open>Reading an exact range\<close>

lemma downloadLink_inv: "rd_inv c r \<Longrightarrow> rd_inv c (snd (downloadLink now getLink f r))"
  using rd_step_keeps [OF rd_link] by blast

lemma downloadLink_client [simp]:
  "rHasClient (snd (downloadLink now getLink f r)) = rHasClient r" "concurrency (snd (downloadLink now getLink f r)) = concurrency r"
  by (simp_all add: downloadLink_def split: option.split prod.split sum.split)

lemma ReadExactRange_sound:
  fixes now getLink ctxAt
  assumes "rd_inv c r" "sized c" "\<And>ks. set (rng ks) = set ks" "\<forall>i. answer_ok c f off n (ans i)"
    and "0 \<le> off" "off + n < 2 ^ 62" "rHasClient r"
  defines "out \<equiv> ReadExactRange rng now getLink ans ctxAt f off n r"
  shows "rd_inv c (snd out) \<and> (\<forall>d. fst out = Inr d \<longrightarrow> d = bslice off (off + n) (c f) \<and> len d = n)"
proof (cases "checkArgs f n")
  case (Some e)
  then show ?thesis using assms(1) by (simp add: out_def ReadExactRange_def)
next
  case None
  then have n: "0 \<le> n" by (auto simp: checkArgs_def split: if_splits)
  let ?l = "downloadLink now getLink f r"
  have il: "rd_inv c (snd ?l)" by (rule downloadLink_inv [OF assms(1)])
  show ?thesis
  proof (cases "fst ?l")
    case (Inl e)
    then obtain r1 where r1: "?l = (Inl e, r1)" by (cases ?l) simp
    then have "out = (Inl (Some e), r1)"
      unfolding out_def ReadExactRange_def using None assms(7) by simp
    then show ?thesis using il r1 by simp
  next
    case (Inr link)
    then obtain r1 where l: "?l = (Inr link, r1)" by (cases ?l) simp
    obtain hit r2 where c: "readCachedLocked rng f off n r1 = (hit, r2)" by fastforce
    have i1: "rd_inv c r1" using il l by simp
    have ic: "rd_inv c r2" using rd_step_keeps [OF rd_lookup i1, of rng f off n] c by simp
    show ?thesis
    proof (cases hit)
      case (Some d)
      note ex = readCached_exact [OF i1 assms(2,3,5) n assms(6), of f d]
      have d: "d = bslice off (off + n) (c f)" "off + n \<le> len (c f)" using ex c Some by simp_all
      then have "len d = n" using n assms(5) length_bslice [of off "off + n" "c f"] by (simp add: bslice_ok_def)
      moreover have "out = (Inr d, r2)"
        unfolding out_def ReadExactRange_def using None assms(7) l Some c by simp
      ultimately show ?thesis using d ic by simp
    next
      case miss: None
      let ?a = "attempts (Some (shortText ''read exact range at '' off n)) n ans ctxAt 0 2 None 0"
      let ?r = "r2\<lparr>rRefreshes := rRefreshes r2 + snd ?a\<rparr>"
      have out: "out = (case fst ?a of Inl e \<Rightarrow> (Inl e, ?r) | Inr d \<Rightarrow> (Inr d, storeCachedLocked f off d ?r))"
        unfolding out_def ReadExactRange_def Let_def using None assms(7) l miss c
        by (simp add: case_prod_beta split: sum.split)
      show ?thesis
      proof (cases "fst ?a")
        case (Inl e)
        with out ic show ?thesis by simp
      next
        case (Inr d)
        then have a: "?a = (Inr d, snd ?a)" by (simp add: prod_eq_iff)
        have g: "good c (f, off) d" by (rule attempts_good [OF assms(4,5) a])
        from attempts_ok [OF a] obtain i where i: "ans i = (d, None)" "len d = n" by blast
        have "prefix d (bslice off (off + n) (c f))" using assms(4) i(1) by (metis answer_ok_def fst_conv snd_conv)
        from prefix_full [OF this i(2)] have "d = bslice off (off + n) (c f)" .
        moreover have "rd_inv c (storeCachedLocked f off d ?r)" using rd_store_inv [OF _ g, of ?r] ic by simp
        ultimately show ?thesis using out Inr i(2) by simp
      qed
    qed
  qed
qed

section \<open>Streaming reads\<close>

text \<open>\<open>ReadStreamRange\<close> gives the stream engine the whole range or an error.\<close>

lemma ReadStreamRange_sound:
  assumes "answer_ok c f off n ans" "rHasClient r" "fst (ReadStreamRange ans f off n r) = (d, None)"
  shows "d = bslice off (off + n) (c f)" "len d = n" "0 \<le> n"
proof -
  have n: "0 \<le> n" "checkArgs f n = None" using assms(3)
    by (auto simp: ReadStreamRange_def checkArgs_def split: if_splits)
  then have a: "ans = (d, None)" "len d = n"
    using assms(2,3) by (auto simp: ReadStreamRange_def Let_def split: prod.splits option.splits if_splits)
  then have "prefix d (bslice off (off + n) (c f))" using assms(1) by (simp add: answer_ok_def)
  from prefix_full [OF this a(2)] show "d = bslice off (off + n) (c f)" .
  show "len d = n" "0 \<le> n" using a n by simp_all
qed

section \<open>Sequential reads\<close>

lemma alignOffset_bounds:
  assumes "0 < F" "0 \<le> off" "off < 2 ^ 62"
  shows "0 \<le> alignOffset off F" "alignOffset off F \<le> off"
proof -
  have d: "off div F * F \<le> off" "0 \<le> off div F * F"
    using assms div_mult_mod_eq [of off F] pos_mod_sign [of F off] by (linarith, simp add: pos_imp_zdiv_nonneg_iff)
  have "go_div off F = off div F" using assms by (intro go_div_nonneg) simp_all
  then have "i64 (go_div off F * F) = off div F * F" using d assms by (simp add: i64_nonneg_id)
  with d assms show "0 \<le> alignOffset off F" "alignOffset off F \<le> off" by (auto simp: alignOffset_def)
qed

lemma fetchWindow_pos: "0 < fetchWindow n chunk"
  by (simp add: fetchWindow_def Let_def)

lemma readSequential_sound:
  assumes "readSequential c rng f off n chunk r res r'" "rd_inv c r" "sized c" "\<And>ks. set (rng ks) = set ks"
    and "0 \<le> off" "0 \<le> n" "off + n < 2 ^ 62"
  shows "rd_inv c r' \<and> (\<forall>d. res = Inr d \<longrightarrow> prefix d (bslice off (off + n) (c f)))"
  using assms(1) unfolding readSequential_def Let_def
  by (rule window_read_sound [OF _ assms(2-4)])
    (use alignOffset_bounds [OF fetchWindow_pos assms(5)] assms(5-7) in auto)

lemma readChunk_sound:
  assumes "readChunk c rng f off n r res r'" "rd_inv c r" "sized c" "\<And>ks. set (rng ks) = set ks"
    and "0 \<le> off" "0 \<le> n" "off + n < 2 ^ 62"
  shows "rd_inv c r' \<and> (\<forall>d. res = Inr d \<longrightarrow> prefix d (bslice off (off + n) (c f)))"
  using assms(1) unfolding readChunk_def
  by (rule window_read_sound [OF _ assms(2-4)]) (use assms(5-7) in auto)

section \<open>Concurrent reads\<close>

text \<open>
  \<open>readConcurrent\<close>. The workers read the chunks at the same time: each read starts in some state
  after the start of the call and ends before its return, with any steps in between. Without an error the
  chunks are copied into the buffer; otherwise the error of one of them, or of the context, is returned.
\<close>

inductive readConcurrent ::
  "content \<Rightarrow> (cacheKey list \<Rightarrow> cacheKey list) \<Rightarrow> string \<Rightarrow> int \<Rightarrow> int \<Rightarrow> int \<Rightarrow>
   Reader \<Rightarrow> goerr option + bytes \<Rightarrow> Reader \<Rightarrow> bool"
  for c rng f offset n chunk where
  rc_empty: "n \<le> 0 \<Longrightarrow> readConcurrent c rng f offset n chunk r (Inr []) r"
| rc_one: "0 < n \<Longrightarrow> chunkCount n chunk \<le> 1 \<Longrightarrow> readSequential c rng f offset n chunk r res r' \<Longrightarrow>
    readConcurrent c rng f offset n chunk r res r'"
| rc_all: "0 < n \<Longrightarrow> 1 < chunkCount n chunk \<Longrightarrow>
    \<forall>i<chunkCount n chunk. \<exists>a b. (rd_step c)\<^sup>*\<^sup>* r a \<and> (rd_step c)\<^sup>*\<^sup>* b r' \<and>
      readChunk c rng f (offset + int i * chunk) (partOf n chunk i) a (Inr (got i)) b \<Longrightarrow>
    (rd_step c)\<^sup>*\<^sup>* r r' \<Longrightarrow> readConcurrent c rng f offset n chunk r (Inr (concurrentBuffer n chunk got)) r'"
| rc_failed: "0 < n \<Longrightarrow> 1 < chunkCount n chunk \<Longrightarrow> i < chunkCount n chunk \<Longrightarrow> (rd_step c)\<^sup>*\<^sup>* r a \<Longrightarrow> (rd_step c)\<^sup>*\<^sup>* b r' \<Longrightarrow>
    readChunk c rng f (offset + int i * chunk) (partOf n chunk i) a (Inl e) b \<Longrightarrow>
    (rd_step c)\<^sup>*\<^sup>* r r' \<Longrightarrow> readConcurrent c rng f offset n chunk r (Inl e) r'"
| rc_canceled: "0 < n \<Longrightarrow> 1 < chunkCount n chunk \<Longrightarrow> (rd_step c)\<^sup>*\<^sup>* r r' \<Longrightarrow>
    readConcurrent c rng f offset n chunk r (Inl (Some e)) r'"

lemma copyInto_full: "len d = room \<Longrightarrow> copyInto room d = d"
  by (auto simp: copyInto_def)

lemma chunkCount_eq:
  assumes "0 < n" "0 < chunk" "n + chunk < 2 ^ 63"
  shows "int (chunkCount n chunk) = (n + chunk - 1) div chunk"
    "int (chunkCount n chunk - 1) * chunk < n" "n \<le> int (chunkCount n chunk) * chunk" "0 < chunkCount n chunk"
proof -
  let ?q = "(n + chunk - 1) div chunk"
  have "i64 (n + chunk - 1) = n + chunk - 1" using assms by (intro i64_nonneg_id) auto
  then have q: "chunkCount n chunk = nat ?q" using assms by (simp add: chunkCount_def go_div_nonneg)
  have m: "?q * chunk + (n + chunk - 1) mod chunk = n + chunk - 1" "0 \<le> (n + chunk - 1) mod chunk" "(n + chunk - 1) mod chunk < chunk"
    using assms by simp_all
  have "1 \<le> ?q" using assms zdiv_mono1 [of chunk "n + chunk - 1" chunk] by simp
  then have k: "int (chunkCount n chunk) = ?q" "int (chunkCount n chunk - 1) = ?q - 1" "0 < chunkCount n chunk"
    using q by auto
  show "int (chunkCount n chunk) = ?q" "0 < chunkCount n chunk" by (fact k(1), fact k(3))
  show "int (chunkCount n chunk - 1) * chunk < n" "n \<le> int (chunkCount n chunk) * chunk"
    unfolding k(1,2) using m by (simp_all only: left_diff_distrib mult_1)
qed

lemma part_end:
  assumes "0 < n" "0 < chunk" "n + chunk < 2 ^ 63" "i < chunkCount n chunk"
  shows "0 < partOf n chunk i" "int i * chunk + partOf n chunk i = min n ((int i + 1) * chunk)" "partOf n chunk i \<le> chunk"
proof -
  have "int i * chunk \<le> int (chunkCount n chunk - 1) * chunk" using assms by (intro mult_right_mono) auto
  then have lt: "int i * chunk < n" using chunkCount_eq(2) [OF assms(1-3)] by linarith
  have "(int i + 1) * chunk = int i * chunk + chunk" by (simp add: algebra_simps)
  with lt assms(2) show "0 < partOf n chunk i" "int i * chunk + partOf n chunk i = min n ((int i + 1) * chunk)"
    "partOf n chunk i \<le> chunk"
    by (auto simp: partOf_def min_def)
qed

lemma buffer_prefix:
  assumes "0 < n" "0 < chunk" "n + chunk < 2 ^ 63" "0 \<le> off" "k \<le> chunkCount n chunk"
    and "\<forall>i<k. got i = bslice (off + int i * chunk) (off + int i * chunk + partOf n chunk i) X \<and> len (got i) = partOf n chunk i"
  shows "concat (map (\<lambda>i. copyInto (partOf n chunk i) (got i)) [0..<k]) = bslice off (off + min n (int k * chunk)) X"
  using assms(5,6)
proof (induction k)
  case 0
  then show ?case using assms(1) by simp
next
  case (Suc k)
  note p = part_end [OF assms(1-3), of k]
  have "int k * chunk < n" using p(1,2) Suc.prems(1) by auto
  then have m: "min n (int k * chunk) = int k * chunk" by simp
  have gk: "got k = bslice (off + int k * chunk) (off + int k * chunk + partOf n chunk k) X" "len (got k) = partOf n chunk k"
    using Suc.prems(2) by blast+
  then have g: "copyInto (partOf n chunk k) (got k) = bslice (off + int k * chunk) (off + int k * chunk + partOf n chunk k) X"
    using copyInto_full by metis
  let ?e = "off + int k * chunk + partOf n chunk k"
  have e: "off + min n (int (Suc k) * chunk) = ?e"
    using p(2) Suc.prems(1) by (simp add: algebra_simps)
  have "concat (map (\<lambda>i. copyInto (partOf n chunk i) (got i)) [0..<k]) = bslice off (off + int k * chunk) X"
    using Suc.IH Suc.prems m by (metis Suc_leD less_Suc_eq)
  moreover have "bslice off (off + int k * chunk) X @ bslice (off + int k * chunk) ?e X = bslice off ?e X"
    using p(1) assms(2,4) Suc.prems(1) by (intro bslice_append) auto
  ultimately show ?case unfolding e by (simp del: of_nat_Suc add: g)
qed

lemma concurrent_exact:
  assumes "readConcurrent c rng f off n chunk r (Inr d) r'" "1 < chunkCount n chunk"
    and "rd_inv c r" "sized c" "\<And>ks. set (rng ks) = set ks" "0 \<le> off" "off + n < 2 ^ 62" "0 < chunk" "chunk < 2 ^ 62" "0 < n"
    and full: "\<And>i a b g. i < chunkCount n chunk \<Longrightarrow> (rd_step c)\<^sup>*\<^sup>* r a \<Longrightarrow>
      readChunk c rng f (off + int i * chunk) (partOf n chunk i) a (Inr g) b \<Longrightarrow> len g = partOf n chunk i"
  shows "d = bslice off (off + n) (c f)"
  using assms(1)
proof cases
  case (rc_all got)
  have nc: "n + chunk < 2 ^ 63" using assms by simp
  have "got i = bslice (off + int i * chunk) (off + int i * chunk + partOf n chunk i) (c f) \<and> len (got i) = partOf n chunk i"
    if i: "i < chunkCount n chunk" for i
  proof -
    note p = part_end [OF assms(10,8) nc i]
    obtain a b where s: "(rd_step c)\<^sup>*\<^sup>* r a" and rd: "readChunk c rng f (off + int i * chunk) (partOf n chunk i) a (Inr (got i)) b"
      using rc_all(4) i by blast
    have e: "0 \<le> int i * chunk" "int i * chunk + partOf n chunk i \<le> n" using p assms(8) by auto
    have "prefix (got i) (bslice (off + int i * chunk) (off + int i * chunk + partOf n chunk i) (c f))"
      using readChunk_sound [OF rd steps_keep(1) [OF s assms(3)] assms(4,5)] p e assms(6,7) by auto
    from prefix_full [OF this full [OF i s rd]] full [OF i s rd] show ?thesis by simp
  qed
  then have "d = bslice off (off + min n (int (chunkCount n chunk) * chunk)) (c f)"
    unfolding rc_all(1) concurrentBuffer_def
    using assms(10,8,6) nc by (intro buffer_prefix) blast+
  with chunkCount_eq(3) [OF assms(10,8) nc] show ?thesis by simp
qed (use assms(2,10) in auto)

section \<open>ReadRange\<close>

definition readWithOptions ::
  "content \<Rightarrow> (cacheKey list \<Rightarrow> cacheKey list) \<Rightarrow> string \<Rightarrow> int \<Rightarrow> int \<Rightarrow> Reader \<Rightarrow> goerr option + bytes \<Rightarrow> Reader \<Rightarrow> bool" where
  "readWithOptions c rng f offset n r =
     (if concurrency r \<le> 1 then readSequential c rng f offset n (rChunkSize r) r
      else readConcurrent c rng f offset n (if rChunkSize r \<le> 0 then 8388608 else rChunkSize r) r)"

inductive ReadRange ::
  "content \<Rightarrow> (cacheKey list \<Rightarrow> cacheKey list) \<Rightarrow> string \<Rightarrow> int \<Rightarrow> int \<Rightarrow> Reader \<Rightarrow> goerr option + bytes \<Rightarrow> Reader \<Rightarrow> bool"
  for c rng f offset n where
  rr_args: "checkArgs f n = Some e \<Longrightarrow> ReadRange c rng f offset n r (Inl (Some e)) r"
| rr_none: "checkArgs f n = None \<Longrightarrow> \<not> rHasClient r \<Longrightarrow> ReadRange c rng f offset n r (Inr (zeros n)) r"
| rr_link: "checkArgs f n = None \<Longrightarrow> rHasClient r \<Longrightarrow> downloadLink now getLink f r = (Inl e, r1) \<Longrightarrow>
    ReadRange c rng f offset n r (Inl (Some e)) r1"
| rr_hit: "checkArgs f n = None \<Longrightarrow> rHasClient r \<Longrightarrow> downloadLink now getLink f r = (Inr l, r1) \<Longrightarrow>
    readCachedLocked rng f offset n r1 = (Some d, r2) \<Longrightarrow> ReadRange c rng f offset n r (Inr d) r2"
| rr_fail: "checkArgs f n = None \<Longrightarrow> rHasClient r \<Longrightarrow> downloadLink now getLink f r = (Inr l, r1) \<Longrightarrow>
    readCachedLocked rng f offset n r1 = (None, r2) \<Longrightarrow> (rd_step c)\<^sup>*\<^sup>* r2 r3 \<Longrightarrow>
    readWithOptions c rng f offset n r3 (Inl e) r4 \<Longrightarrow> ReadRange c rng f offset n r (Inl e) r4"
| rr_full: "checkArgs f n = None \<Longrightarrow> rHasClient r \<Longrightarrow> downloadLink now getLink f r = (Inr l, r1) \<Longrightarrow>
    readCachedLocked rng f offset n r1 = (None, r2) \<Longrightarrow> (rd_step c)\<^sup>*\<^sup>* r2 r3 \<Longrightarrow>
    readWithOptions c rng f offset n r3 (Inr d) r4 \<Longrightarrow> n \<le> len d \<Longrightarrow> ReadRange c rng f offset n r (Inr d) r4"
| rr_short: "checkArgs f n = None \<Longrightarrow> rHasClient r \<Longrightarrow> downloadLink now getLink f r = (Inr l, r1) \<Longrightarrow>
    readCachedLocked rng f offset n r1 = (None, r2) \<Longrightarrow> (rd_step c)\<^sup>*\<^sup>* r2 r3 \<Longrightarrow>
    readWithOptions c rng f offset n r3 (Inr d) r4 \<Longrightarrow> len d < n \<Longrightarrow> (rd_step c)\<^sup>*\<^sup>* r4 r5 \<Longrightarrow> rHasClient r5 \<Longrightarrow>
    \<forall>i. answer_ok c f (offset + len d) (n - len d) (ans i) \<Longrightarrow>
    ReadExactRange rng now' getLink' ans ctxAt f (offset + len d) (n - len d) r5 = (missing, r6) \<Longrightarrow>
    ReadRange c rng f offset n r (completeRange offset n d missing) r6"

definition Prefetch ::
  "content \<Rightarrow> (cacheKey list \<Rightarrow> cacheKey list) \<Rightarrow> string \<Rightarrow> int \<Rightarrow> int \<Rightarrow> goerr option \<Rightarrow> Reader \<Rightarrow> goerr option \<Rightarrow> Reader \<Rightarrow> bool" where
  "Prefetch c rng f offset n ctxErr r err r' \<longleftrightarrow>
     (if n \<le> 0 then err = None \<and> r' = r
      else if f = [] then err = Some (ErrText ''fsid is required'') \<and> r' = r
      else if offset < 0 then err = Some (ErrText ''offset must be non-negative'') \<and> r' = r
      else if ctxErr \<noteq> None then err = ctxErr \<and> r' = r
      else if \<not> rHasClient r then err = None \<and> r' = r
      else (\<exists>now getLink e r1. downloadLink now getLink f r = (Inl e, r1) \<and> err = Some e \<and> r' = r1) \<or>
           (\<exists>now getLink l r1 hit r2. downloadLink now getLink f r = (Inr l, r1) \<and>
              readCachedLocked rng f offset n r1 = (hit, r2) \<and>
              (if hit \<noteq> None then err = None \<and> r' = r2
               else \<exists>res. err = (case res of Inl e \<Rightarrow> e | Inr d \<Rightarrow> None) \<and>
                 (if concurrency r2 \<le> 1 \<or> n \<le> rChunkSize r2
                  then \<exists>now' getLink' ans ctxAt. (\<forall>i. answer_ok c f offset n (ans i)) \<and>
                         ReadExactRange rng now' getLink' ans ctxAt f offset n r2 = (res, r')
                  else readConcurrent c rng f offset n (rChunkSize r2) r2 res r'))))"

lemma slice_rest:
  assumes "prefix d (bslice off (off + n) X)" "m = bslice (off + len d) (off + n) X" "0 \<le> off" "len d \<le> n"
  shows "d @ m = bslice off (off + n) X"
proof -
  obtain z where z: "bslice off (off + n) X = d @ z" using assms(1) by (auto simp: prefix_def)
  then have "z = drop (length d) (take (nat n) (drop (nat off) X))" by (simp add: bslice_def)
  moreover have "nat (off + len d) = length d + nat off" "nat (off + n - (off + len d)) = nat n - length d" using assms by auto
  ultimately have "z = m" by (simp add: assms(2) bslice_def drop_take)
  with z show ?thesis by simp
qed

lemma completeRange_Inr:
  assumes "completeRange off n d (missing :: goerr option + bytes) = Inr x" "len d < n"
  obtains m where "missing = Inr m" "x = d @ m" "len x = n"
  using assms by (auto simp: completeRange_def split: sum.splits if_splits)

lemma readWithOptions_seq:
  assumes "readWithOptions c rng f off n r res r'" "concurrency r \<le> 1"
  shows "readSequential c rng f off n (rChunkSize r) r res r'"
  using assms by (simp add: readWithOptions_def)

lemma ReadRange_sound:
  assumes rd: "ReadRange c rng f off n r (Inr d) r'" and inv: "rd_inv c r" and sz: "sized c"
    and rng: "\<And>ks. set (rng ks) = set ks" and cl: "rHasClient r" "concurrency r \<le> 1" and b: "0 \<le> off" "off + n < 2 ^ 62"
  shows "d = bslice off (off + n) (c f) \<and> len d = n"
proof -
  have start: "rd_inv c r1 \<and> rd_ext r r1" if "downloadLink now getLink f r = (Inr l, r1)" for now getLink l r1
    using rd_step_keeps [OF rd_link inv, of now getLink f] that by simp
  have look: "rd_inv c r2 \<and> rd_ext r1 r2" if "readCachedLocked rng f off n r1 = (h, r2)" "rd_inv c r1" for r1 h r2
    using rd_step_keeps [OF rd_lookup that(2), of rng f off n] that by simp
  have mid: "rd_inv c r3 \<and> rd_ext r r3"
    if "downloadLink now getLink f r = (Inr l, r1)" "readCachedLocked rng f off n r1 = (h, r2)" "(rd_step c)\<^sup>*\<^sup>* r2 r3"
    for now getLink l r1 h r2 r3
    using start [OF that(1)] look [OF that(2)] steps_keep [OF that(3)] remote.ext_trans by blast
  have sq: "rd_inv c r4 \<and> prefix x (bslice off (off + n) (c f))"
    if "readWithOptions c rng f off n r3 (Inr x) r4" "rd_inv c r3" "rd_ext r r3" "checkArgs f n = None" for r3 x r4
  proof -
    have "0 \<le> n" using that(4) by (auto simp: checkArgs_def split: if_splits)
    moreover have "concurrency r3 \<le> 1" using that(3) cl by (simp add: rd_ext_def options_kept_def)
    ultimately show ?thesis using readSequential_sound [OF readWithOptions_seq [OF that(1)] that(2) sz rng b(1)] b(2) by blast
  qed
  from rd show ?thesis
  proof cases
    case rr_none
    with cl show ?thesis by simp
  next
    case (rr_hit now getLink l r1)
    have n: "0 \<le> n" using rr_hit by (auto simp: checkArgs_def split: if_splits)
    note e = readCached_exact [OF conjunct1 [OF start [OF rr_hit(3)]] sz rng b(1) n b(2), of f d]
    have "d = bslice off (off + n) (c f)" "off + n \<le> len (c f)" using e rr_hit(4) by simp_all
    with n b(1) length_bslice [of off "off + n" "c f"] show ?thesis by (simp add: bslice_ok_def)
  next
    case (rr_full now getLink l r1 r2 r3)
    note i3 = mid [OF rr_full(3-5)]
    have p: "prefix d (bslice off (off + n) (c f))" using sq [OF rr_full(6) conjunct1 [OF i3] conjunct2 [OF i3] rr_full(1)] by simp
    have "0 \<le> n" using rr_full(1) by (auto simp: checkArgs_def split: if_splits)
    moreover have "length d \<le> nat n" using prefix_length_le [OF p] by (simp add: bslice_def)
    ultimately have "len d = n" using rr_full(7) by simp
    with prefix_full [OF p this] show ?thesis by simp
  next
    case (rr_short now getLink l r1 r2 r3 x r4 r5 ans now' getLink' ctxAt missing)
    note i3 = mid [OF rr_short(4-6)]
    note s4 = sq [OF rr_short(7) conjunct1 [OF i3] conjunct2 [OF i3] rr_short(2)]
    have i5: "rd_inv c r5" using steps_keep(1) [OF rr_short(9)] s4 by blast
    obtain m where m: "missing = Inr m" "d = x @ m" "len d = n" using completeRange_Inr [OF rr_short(1) [symmetric] rr_short(8)] .
    have "0 \<le> off + len x" "off + len x + (n - len x) < 2 ^ 62" using b by auto
    from ReadExactRange_sound [OF i5 sz rng rr_short(11) this rr_short(10), of now' getLink' ctxAt] rr_short(12) m(1)
    have "m = bslice (off + len x) (off + n) (c f)" by simp
    from slice_rest [OF conjunct2 [OF s4] this b(1)] rr_short(8) m show ?thesis by simp
  qed
qed

end
