(* ===== verification/RemoteExample.thy ===== *)
theory RemoteExample
  imports RemoteRead
begin

text \<open>
  A concrete run of the remote reader on a file of four bytes with chunks of two. A first reader asks for
  three bytes and has the chunk at offset \<open>2\<close> in flight with a length of one byte. A second reader asks for four
  bytes: it waits for that chunk, gets one byte, and returns a buffer whose last byte is zero.
\<close>

definition exBytes :: content where
  "exBytes f = [1, 2, 3, 4]"

definition exR :: Reader where
  "exR = snd (snd (beginInflight ''f'' 2 (NewReader True)))"

definition exR1 :: Reader where
  "exR1 = snd (snd (beginInflight ''f'' 0 exR))"

definition exR2 :: Reader where
  "exR2 = storeCachedLocked ''f'' 0 [1, 2] (finishInflight ''f'' 0 1 [1, 2] None (exR1\<lparr>rRefreshes := rRefreshes exR1 + 0\<rparr>))"

definition exR3 :: Reader where
  "exR3 = finishInflight ''f'' 2 0 [3] None exR2"

lemma exR_reachable: "reachable rd_init (rd_step exBytes) exR"
proof (rule reach_step)
  show "reachable rd_init (rd_step exBytes) (NewReader True)" by (rule reach_init) (auto simp: rd_init_def)
  show "rd_step exBytes (NewReader True) exR" unfolding exR_def by (rule rd_begin)
qed

lemma exR_simps:
  "cached exR = Map.empty" "cacheByFSID exR = Map.empty" "inflightMap exR = [(''f'', 2) \<mapsto> 0]" "rNext exR = 1"
  "cacheLimit exR = 67108864" "cacheOrder exR = []" "cacheBytes exR = 0" "ioKey (rObjs exR 0) = (''f'', 2)" "\<not> ioDone (rObjs exR 0)"
  by (simp_all add: exR_def beginInflight_def NewReader_def)

lemma exR1_begin: "beginInflight ''f'' 0 exR = (1, True, exR1)"
  by (simp add: exR1_def beginInflight_def exR_simps)

lemma exR1_simps:
  "cached exR1 = Map.empty" "cacheByFSID exR1 = Map.empty" "inflightMap exR1 = [(''f'', 2) \<mapsto> 0, (''f'', 0) \<mapsto> 1]" "rNext exR1 = 2"
  "cacheLimit exR1 = 67108864" "cacheOrder exR1 = []" "cacheBytes exR1 = 0"
  "ioKey (rObjs exR1 0) = (''f'', 2)" "\<not> ioDone (rObjs exR1 0)" "ioKey (rObjs exR1 (Suc 0)) = (''f'', 0)" "\<not> ioDone (rObjs exR1 (Suc 0))"
  using exR1_begin exR_simps by (auto simp: exR1_def beginInflight_def)

lemma exR2_simps:
  "cached exR2 = [(''f'', 0) \<mapsto> \<lparr>crFsid = ''f'', crOffset = 0, crData = [1, 2]\<rparr>]" "cacheByFSID exR2 = [''f'' \<mapsto> [(''f'', 0)]]"
  "inflightMap exR2 (''f'', 2) = Some 0" "rNext exR2 = 2" "ioKey (rObjs exR2 0) = (''f'', 2)" "\<not> ioDone (rObjs exR2 0)"
  by (simp_all add: exR2_def storeCachedLocked_def finishInflight_def exR1_simps dropCached_def insertCached_def evictReads.simps)

lemma ex_good: "good exBytes (''f'', 0) [1, 2]" "good exBytes (''f'', 2) [3]"
  by (simp_all add: good_def exBytes_def)

lemma exR2_steps: "(rd_step exBytes)\<^sup>*\<^sup>* exR exR2"
proof -
  have "rd_step exBytes exR exR1" unfolding exR1_def by (rule rd_begin)
  moreover have "rd_step exBytes exR1 (exR1\<lparr>rRefreshes := rRefreshes exR1 + 0\<rparr>)" by (rule rd_refresh)
  moreover have "rd_step exBytes (exR1\<lparr>rRefreshes := rRefreshes exR1 + 0\<rparr>)
      (finishInflight ''f'' 0 1 [1, 2] None (exR1\<lparr>rRefreshes := rRefreshes exR1 + 0\<rparr>))"
    by (rule rd_finish) (simp_all add: exR1_simps ex_good)
  moreover have "rd_step exBytes (finishInflight ''f'' 0 1 [1, 2] None (exR1\<lparr>rRefreshes := rRefreshes exR1 + 0\<rparr>)) exR2"
    unfolding exR2_def by (rule rd_store) (rule ex_good)
  ultimately show ?thesis by (meson rtranclp.rtrancl_refl rtranclp.rtrancl_into_rtrancl)
qed

lemma exR3_step: "rd_step exBytes exR2 exR3"
  unfolding exR3_def by (rule rd_finish) (simp_all add: exR2_simps ex_good)

lemma ex_chunk0: "readChunk exBytes id ''f'' 0 2 exR (Inr [1, 2]) exR2"
proof -
  let ?ans = "\<lambda>i :: nat. ([1, 2] :: bytes, None :: goerr option)"
  have miss: "readCachedLocked id ''f'' 0 2 exR = (None, exR)" by (simp add: readCachedLocked_def exR_simps)
  have own: "attempts (Some (shortText ''read chunk at '' 0 2)) 2 ?ans (\<lambda>i. None) 0 2 None 0 = (Inr [1, 2], 0)"
    by (simp add: numeral_2_eq_2 attemptErr_def)
  have ok: "\<forall>i. answer_ok exBytes ''f'' 0 2 (?ans i)" by (simp add: answer_ok_def exBytes_def bslice_def)
  have "sliceForWindow [1, 2] 0 0 2 = [1, 2 :: byte]" by (simp add: sliceForWindow_def i64_def bslice_def Let_def)
  with wr_own [OF miss rtranclp.rtrancl_refl exR1_begin rtranclp.rtrancl_refl _ ok own rtranclp.rtrancl_refl]
  show ?thesis by (simp add: readChunk_def exR2_def exR1_simps)
qed

lemma ex_chunk1: "readChunk exBytes id ''f'' 2 2 exR2 (Inr [3]) exR3"
proof -
  have miss: "readCachedLocked id ''f'' 2 2 exR2 = (None, exR2)"
    by (simp add: readCachedLocked_def exR2_simps i64_def)
  have obj: "rObjs exR3 0 = (rObjs exR2 0)\<lparr>ioDone := True, ioData := [3], ioErr := None\<rparr>"
    by (simp add: exR3_def finishInflight_def)
  then have "inflightResult exR3 0 2 2 2 = Inr [3]"
    by (simp add: inflightResult_def sliceForWindow_def i64_def bslice_def Let_def)
  moreover have "(rd_step exBytes)\<^sup>*\<^sup>* exR2 exR3" using exR3_step by (rule r_into_rtranclp)
  ultimately show ?thesis
    using wr_wait [OF miss rtranclp.rtrancl_refl exR2_simps(3), of exBytes exR3] obj by (simp add: readChunk_def)
qed

lemma ex_concurrent: "readConcurrent exBytes id ''f'' 0 4 2 exR (Inr [1, 2, 3, 0]) exR3"
proof -
  let ?got = "\<lambda>i :: nat. if i = 0 then [1, 2] else [3 :: byte]"
  have k: "chunkCount 4 2 = 2" by (simp add: chunkCount_def i64_def go_div_def)
  have s: "(rd_step exBytes)\<^sup>*\<^sup>* exR2 exR3" using exR3_step by (rule r_into_rtranclp)
  have p: "partOf 4 2 0 = 2" "partOf 4 2 1 = 2" by (simp_all add: partOf_def)
  have "\<exists>a b. (rd_step exBytes)\<^sup>*\<^sup>* exR a \<and> (rd_step exBytes)\<^sup>*\<^sup>* b exR3 \<and>
      readChunk exBytes id ''f'' (0 + int i * 2) (partOf 4 2 i) a (Inr (?got i)) b" if "i < 2" for i
  proof (cases "i = 0")
    case True
    with ex_chunk0 s p show ?thesis by (intro exI [of _ exR] exI [of _ exR2]) simp
  next
    case False
    with that have "i = 1" by simp
    with ex_chunk1 exR2_steps p show ?thesis by (intro exI [of _ exR2] exI [of _ exR3]) simp
  qed
  then have "readConcurrent exBytes id ''f'' 0 4 2 exR (Inr (concurrentBuffer 4 2 ?got)) exR3"
    using exR2_steps s by (intro rc_all) (auto simp: k)
  moreover have "concurrentBuffer 4 2 ?got = [1, 2, 3, 0]"
    by (simp add: concurrentBuffer_def k upt_conv_Cons numeral_2_eq_2 copyInto_def partOf_def)
  ultimately show ?thesis by simp
qed

text \<open>A read that is served from the window just stored.\<close>

lemma exR2_more: "rHasClient exR2" "concurrency exR2 = 1" "rLinks exR2 = Map.empty"
  by (simp_all add: exR2_def storeCachedLocked_def finishInflight_def exR1_simps dropCached_def insertCached_def evictReads.simps)
    (simp_all add: exR1_def exR_def beginInflight_def NewReader_def)

lemma exR2_reachable: "reachable rd_init (rd_step exBytes) exR2"
  by (rule remote.reachable_steps [OF exR2_steps exR_reachable])

lemma ex_hit_read: "\<exists>r'. RemoteRead.ReadRange exBytes id ''f'' 0 2 exR2 (Inr [1, 2]) r'"
proof -
  let ?l = "\<lparr>dlURL = [], dlExpiresAt = None\<rparr>"
  let ?r = "exR2\<lparr>rLinks := [''f'' \<mapsto> (?l, 0 + linkLifetime)]\<rparr>"
  have "downloadLink 0 (\<lambda>_. Inr ?l) ''f'' exR2 = (Inr ?l, ?r)" by (simp add: downloadLink_def exR2_more)
  moreover have "\<exists>r'. readCachedLocked id ''f'' 0 2 ?r = (Some [1, 2], r')"
    by (simp add: readCachedLocked_def exR2_simps i64_def bslice_def)
  ultimately show ?thesis using rr_hit [of "''f''" 2 exR2 0] exR2_more by (fastforce simp: checkArgs_def)
qed

end
