(* ===== verification/RemoteErrors.thy ===== *)
theory RemoteErrors
  imports RemoteRead
begin

text \<open>
  How the errors of the client are classified by the remote reader: a refused range request (status 401 or
  403) is an authorisation error and makes the reader refresh the token; an unsatisfiable one (416) and a wrong
  \<open>Content-Range\<close> are range errors; a body that ends early is an end-of-file error.
\<close>

lemma Contains_prefix: "prefix t s \<Longrightarrow> Contains s t"
  by (cases s) (auto simp: prefix_def)

lemma Contains_append: "Contains s t \<Longrightarrow> Contains (u @ s) t"
  by (induction u) auto

lemma Contains_middle: "Contains (u @ t @ v) t"
  by (rule Contains_append, rule Contains_prefix) simp

text \<open>\<open>ToLower\<close> works byte by byte on ASCII text.\<close>

lemma ToLower_ascii_append:
  "\<forall>c\<in>set s. of_char c < (128 :: nat) \<Longrightarrow> ToLower (s @ t) = ToLower s @ ToLower t"
  by (induction s) auto

lemma status_ascii: "\<forall>c\<in>set (''download range failed: status='' @ ''401''). of_char c < (128 :: nat)"
  "\<forall>c\<in>set (''download range failed: status='' @ ''403''). of_char c < (128 :: nat)"
  "\<forall>c\<in>set (''download range failed: status='' @ ''416''). of_char c < (128 :: nat)"
  by code_simp+

lemma status_lower:
  "ToLower (''download range failed: status='' @ ''401'') = ''download range failed: '' @ ''status=401''"
  "ToLower (''download range failed: status='' @ ''403'') = ''download range failed: '' @ ''status=403''"
  "ToLower (''download range failed: status='' @ ''416'') = ''download range failed: '' @ ''status=416''"
  by code_simp+

lemma status_text: "FormatInt 401 = ''401''" "FormatInt 403 = ''403''" "FormatInt 416 = ''416''"
  by code_simp+

lemma refused_is_auth:
  assumes "rrStatus resp = 401 \<or> rrStatus resp = 403"
  shows "\<exists>e. checkRange off end resp = Inl e \<and> ClassifyDownloadError (Some e) = DownloadErrorAuth"
proof -
  let ?b = "'' body='' @ TrimSpace (take 512 (rrHead resp))"
  let ?m = "\<lambda>st. ''download range failed: status='' @ st @ ?b"
  have low: "Contains (ToLower (?m ''401'')) ''status=401''" "Contains (ToLower (?m ''403'')) ''status=403''"
    using ToLower_ascii_append [OF status_ascii(1), of ?b] ToLower_ascii_append [OF status_ascii(2), of ?b]
      Contains_middle [of "''download range failed: ''" "''status=401''" "ToLower ?b"]
      Contains_middle [of "''download range failed: ''" "''status=403''" "ToLower ?b"]
    unfolding append_assoc status_lower by simp_all
  have e: "checkRange off end resp = Inl (ErrText (?m (FormatInt (rrStatus resp))))"
    using assms by (auto simp: checkRange_def)
  have "ClassifyDownloadError (Some (ErrText (?m (FormatInt (rrStatus resp))))) = DownloadErrorAuth"
    using assms low unfolding ClassifyDownloadError_def Let_def
    by (elim disjE) (simp_all only: option.case errors_Is.simps goerr.distinct err_text.simps status_text simp_thms if_True if_False)
  with e show ?thesis by blast
qed

lemma short_is_eof: "ClassifyDownloadError (Some (ErrWrap s ErrUnexpectedEOF)) = DownloadErrorEOF"
  by (simp add: ClassifyDownloadError_def)

text \<open>A streaming read whose range request is refused reports the error and refreshes the token once.\<close>

lemma stream_refused_refreshes:
  assumes "rHasClient r" "checkArgs f n = None" "ClassifyDownloadError (Some e) = DownloadErrorAuth"
  shows "ReadStreamRange ([], Some e) f off n r = (([], Some e), r\<lparr>rRefreshes := rRefreshes r + 1\<rparr>)"
  using assms by (simp add: ReadStreamRange_def)

end
