(* ===== verification/NegCache.thy ===== *)
theory NegCache
  imports Prelude
begin

text \<open>
  The negative cache (\<open>internal/cache/negative.go\<close>): paths that were found missing, with the time. Times are
  nanoseconds; the reading of the clock is an argument.
\<close>

record NegativeCache =
  ncTTL :: int
  ncEntries :: "string \<rightharpoonup> int"

definition NewNegativeCache :: "int \<Rightarrow> NegativeCache" where
  "NewNegativeCache lifetime = \<lparr>ncTTL = lifetime, ncEntries = Map.empty\<rparr>"

definition MarkMissing :: "int \<Rightarrow> string \<Rightarrow> NegativeCache \<Rightarrow> NegativeCache" where
  "MarkMissing now path c = c\<lparr>ncEntries := (ncEntries c)(path \<mapsto> now)\<rparr>"

definition IsMissing :: "int \<Rightarrow> string \<Rightarrow> NegativeCache \<Rightarrow> bool \<times> NegativeCache" where
  "IsMissing now path c =
     (case ncEntries c path of
        None \<Rightarrow> (False, c)
      | Some ts \<Rightarrow>
          if ncTTL c < now - ts then (False, c\<lparr>ncEntries := (ncEntries c)(path := None)\<rparr>)
          else (True, c))"

text \<open>What the cache knows at a time: the marks that have not expired. Neither operation depends on more.\<close>

definition knownMissing :: "int \<Rightarrow> NegativeCache \<Rightarrow> string set" where
  "knownMissing now c = {p. \<exists>ts. ncEntries c p = Some ts \<and> now - ts \<le> ncTTL c}"

lemma IsMissing_iff: "fst (IsMissing now p c) \<longleftrightarrow> p \<in> knownMissing now c"
  by (auto simp: IsMissing_def knownMissing_def split: option.splits)

lemma IsMissing_keeps: "now \<le> now' \<Longrightarrow> knownMissing now' (snd (IsMissing now p c)) = knownMissing now' c"
  by (auto simp: IsMissing_def knownMissing_def split: option.splits if_splits)

lemma MarkMissing_marks:
  "0 \<le> ncTTL c \<Longrightarrow> now \<le> now' \<Longrightarrow> knownMissing now' (MarkMissing now p c) =
     (if now' - now \<le> ncTTL c then insert p (knownMissing now' c) else knownMissing now' c - {p})"
  by (auto simp: MarkMissing_def knownMissing_def)

lemma knownMissing_expires: "now \<le> now' \<Longrightarrow> knownMissing now' c \<subseteq> knownMissing now c"
  by (auto simp: knownMissing_def)

end
