(* ===== verification/MetaStore.thy ===== *)
theory MetaStore
  imports GoStrings "HOL-Library.Char_ord" "HOL-Library.List_Lexorder"
begin

text \<open>
  The metadata store (\<open>internal/store/store.go\<close>): entries of the remote tree in one SQL table.

  The table \<open>entries\<close> is the list of its rows in the order of their ids, with the next id of
  \<open>autoincrement\<close>; a row has the columns of the schema, the two flags as integers. Each SQL statement of the
  source is a function on tables with the meaning SQLite gives it: \<open>on conflict(path)\<close> as an update of the
  row with that path, \<open>order by name\<close> by the bytes of the name, \<open>like\<close> with its wildcards and without regard
  to the case of ASCII letters. The driver can fail at every call; which call fails is the argument
  \<open>db_env\<close>. A transaction that fails leaves the table as it was. A \<open>*Store\<close> that may be nil is an option, and
  so is its database handle.
\<close>

section \<open>Rows and entries\<close>

record Entry =
  eID :: int
  eFSID :: string
  eParent :: string
  ePath :: string
  eName :: string
  eSize :: int
  eIsDir :: bool
  eMTM :: int
  eMD5 :: string
  eLastSyncAt :: int
  eExpiresAt :: int
  eNegative :: bool

record row =
  cId :: int
  cFsid :: string
  cParent :: string
  cPath :: string
  cName :: string
  cSize :: int
  cIsDir :: int
  cMtime :: int
  cMd5 :: string
  cLastSync :: int
  cExpires :: int
  cNegative :: int

record table =
  tRows :: "row list"
  tNextId :: int

record Store =
  db :: "table option"

record db_env =
  dbMigrate :: "goerr option"
  dbBegin :: "goerr option"
  dbPrepare :: "goerr option"
  dbExec :: "nat \<Rightarrow> goerr option"
  dbCommit :: "goerr option"
  dbRow :: "goerr option"
  dbQuery :: "goerr option"
  dbScan :: "nat \<Rightarrow> goerr option"
  dbNext :: "(nat \<times> goerr) option"

definition boolToInt :: "bool \<Rightarrow> int" where
  "boolToInt v = (if v then 1 else 0)"

text \<open>The values \<open>execEntry\<close> binds, and what \<open>rows.Scan\<close> reads back.\<close>

definition execEntry :: "int \<Rightarrow> Entry \<Rightarrow> row" where
  "execEntry i e =
     \<lparr>cId = i, cFsid = eFSID e, cParent = eParent e, cPath = ePath e, cName = eName e, cSize = eSize e,
      cIsDir = boolToInt (eIsDir e), cMtime = eMTM e, cMd5 = eMD5 e, cLastSync = eLastSyncAt e,
      cExpires = eExpiresAt e, cNegative = boolToInt (eNegative e)\<rparr>"

definition scanEntry :: "row \<Rightarrow> Entry" where
  "scanEntry r =
     \<lparr>eID = cId r, eFSID = cFsid r, eParent = cParent r, ePath = cPath r, eName = cName r, eSize = cSize r,
      eIsDir = (cIsDir r \<noteq> 0), eMTM = cMtime r, eMD5 = cMd5 r, eLastSyncAt = cLastSync r,
      eExpiresAt = cExpires r, eNegative = (cNegative r \<noteq> 0)\<rparr>"

section \<open>The SQL statements\<close>

definition hasPath :: "string \<Rightarrow> table \<Rightarrow> bool" where
  "hasPath p t \<longleftrightarrow> (\<exists>r \<in> set (tRows t). cPath r = p)"

definition upsertEntrySQL :: "Entry \<Rightarrow> table \<Rightarrow> table" where
  "upsertEntrySQL e t =
     (if hasPath (ePath e) t
      then t\<lparr>tRows := map (\<lambda>r. if cPath r = ePath e then execEntry (cId r) e else r) (tRows t)\<rparr>
      else t\<lparr>tRows := tRows t @ [execEntry (tNextId t) e], tNextId := tNextId t + 1\<rparr>)"

definition deleteWhere :: "(row \<Rightarrow> bool) \<Rightarrow> table \<Rightarrow> table" where
  "deleteWhere P t = t\<lparr>tRows := filter (\<lambda>r. \<not> P r) (tRows t)\<rparr>"

definition selectByParent :: "string \<Rightarrow> table \<Rightarrow> row list" where
  "selectByParent pid t = sort_key cName (filter (\<lambda>r. cParent r = pid) (tRows t))"

definition selectByPath :: "string \<Rightarrow> table \<Rightarrow> row option" where
  "selectByPath p t = List.find (\<lambda>r. cPath r = p) (tRows t)"

text \<open>
  \<open>text like pattern\<close>: \<open>%\<close> stands for any text and \<open>_\<close> for one code point; the other code points must be
  equal, ASCII letters up to case. \<open>skipRune\<close> drops the bytes that continue the code point begun by a byte.
\<close>

definition skipRune :: "char \<Rightarrow> string \<Rightarrow> string" where
  "skipRune c s =
     (if of_char c < (192 :: nat) then s
      else dropWhile (\<lambda>d. (128 :: nat) \<le> of_char d \<and> of_char d < (192 :: nat)) s)"

definition asciiFold :: "char \<Rightarrow> char" where
  "asciiFold c = (if (65 :: nat) \<le> of_char c \<and> of_char c \<le> (90 :: nat) then char_of (of_char c + (32 :: nat)) else c)"

lemma length_skipRune [termination_simp]: "length (skipRune c s) < Suc (length s)"
  by (simp add: skipRune_def length_dropWhile_le less_Suc_eq_le)

fun like :: "string \<Rightarrow> string \<Rightarrow> bool" where
  "like [] s \<longleftrightarrow> s = []"
| "like (p # ps) [] \<longleftrightarrow> p = CHR ''%'' \<and> like ps []"
| "like (p # ps) (c # s) \<longleftrightarrow>
     (if p = CHR ''%'' then like ps (c # s) \<or> like (p # ps) (skipRune c s)
      else if p = CHR ''_'' then like ps (skipRune c s)
      else asciiFold p = asciiFold c \<and> like ps s)"

section \<open>Operations\<close>

definition openDB :: "string \<Rightarrow> Store option \<Rightarrow> goerr + table" where
  "openDB nilText s =
     (case s of
        None \<Rightarrow> Inl (ErrText nilText)
      | Some st \<Rightarrow> (case db st of None \<Rightarrow> Inl (ErrText ''db is required'') | Some t \<Rightarrow> Inr t))"

definition setDB :: "table \<Rightarrow> Store option \<Rightarrow> Store option" where
  "setDB t s = map_option (\<lambda>st. st\<lparr>db := Some t\<rparr>) s"

text \<open>One statement outside of a transaction.\<close>

definition execOne :: "db_env \<Rightarrow> string \<Rightarrow> (table \<Rightarrow> table) \<Rightarrow> Store option \<Rightarrow> goerr option \<times> Store option" where
  "execOne env nilText f s =
     (case openDB nilText s of
        Inl e \<Rightarrow> (Some e, s)
      | Inr t \<Rightarrow> (case dbExec env 0 of Some e \<Rightarrow> (Some e, s) | None \<Rightarrow> (None, setDB (f t) s)))"

definition New :: "table option \<Rightarrow> Store" where
  "New d = \<lparr>db = d\<rparr>"

definition Open :: "db_env \<Rightarrow> table option \<Rightarrow> goerr + Store" where
  "Open env d =
     (case d of
        None \<Rightarrow> Inl (ErrText ''db is required'')
      | Some t \<Rightarrow> (case dbMigrate env of Some e \<Rightarrow> Inl e | None \<Rightarrow> Inr \<lparr>db = Some t\<rparr>))"

fun execEntries :: "db_env \<Rightarrow> nat \<Rightarrow> Entry list \<Rightarrow> table \<Rightarrow> goerr + table" where
  "execEntries env i [] t = Inr t"
| "execEntries env i (e # es) t =
     (case dbExec env i of Some err \<Rightarrow> Inl err | None \<Rightarrow> execEntries env (i + 1) es (upsertEntrySQL e t))"

definition inTransaction ::
  "db_env \<Rightarrow> (table \<Rightarrow> goerr + table) \<Rightarrow> table \<Rightarrow> Store option \<Rightarrow> goerr option \<times> Store option" where
  "inTransaction env body t s =
     (case dbBegin env of Some e \<Rightarrow> (Some e, s) | None \<Rightarrow>
      case body t of Inl e \<Rightarrow> (Some e, s) | Inr t' \<Rightarrow>
      case dbCommit env of Some e \<Rightarrow> (Some e, s) | None \<Rightarrow> (None, setDB t' s))"

definition upsertBody :: "db_env \<Rightarrow> nat \<Rightarrow> Entry list \<Rightarrow> table \<Rightarrow> goerr + table" where
  "upsertBody env i es t = (case dbPrepare env of Some e \<Rightarrow> Inl e | None \<Rightarrow> execEntries env i es t)"

definition upsertEntries :: "db_env \<Rightarrow> Entry list \<Rightarrow> Store option \<Rightarrow> goerr option \<times> Store option" where
  "upsertEntries env es s =
     (case openDB ''db is required'' s of
        Inl e \<Rightarrow> (Some e, s)
      | Inr t \<Rightarrow> if es = [] then (None, s) else inTransaction env (upsertBody env 0 es) t s)"

definition UpsertEntry :: "db_env \<Rightarrow> Entry \<Rightarrow> Store option \<Rightarrow> goerr option \<times> Store option" where
  "UpsertEntry env e s = execOne env ''store is nil'' (upsertEntrySQL e) s"

fun scanRows :: "db_env \<Rightarrow> nat \<Rightarrow> row list \<Rightarrow> Entry list \<Rightarrow> Entry list \<times> goerr option" where
  "scanRows env i [] out = (out, map_option snd (dbNext env))"
| "scanRows env i (r # rs) out =
     (case dbNext env of
        Some (n, e) \<Rightarrow> if n \<le> i then (out, Some e)
                       else (case dbScan env i of Some e' \<Rightarrow> ([], Some e') | None \<Rightarrow> scanRows env (i + 1) rs (out @ [scanEntry r]))
      | None \<Rightarrow> (case dbScan env i of Some e' \<Rightarrow> ([], Some e') | None \<Rightarrow> scanRows env (i + 1) rs (out @ [scanEntry r])))"

definition queryChildren :: "db_env \<Rightarrow> string \<Rightarrow> table \<Rightarrow> Entry list \<times> goerr option" where
  "queryChildren env pid t =
     (case dbQuery env of Some e \<Rightarrow> ([], Some e) | None \<Rightarrow> scanRows env 0 (selectByParent pid t) [])"

definition GetByPath :: "db_env \<Rightarrow> string \<Rightarrow> Store option \<Rightarrow> Entry option \<times> goerr option" where
  "GetByPath env path s =
     (case openDB ''store is nil'' s of
        Inl e \<Rightarrow> (None, Some e)
      | Inr t \<Rightarrow> (case dbRow env of
                    Some e \<Rightarrow> (None, Some e)
                  | None \<Rightarrow> (map_option scanEntry (selectByPath path t), None)))"

definition GetChildrenByParent :: "db_env \<Rightarrow> string \<Rightarrow> Store option \<Rightarrow> Entry list \<times> goerr option" where
  "GetChildrenByParent env pid s =
     (case openDB ''store is nil'' s of Inl e \<Rightarrow> ([], Some e) | Inr t \<Rightarrow> queryChildren env pid t)"

definition ListChildren :: "db_env \<Rightarrow> string \<Rightarrow> Store option \<Rightarrow> Entry list \<times> goerr option" where
  "ListChildren env path s =
     (case openDB ''store is nil'' s of
        Inl e \<Rightarrow> ([], Some e)
      | Inr t \<Rightarrow>
          if path = ''/'' then queryChildren env ''0'' t
          else (case GetByPath env path s of
                  (_, Some e) \<Rightarrow> ([], Some e)
                | (None, None) \<Rightarrow> ([], None)
                | (Some parent, None) \<Rightarrow> queryChildren env (eFSID parent) t))"

definition rootEntry :: "int \<Rightarrow> Entry" where
  "rootEntry now =
     \<lparr>eID = 0, eFSID = ''0'', eParent = [], ePath = ''/'', eName = [], eSize = 0, eIsDir = True, eMTM = 0,
      eMD5 = [], eLastSyncAt = now, eExpiresAt = now + 86400, eNegative = False\<rparr>"

definition EnsureRoot :: "db_env \<Rightarrow> int \<Rightarrow> Store option \<Rightarrow> goerr option \<times> Store option" where
  "EnsureRoot env now s =
     execOne env ''store is nil'' (\<lambda>t. if hasPath ''/'' t then t else upsertEntrySQL (rootEntry now) t) s"

definition UpsertEntries :: "db_env \<Rightarrow> Entry list \<Rightarrow> Store option \<Rightarrow> goerr option \<times> Store option" where
  "UpsertEntries env es s = upsertEntries env es s"

definition UpsertFromRemote :: "db_env \<Rightarrow> string \<Rightarrow> Entry list \<Rightarrow> Store option \<Rightarrow> goerr option \<times> Store option" where
  "UpsertFromRemote env parent es s =
     upsertEntries env (map (\<lambda>e. if eParent e = [] then e\<lparr>eParent := parent\<rparr> else e) es) s"

text \<open>The delete is statement 0 of the transaction, the upserts are the statements from 1 on.\<close>

definition replaceBody :: "db_env \<Rightarrow> string \<Rightarrow> Entry list \<Rightarrow> table \<Rightarrow> goerr + table" where
  "replaceBody env pid es t =
     (case dbExec env 0 of
        Some e \<Rightarrow> Inl e
      | None \<Rightarrow> let t1 = deleteWhere (\<lambda>r. cParent r = pid) t in
                if es = [] then Inr t1 else upsertBody env 1 es t1)"

definition ReplaceChildren :: "db_env \<Rightarrow> string \<Rightarrow> Entry list \<Rightarrow> Store option \<Rightarrow> goerr option \<times> Store option" where
  "ReplaceChildren env pid es s =
     (case openDB ''db is required'' s of
        Inl e \<Rightarrow> (Some e, s)
      | Inr t \<Rightarrow> inTransaction env (replaceBody env pid es) t s)"

definition ExpirePath :: "db_env \<Rightarrow> string \<Rightarrow> Store option \<Rightarrow> goerr option \<times> Store option" where
  "ExpirePath env path s =
     execOne env ''store is nil''
       (\<lambda>t. t\<lparr>tRows := map (\<lambda>r. if cPath r = path then r\<lparr>cExpires := 0\<rparr> else r) (tRows t)\<rparr>) s"

definition childPattern :: "string \<Rightarrow> string" where
  "childPattern path = TrimRight path CHR ''/'' @ ''/%''"

definition DeletePath :: "db_env \<Rightarrow> string \<Rightarrow> Store option \<Rightarrow> goerr option \<times> Store option" where
  "DeletePath env path s =
     (case openDB ''store is nil'' s of
        Inl e \<Rightarrow> (Some e, s)
      | Inr t \<Rightarrow>
          if path = [] \<or> path = ''/'' then (Some (ErrText ''refuse to delete root''), s)
          else execOne env ''store is nil''
                 (deleteWhere (\<lambda>r. cPath r = path \<or> like (childPattern path) (cPath r))) s)"

definition DebugString :: "Entry \<Rightarrow> string" where
  "DebugString e = ePath e @ '' ('' @ eName e @ '')''"

text \<open>\<open>sort.Slice\<close> is not stable; entries with equal names come out in some order, here in the one they had.\<close>

definition Sorted :: "Entry list \<Rightarrow> Entry list" where
  "Sorted es = sort_key eName es"

end
