(* ===== verification/FileSystem.thy ===== *)
theory FileSystem
  imports GoPath NegCache MetaStore RemoteRead StreamRead
begin

text \<open>
  The file system (\<open>internal/fs/filesystem.go\<close>): the directory tree that FUSE shows, kept in the metadata
  store and refreshed from the remote side, and reading and deleting files.

  The state has the fields of \<open>Filesystem\<close>; a pointer that may be nil is an option. Everything an operation
  gets from outside is chosen by a \<open>world\<close>: at each moment the clock (nanoseconds), which call of the database
  driver fails, and the answers of the client. \<open>fsTick\<close> counts the calls to the store and to the client, so
  that each of them sees its own moment. \<open>fsDeleted\<close> records the paths passed to the client's \<open>Delete\<close>.
  Inodes are go-fuse's; a node is the entry it was made from. Log lines are left out.
\<close>

section \<open>State\<close>

datatype errno = EOK | EIO | ENOENT | EROFS | ENOTDIR | EISDIR | EPERM

record readDiagnosticWindow =
  rdStartedAt :: int
  rdPath :: string
  rdFsid :: string
  rdStrategy :: string
  rdSlow :: int
  rdCanceled :: int
  rdRequested :: int
  rdReturned :: int
  rdMaxElapsed :: int
  rdMaxOffset :: int

record Filesystem =
  fsStore :: "Store option"
  fsRemote :: "Reader option"
  fsStream :: "sys option"
  fsNegative :: "NegativeCache option"
  fsTTL :: int
  primaryGID :: int
  gids :: "int set"
  rootPath :: string
  refreshMu :: "bool option"
  traceReads :: bool
  enableDelete :: bool
  readDiag :: "string \<rightharpoonup> readDiagnosticWindow"
  fsTick :: nat
  fsDeleted :: "string list"

record moment =
  atClock :: int
  atDB :: db_env
  atList :: "string \<Rightarrow> goerr + RemoteEntry list"
  atDelete :: "string list \<Rightarrow> goerr option"

type_synonym world = "nat \<Rightarrow> moment"

abbreviation second :: int where
  "second \<equiv> 1000000000"

definition unix :: "int \<Rightarrow> int" where
  "unix t = t div second"

definition primaryOf :: "int list \<Rightarrow> int" where
  "primaryOf gs = fold (\<lambda>gid primary. if primary = 0 then gid else primary) gs 0"

definition NewFilesystemWithStream ::
  "Store option \<Rightarrow> Reader option \<Rightarrow> sys option \<Rightarrow> int list \<Rightarrow> string \<Rightarrow> Filesystem" where
  "NewFilesystemWithStream st r manager gs root =
     \<lparr>fsStore = st, fsRemote = r, fsStream = manager, fsNegative = None, fsTTL = 60 * second,
      primaryGID = primaryOf gs, gids = set gs, rootPath = (if root = [] then ''/'' else root),
      refreshMu = Some False, traceReads = False, enableDelete = False, readDiag = Map.empty,
      fsTick = 0, fsDeleted = []\<rparr>"

definition NewFilesystem :: "Store option \<Rightarrow> Reader option \<Rightarrow> int list \<Rightarrow> string \<Rightarrow> Filesystem" where
  "NewFilesystem st r gs root = NewFilesystemWithStream st r None gs root"

definition SetTraceReads :: "bool \<Rightarrow> Filesystem \<Rightarrow> Filesystem" where
  "SetTraceReads enabled f = f\<lparr>traceReads := enabled\<rparr>"

definition SetDeleteEnabled :: "bool \<Rightarrow> Filesystem \<Rightarrow> Filesystem" where
  "SetDeleteEnabled enabled f = f\<lparr>enableDelete := enabled\<rparr>"

section \<open>Calls to the store and to the client\<close>

definition tick :: "Filesystem \<Rightarrow> Filesystem" where
  "tick f = f\<lparr>fsTick := Suc (fsTick f)\<rparr>"

definition clock :: "world \<Rightarrow> Filesystem \<Rightarrow> int" where
  "clock w f = atClock (w (fsTick f))"

definition storeList :: "world \<Rightarrow> string \<Rightarrow> Filesystem \<Rightarrow> (MetaStore.Entry list \<times> goerr option) \<times> Filesystem" where
  "storeList w p f = (ListChildren (atDB (w (fsTick f))) p (fsStore f), tick f)"

definition storeGet :: "world \<Rightarrow> string \<Rightarrow> Filesystem \<Rightarrow> (MetaStore.Entry option \<times> goerr option) \<times> Filesystem" where
  "storeGet w p f = (GetByPath (atDB (w (fsTick f))) p (fsStore f), tick f)"

definition storeReplace :: "world \<Rightarrow> string \<Rightarrow> MetaStore.Entry list \<Rightarrow> Filesystem \<Rightarrow> goerr option \<times> Filesystem" where
  "storeReplace w pid es f =
     (let (err, s) = ReplaceChildren (atDB (w (fsTick f))) pid es (fsStore f) in (err, tick (f\<lparr>fsStore := s\<rparr>)))"

definition storeUpsert :: "world \<Rightarrow> MetaStore.Entry \<Rightarrow> Filesystem \<Rightarrow> goerr option \<times> Filesystem" where
  "storeUpsert w e f =
     (let (err, s) = UpsertEntry (atDB (w (fsTick f))) e (fsStore f) in (err, tick (f\<lparr>fsStore := s\<rparr>)))"

definition storeDelete :: "world \<Rightarrow> string \<Rightarrow> Filesystem \<Rightarrow> goerr option \<times> Filesystem" where
  "storeDelete w p f =
     (let (err, s) = DeletePath (atDB (w (fsTick f))) p (fsStore f) in (err, tick (f\<lparr>fsStore := s\<rparr>)))"

text \<open>\<open>Reader.List\<close> and \<open>Reader.Delete\<close>: without a client they answer with nothing and no error.\<close>

definition remoteList :: "world \<Rightarrow> Reader \<Rightarrow> string \<Rightarrow> Filesystem \<Rightarrow> (goerr + RemoteEntry list) \<times> Filesystem" where
  "remoteList w r p f = (if rHasClient r then atList (w (fsTick f)) p else Inr [], tick f)"

definition remoteDelete :: "world \<Rightarrow> Reader \<Rightarrow> string list \<Rightarrow> Filesystem \<Rightarrow> goerr option \<times> Filesystem" where
  "remoteDelete w r ps f =
     (if rHasClient r then (atDelete (w (fsTick f)) ps, tick (f\<lparr>fsDeleted := fsDeleted f @ ps\<rparr>))
      else (None, tick f))"

section \<open>Paths, modes and attributes\<close>

definition JoinPath :: "string \<Rightarrow> string \<Rightarrow> string" where
  "JoinPath up name =
     (if up = [] \<or> up = ''/'' then path_Join [''/'', name] else path_Join [up, name])"

definition trimRootPrefix :: "string \<Rightarrow> string \<Rightarrow> string" where
  "trimRootPrefix root full =
     (if root = [] \<or> root = ''/'' then full
      else if full = root then []
      else if HasPrefix full (root @ ''/'') then TrimPrefix full root
      else full)"

abbreviation S_IFREG :: "32 word" where "S_IFREG \<equiv> 0x8000"

abbreviation S_IFDIR :: "32 word" where "S_IFDIR \<equiv> 0x4000"

definition dirMode :: "Filesystem \<Rightarrow> 32 word" where
  "dirMode f = (if gids f \<noteq> {} then 0x1E8 else 0x1ED)"

definition fileMode :: "Filesystem \<Rightarrow> 32 word" where
  "fileMode f = (if gids f \<noteq> {} then 0x1A0 else 0x1A4)"

definition inodeTime :: "int \<Rightarrow> int \<Rightarrow> int" where
  "inodeTime now mtm = (if 0 < mtm then mtm * second else now)"

definition typeMode :: "MetaStore.Entry \<Rightarrow> 32 word" where
  "typeMode e = (if eIsDir e then S_IFDIR else S_IFREG)"

record attr =
  atMode :: "32 word"
  atGid :: int
  atMtime :: "64 word"
  atSize :: "64 word"
  atBlocks :: "64 word"

unbundle bit_operations_syntax

text \<open>\<open>fillEntryOut\<close> and the \<open>Getattr\<close> of an entry; access and change time are the modification time.\<close>

definition fillEntryOut :: "int \<Rightarrow> Filesystem \<Rightarrow> MetaStore.Entry \<Rightarrow> attr" where
  "fillEntryOut now f e =
     (let t = word_of_int (unix (inodeTime now (eMTM e))) in
      if eIsDir e
      then \<lparr>atMode = typeMode e OR dirMode f, atGid = primaryGID f, atMtime = t, atSize = 0, atBlocks = 0\<rparr>
      else \<lparr>atMode = typeMode e OR fileMode f, atGid = primaryGID f, atMtime = t,
            atSize = word_of_int (eSize e), atBlocks = (word_of_int (eSize e) + 511) div 512\<rparr>)"

definition entryGetattr :: "int \<Rightarrow> Filesystem \<Rightarrow> MetaStore.Entry \<Rightarrow> attr" where
  "entryGetattr now f e =
     (let t = word_of_int (unix (inodeTime now (eMTM e))) in
      if eIsDir e
      then \<lparr>atMode = S_IFDIR OR dirMode f, atGid = primaryGID f, atMtime = t, atSize = 0, atBlocks = 0\<rparr>
      else \<lparr>atMode = S_IFREG OR fileMode f, atGid = primaryGID f, atMtime = t,
            atSize = word_of_int (eSize e), atBlocks = (word_of_int (eSize e) + 511) div 512\<rparr>)"

definition rootGetattr :: "int \<Rightarrow> Filesystem \<Rightarrow> attr" where
  "rootGetattr now f =
     \<lparr>atMode = S_IFDIR OR dirMode f, atGid = primaryGID f, atMtime = word_of_int (unix now), atSize = 0, atBlocks = 0\<rparr>"

definition dirEntries :: "MetaStore.Entry list \<Rightarrow> (string \<times> 32 word) list" where
  "dirEntries children = sort_key fst (map (\<lambda>e. (eName e, typeMode e)) children)"

section \<open>Refreshing\<close>

definition tryRefreshToken :: "Filesystem \<Rightarrow> bool \<times> Filesystem" where
  "tryRefreshToken f =
     (case refreshMu f of Some False \<Rightarrow> (True, f\<lparr>refreshMu := Some True\<rparr>) | _ \<Rightarrow> (False, f))"

definition releaseRefreshToken :: "Filesystem \<Rightarrow> Filesystem" where
  "releaseRefreshToken f = (case refreshMu f of None \<Rightarrow> f | Some b \<Rightarrow> f\<lparr>refreshMu := Some False\<rparr>)"

definition childExpiresAt :: "int \<Rightarrow> Filesystem \<Rightarrow> bool \<Rightarrow> int" where
  "childExpiresAt now f isDir = (if isDir then 0 else unix (now + fsTTL f))"

definition existingMTime :: "world \<Rightarrow> string \<Rightarrow> Filesystem \<Rightarrow> int \<times> Filesystem" where
  "existingMTime w p f =
     (case fsStore f of
        None \<Rightarrow> (0, f)
      | Some s \<Rightarrow>
          (case storeGet w p f of
             ((Some e, None), f1) \<Rightarrow> (eMTM e, f1)
           | (_, f1) \<Rightarrow> (0, f1)))"

definition markMissing :: "world \<Rightarrow> string \<Rightarrow> Filesystem \<Rightarrow> Filesystem" where
  "markMissing w p f =
     (let c = (case fsNegative f of None \<Rightarrow> NewNegativeCache (30 * second) | Some c \<Rightarrow> c)
      in f\<lparr>fsNegative := Some (MarkMissing (clock w f) p c)\<rparr>)"

definition remoteEntry :: "int \<Rightarrow> Filesystem \<Rightarrow> string \<Rightarrow> string \<Rightarrow> RemoteEntry \<Rightarrow> MetaStore.Entry" where
  "remoteEntry now f up p e =
     \<lparr>eID = 0, eFSID = reFSID e, eParent = up, ePath = p, eName = reServerName e, eSize = reSize e,
      eIsDir = reIsDir e, eMTM = reServerMTime e, eMD5 = reMD5 e, eLastSyncAt = unix now,
      eExpiresAt = childExpiresAt now f (reIsDir e), eNegative = False\<rparr>"

definition dirEntry :: "int \<Rightarrow> Filesystem \<Rightarrow> string \<Rightarrow> string \<Rightarrow> string \<Rightarrow> string \<Rightarrow> int \<Rightarrow> MetaStore.Entry" where
  "dirEntry now f fsid up p name mtm =
     \<lparr>eID = 0, eFSID = fsid, eParent = up, ePath = p, eName = name, eSize = 0, eIsDir = True, eMTM = mtm,
      eMD5 = [], eLastSyncAt = unix now, eExpiresAt = unix (now + fsTTL f), eNegative = False\<rparr>"

definition relPathOf :: "string \<Rightarrow> RemoteEntry \<Rightarrow> string" where
  "relPathOf root e =
     (let rel = trimRootPrefix root (rePath e);
          rel1 = (if rel = [] then reServerName e else rel)
      in if rel1 \<noteq> [] \<and> \<not> HasPrefix rel1 ''/'' then ''/'' @ rel1 else rel1)"

definition rootChild :: "int \<Rightarrow> Filesystem \<Rightarrow> RemoteEntry \<Rightarrow> MetaStore.Entry" where
  "rootChild now f e = remoteEntry now f ''0'' (path_Join [rootPath f, relPathOf (rootPath f) e]) e"

definition refreshRoot :: "world \<Rightarrow> Filesystem \<Rightarrow> goerr option \<times> Filesystem" where
  "refreshRoot w f =
     (case (fsStore f, fsRemote f) of
        (Some s, Some r) \<Rightarrow>
          (case remoteList w r (rootPath f) f of
             (Inl e, f1) \<Rightarrow> (Some e, f1)
           | (Inr es, f1) \<Rightarrow>
               (case storeReplace w ''0'' (map (rootChild (clock w f1) f1) es) f1 of
                  (Some e, f2) \<Rightarrow> (Some e, f2)
                | (None, f2) \<Rightarrow>
                    let (mtm, f3) = existingMTime w (rootPath f2) f2
                    in storeUpsert w (dirEntry (clock w f3) f3 ''0'' [] (rootPath f3) [] mtm) f3))
      | _ \<Rightarrow> (None, f))"

definition knownParent :: "world \<Rightarrow> string \<Rightarrow> Filesystem \<Rightarrow> string \<times> Filesystem" where
  "knownParent w dirPath f =
     (case storeGet w dirPath f of
        ((Some e, None), f1) \<Rightarrow> (if eParent e \<noteq> [] then eParent e else ''0'', f1)
      | (_, f1) \<Rightarrow> (''0'', f1))"

definition refreshDir :: "world \<Rightarrow> string \<Rightarrow> string \<Rightarrow> Filesystem \<Rightarrow> goerr option \<times> Filesystem" where
  "refreshDir w dirPath fsid f =
     (case (fsStore f, fsRemote f) of
        (Some s, Some r) \<Rightarrow>
          (case remoteList w r dirPath f of
             (Inl e, f1) \<Rightarrow> (Some e, f1)
           | (Inr es, f1) \<Rightarrow>
               (case storeReplace w fsid (map (\<lambda>e. remoteEntry (clock w f1) f1 fsid (rePath e) e) es) f1 of
                  (Some e, f2) \<Rightarrow> (Some e, f2)
                | (None, f2) \<Rightarrow>
                    let (up, f3) = knownParent w dirPath f2;
                        (mtm, f4) = existingMTime w dirPath f3
                    in storeUpsert w (dirEntry (clock w f4) f4 fsid up dirPath (Base dirPath) mtm) f4))
      | _ \<Rightarrow> (None, f))"

text \<open>
  \<open>refreshKnownDirectories\<close> and its loop over the children. The recursion follows what the remote side lists,
  so it is bounded by fuel: \<open>None\<close> is a recursion deeper than the fuel.
\<close>

type_synonym refreshed = "((goerr option \<times> string set) \<times> Filesystem) option"

fun refreshKnownDirectories :: "world \<Rightarrow> nat \<Rightarrow> string \<Rightarrow> string set \<Rightarrow> Filesystem \<Rightarrow> refreshed"
  and refreshChildren :: "world \<Rightarrow> nat \<Rightarrow> MetaStore.Entry list \<Rightarrow> string set \<Rightarrow> Filesystem \<Rightarrow> refreshed" where
  "refreshKnownDirectories w 0 current visited f = None"
| "refreshKnownDirectories w (Suc n) current visited f =
     (if fsStore f = None \<or> current \<in> visited then Some ((None, visited), f)
      else case storeList w current f of
        ((children, Some e), f1) \<Rightarrow> Some ((Some e, insert current visited), f1)
      | ((children, None), f1) \<Rightarrow> refreshChildren w n children (insert current visited) f1)"
| "refreshChildren w n [] visited f = Some ((None, visited), f)"
| "refreshChildren w n (child # cs) visited f =
     (if \<not> eIsDir child then refreshChildren w n cs visited f
      else case (if fsRemote f \<noteq> None then refreshDir w (ePath child) (eFSID child) f else (None, f)) of
        (Some e, f1) \<Rightarrow> Some ((Some e, visited), f1)
      | (None, f1) \<Rightarrow>
          (case refreshKnownDirectories w n (ePath child) visited f1 of
             None \<Rightarrow> None
           | Some ((Some e, v1), f2) \<Rightarrow> Some ((Some e, v1), f2)
           | Some ((None, v1), f2) \<Rightarrow> refreshChildren w n cs v1 f2))"

definition RefreshRootOnly :: "world \<Rightarrow> Filesystem \<Rightarrow> goerr option \<times> Filesystem" where
  "RefreshRootOnly w f =
     (if fsStore f = None \<or> fsRemote f = None then (None, f)
      else let (got, f1) = tryRefreshToken f in
        if \<not> got then (None, f1)
        else let (e, f2) = refreshRoot w f1 in (e, releaseRefreshToken f2))"

definition RefreshAll :: "world \<Rightarrow> nat \<Rightarrow> Filesystem \<Rightarrow> (goerr option \<times> Filesystem) option" where
  "RefreshAll w fuel f =
     (if fsStore f = None \<or> fsRemote f = None then Some (None, f)
      else let (got, f1) = tryRefreshToken f in
        if \<not> got then Some (None, f1)
        else case refreshRoot w f1 of
          (Some e, f2) \<Rightarrow> Some (Some e, releaseRefreshToken f2)
        | (None, f2) \<Rightarrow>
            map_option (\<lambda>((e, visited), f3). (e, releaseRefreshToken f3))
              (refreshKnownDirectories w fuel (rootPath f2) {} f2))"

definition shouldRefresh :: "world \<Rightarrow> string \<Rightarrow> Filesystem \<Rightarrow> bool \<times> Filesystem" where
  "shouldRefresh w p f =
     (if fsRemote f = None then (False, f)
      else if fsTTL f \<le> 0 then (True, f)
      else case storeGet w (if p = [] then rootPath f else p) f of
        ((Some e, None), f1) \<Rightarrow> (eExpiresAt e = 0 \<or> eExpiresAt e * second - clock w f1 \<le> 0, f1)
      | (_, f1) \<Rightarrow> (True, f1))"

section \<open>Directories\<close>

text \<open>
  The children of a directory as \<open>Readdir\<close> and \<open>Lookup\<close> get them: listed from the store, and once more after a
  refresh if the listing is stale. \<open>isRoot\<close> tells the file system itself from an entry.
\<close>

definition nodeRefresh :: "world \<Rightarrow> bool \<Rightarrow> string \<Rightarrow> string \<Rightarrow> Filesystem \<Rightarrow> goerr option \<times> Filesystem" where
  "nodeRefresh w isRoot p fsid f = (if isRoot then refreshRoot w f else refreshDir w p fsid f)"

definition currentChildren ::
  "world \<Rightarrow> bool \<Rightarrow> string \<Rightarrow> string \<Rightarrow> bool \<Rightarrow> Filesystem \<Rightarrow> (errno + MetaStore.Entry list) \<times> Filesystem" where
  "currentChildren w isRoot p fsid isDir f =
     (case storeList w p f of
        ((children, Some e), f1) \<Rightarrow> (Inl EIO, f1)
      | ((children, None), f1) \<Rightarrow>
          let (stale, f2) = shouldRefresh w p f1 in
          if stale \<and> (isRoot \<or> fsRemote f2 \<noteq> None \<and> isDir)
          then (case nodeRefresh w isRoot p fsid f2 of
                  (Some e, f3) \<Rightarrow> (Inl EIO, f3)
                | (None, f3) \<Rightarrow>
                    (case storeList w p f3 of
                       ((cs, Some e), f4) \<Rightarrow> (Inl EIO, f4)
                     | ((cs, None), f4) \<Rightarrow> (Inr cs, f4)))
          else (Inr children, f2))"

definition readdirNode ::
  "world \<Rightarrow> bool \<Rightarrow> string \<Rightarrow> string \<Rightarrow> bool \<Rightarrow> Filesystem \<Rightarrow> (errno + (string \<times> 32 word) list) \<times> Filesystem" where
  "readdirNode w isRoot p fsid isDir f =
     (if fsStore f = None then (Inr [], f)
      else case currentChildren w isRoot p fsid isDir f of
        (Inl e, f1) \<Rightarrow> (Inl e, f1)
      | (Inr cs, f1) \<Rightarrow> (Inr (dirEntries cs), f1))"

definition Readdir :: "world \<Rightarrow> Filesystem \<Rightarrow> (errno + (string \<times> 32 word) list) \<times> Filesystem" where
  "Readdir w f = readdirNode w True (rootPath f) ''0'' True f"

definition entryReaddir :: "world \<Rightarrow> MetaStore.Entry \<Rightarrow> Filesystem \<Rightarrow> (errno + (string \<times> 32 word) list) \<times> Filesystem" where
  "entryReaddir w e f = readdirNode w False (ePath e) (eFSID e) (eIsDir e) f"

definition isMissingNow :: "world \<Rightarrow> string \<Rightarrow> Filesystem \<Rightarrow> bool \<times> Filesystem" where
  "isMissingNow w p f =
     (case fsNegative f of
        None \<Rightarrow> (False, f)
      | Some c \<Rightarrow> let (b, c') = IsMissing (clock w f) p c in (b, f\<lparr>fsNegative := Some c'\<rparr>))"

definition lookupNode ::
  "world \<Rightarrow> bool \<Rightarrow> string \<Rightarrow> string \<Rightarrow> bool \<Rightarrow> string \<Rightarrow> Filesystem \<Rightarrow> (errno + MetaStore.Entry \<times> attr) \<times> Filesystem" where
  "lookupNode w isRoot p fsid isDir name f =
     (if fsStore f = None then (Inl ENOENT, f)
      else let (missing, f1) = isMissingNow w (JoinPath p name) f in
        if missing then (Inl ENOENT, f1)
        else case currentChildren w isRoot p fsid isDir f1 of
          (Inl e, f2) \<Rightarrow> (Inl e, f2)
        | (Inr cs, f2) \<Rightarrow>
            (case List.find (\<lambda>c. eName c = name) cs of
               Some c \<Rightarrow> (Inr (c, fillEntryOut (clock w f2) f2 c), f2)
             | None \<Rightarrow> (Inl ENOENT, markMissing w (JoinPath p name) f2)))"

definition Lookup :: "world \<Rightarrow> string \<Rightarrow> Filesystem \<Rightarrow> (errno + MetaStore.Entry \<times> attr) \<times> Filesystem" where
  "Lookup w name f = lookupNode w True (rootPath f) ''0'' True name f"

definition entryLookup :: "world \<Rightarrow> MetaStore.Entry \<Rightarrow> string \<Rightarrow> Filesystem \<Rightarrow> (errno + MetaStore.Entry \<times> attr) \<times> Filesystem" where
  "entryLookup w e name f = lookupNode w False (ePath e) (eFSID e) (eIsDir e) name f"

text \<open>The children that \<open>populate\<close> adds to the root inode; an error of the listing is ignored.\<close>

definition populate :: "world \<Rightarrow> Filesystem \<Rightarrow> MetaStore.Entry list \<times> Filesystem" where
  "populate w f =
     (if fsStore f = None then ([], f) else let ((children, err), f1) = storeList w (rootPath f) f in (children, f1))"

definition OnAdd :: "world \<Rightarrow> nat \<Rightarrow> Filesystem \<Rightarrow> (MetaStore.Entry list \<times> Filesystem) option" where
  "OnAdd w fuel f = (let (es, f1) = populate w f in map_option (\<lambda>(err, f2). (es, f2)) (RefreshAll w fuel f1))"

section \<open>Deleting\<close>

definition deleteChild :: "world \<Rightarrow> string \<Rightarrow> string \<Rightarrow> bool \<Rightarrow> Filesystem \<Rightarrow> errno \<times> Filesystem" where
  "deleteChild w parentPath name wantDir f =
     (case (fsStore f, fsRemote f) of
        (Some s, Some r) \<Rightarrow>
          if \<not> enableDelete f then (EROFS, f)
          else (case storeList w parentPath f of
            ((children, Some e), f1) \<Rightarrow> (EIO, f1)
          | ((children, None), f1) \<Rightarrow>
              (case List.find (\<lambda>c. eName c = name) children of
                 None \<Rightarrow> (ENOENT, f1)
               | Some t \<Rightarrow>
                   if wantDir \<and> \<not> eIsDir t then (ENOTDIR, f1)
                   else if \<not> wantDir \<and> eIsDir t then (EISDIR, f1)
                   else if ePath t = [] \<or> ePath t = rootPath f1 \<or> ePath t = ''/'' then (EPERM, f1)
                   else (case remoteDelete w r [ePath t] f1 of
                      (Some e, f2) \<Rightarrow> (EIO, f2)
                    | (None, f2) \<Rightarrow>
                        (case storeDelete w (ePath t) f2 of
                           (Some e, f3) \<Rightarrow> (EIO, f3)
                         | (None, f3) \<Rightarrow> (EOK, markMissing w (ePath t) f3)))))
      | _ \<Rightarrow> (EIO, f))"

definition Unlink :: "world \<Rightarrow> string \<Rightarrow> Filesystem \<Rightarrow> errno \<times> Filesystem" where
  "Unlink w name f = deleteChild w (rootPath f) name False f"

definition Rmdir :: "world \<Rightarrow> string \<Rightarrow> Filesystem \<Rightarrow> errno \<times> Filesystem" where
  "Rmdir w name f = deleteChild w (rootPath f) name True f"

definition entryUnlink :: "world \<Rightarrow> MetaStore.Entry \<Rightarrow> string \<Rightarrow> Filesystem \<Rightarrow> errno \<times> Filesystem" where
  "entryUnlink w e name f = deleteChild w (ePath e) name False f"

definition entryRmdir :: "world \<Rightarrow> MetaStore.Entry \<Rightarrow> string \<Rightarrow> Filesystem \<Rightarrow> errno \<times> Filesystem" where
  "entryRmdir w e name f = deleteChild w (ePath e) name True f"

section \<open>Opening and reading files\<close>

record entryFileHandle =
  lastStrategy :: string
  streamHandle :: "Handle option"

definition streamFile :: "MetaStore.Entry \<Rightarrow> File" where
  "streamFile e = \<lparr>flFSID = eFSID e, flSize = eSize e, flMTM = eMTM e\<rparr>"

abbreviation FOPEN_KEEP_CACHE :: "32 word" where "FOPEN_KEEP_CACHE \<equiv> 2"

definition entryOpen :: "int \<Rightarrow> MetaStore.Entry \<Rightarrow> Filesystem \<Rightarrow> (errno + entryFileHandle \<times> 32 word) \<times> Filesystem" where
  "entryOpen now e f =
     (if eIsDir e then (Inl EISDIR, f)
      else case fsStream f of
        None \<Rightarrow> (Inr (\<lparr>lastStrategy = [], streamHandle = None\<rparr>, FOPEN_KEEP_CACHE), f)
      | Some s \<Rightarrow>
          (case OpenHandle now (streamFile e) (sMgr s) of
             (None, m) \<Rightarrow> (Inl EIO, f\<lparr>fsStream := Some (s\<lparr>sMgr := m\<rparr>)\<rparr>)
           | (Some h, m) \<Rightarrow>
               (Inr (\<lparr>lastStrategy = [], streamHandle = Some h\<rparr>, FOPEN_KEEP_CACHE),
                f\<lparr>fsStream := Some (s\<lparr>sMgr := m\<rparr>)\<rparr>)))"

definition releaseFile :: "int \<Rightarrow> entryFileHandle \<Rightarrow> Filesystem \<Rightarrow> entryFileHandle \<times> Filesystem" where
  "releaseFile now h f =
     (h\<lparr>streamHandle := None\<rparr>,
      case (streamHandle h, fsStream f) of
        (Some sh, Some s) \<Rightarrow> f\<lparr>fsStream := Some (s\<lparr>sMgr := snd (Release now sh (sMgr s))\<rparr>)\<rparr>
      | _ \<Rightarrow> f)"

definition setStrategy :: "string \<Rightarrow> entryFileHandle \<Rightarrow> entryFileHandle" where
  "setStrategy strategy h = h\<lparr>lastStrategy := strategy\<rparr>"

definition shouldTraceRead :: "int \<Rightarrow> string \<Rightarrow> int \<Rightarrow> int \<Rightarrow> bool" where
  "shouldTraceRead off strategy requested returned = (returned \<noteq> requested \<or> strategy = ''stream-event'')"

definition noteRead ::
  "int \<Rightarrow> int \<Rightarrow> int \<Rightarrow> int \<Rightarrow> bool \<Rightarrow> readDiagnosticWindow \<Rightarrow> readDiagnosticWindow" where
  "noteRead offset requested returned elapsed slow win =
     (if slow
      then let w1 = win\<lparr>rdSlow := rdSlow win + 1, rdRequested := rdRequested win + requested,
                        rdReturned := rdReturned win + returned\<rparr>
           in if rdMaxElapsed win < elapsed then w1\<lparr>rdMaxElapsed := elapsed, rdMaxOffset := offset\<rparr> else w1
      else win\<lparr>rdCanceled := rdCanceled win + 1, rdRequested := rdRequested win + requested, rdMaxOffset := offset\<rparr>)"

definition emptyWindow :: "int \<Rightarrow> string \<Rightarrow> string \<Rightarrow> readDiagnosticWindow" where
  "emptyWindow now path fsid =
     \<lparr>rdStartedAt = now, rdPath = path, rdFsid = fsid, rdStrategy = [], rdSlow = 0, rdCanceled = 0,
      rdRequested = 0, rdReturned = 0, rdMaxElapsed = 0, rdMaxOffset = 0\<rparr>"

text \<open>The window that was flushed, if one was, and the new state.\<close>

definition recordReadDiagnostic ::
  "int \<Rightarrow> string \<Rightarrow> string \<Rightarrow> int \<Rightarrow> int \<Rightarrow> int \<Rightarrow> int \<Rightarrow> string \<Rightarrow> bool \<Rightarrow> Filesystem
   \<Rightarrow> readDiagnosticWindow option \<times> Filesystem" where
  "recordReadDiagnostic now path fsid offset requested returned elapsed strategy slow f =
     (if fsid = [] then (None, f)
      else let w0 = (case readDiag f fsid of None \<Rightarrow> emptyWindow now path fsid | Some win \<Rightarrow> win);
               flush = (5 * second \<le> now - rdStartedAt w0);
               w1 = (if flush then emptyWindow now path fsid else w0);
               w2 = (if path \<noteq> [] then w1\<lparr>rdPath := path\<rparr> else w1);
               w3 = (if strategy \<noteq> [] then w2\<lparr>rdStrategy := strategy\<rparr> else w2)
           in (if flush then Some w0 else None,
               f\<lparr>readDiag := (readDiag f)(fsid \<mapsto> noteRead offset requested returned elapsed slow w3)\<rparr>))"

definition recordSlowRead ::
  "int \<Rightarrow> string \<Rightarrow> string \<Rightarrow> int \<Rightarrow> int \<Rightarrow> int \<Rightarrow> int \<Rightarrow> string \<Rightarrow> Filesystem \<Rightarrow> Filesystem" where
  "recordSlowRead now path fsid offset requested returned elapsed strategy f =
     (if \<not> traceReads f then f
      else snd (recordReadDiagnostic now path fsid offset requested returned elapsed strategy True f))"

definition recordCanceledRead :: "int \<Rightarrow> string \<Rightarrow> string \<Rightarrow> int \<Rightarrow> int \<Rightarrow> Filesystem \<Rightarrow> Filesystem" where
  "recordCanceledRead now path fsid offset requested f =
     (if \<not> traceReads f then f
      else snd (recordReadDiagnostic now path fsid offset requested 0 0 [] False f))"

text \<open>What follows a read through a handle: the diagnostics, and an error as \<open>EIO\<close>.\<close>

definition readOutcome ::
  "int \<Rightarrow> int \<Rightarrow> MetaStore.Entry \<Rightarrow> int \<Rightarrow> int \<Rightarrow> string \<Rightarrow> goerr option + bytes \<Rightarrow> Filesystem \<Rightarrow> (errno + bytes) \<times> Filesystem" where
  "readOutcome now elapsed e off requested strategy res f =
     (let got = (case res of Inl _ \<Rightarrow> 0 | Inr d \<Rightarrow> len d);
          f1 = (if 300000000 \<le> elapsed
                then recordSlowRead now (ePath e) (eFSID e) off requested got elapsed strategy f else f)
      in case res of
           Inr d \<Rightarrow> (Inr d, f1)
         | Inl err \<Rightarrow>
             (Inl EIO, if (\<exists>x. err = Some x \<and> errors_Is x ErrCanceled)
                       then recordCanceledRead now (ePath e) (eFSID e) off requested f1 else f1))"

text \<open>
  \<open>Read\<close> of an entry, with the handle it was opened with if there is one. A result \<open>Inl None\<close> of the remote
  reader stands for one of its goroutines' errors.
\<close>

inductive entryRead ::
  "content \<Rightarrow> (cacheKey list \<Rightarrow> cacheKey list) \<Rightarrow> MetaStore.Entry \<Rightarrow> entryFileHandle option \<Rightarrow> int \<Rightarrow> int \<Rightarrow> Filesystem
   \<Rightarrow> errno + bytes \<Rightarrow> entryFileHandle option \<Rightarrow> Filesystem \<Rightarrow> bool"
  for c rng e where
  er_none: "fsRemote f = None \<Longrightarrow> entryRead c rng e h off n f (Inr []) h f"
| er_end: "fsRemote f \<noteq> None \<Longrightarrow> 0 < eSize e \<Longrightarrow> eSize e \<le> off \<Longrightarrow> entryRead c rng e h off n f (Inr []) h f"
| er_stream: "fsRemote f \<noteq> None \<Longrightarrow> \<not> (0 < eSize e \<and> eSize e \<le> off) \<Longrightarrow>
    streamHandle h = Some sh \<Longrightarrow> fsStream f = Some s \<Longrightarrow> read_at c sh off n s res sh' s' \<Longrightarrow>
    readOutcome now elapsed e off n ''stream-manager'' (map_sum Some id res) (f\<lparr>fsStream := Some s'\<rparr>) = (out, f') \<Longrightarrow>
    entryRead c rng e (Some h) off n f out (Some (setStrategy ''stream-manager'' (h\<lparr>streamHandle := Some sh'\<rparr>))) f'"
| er_remote: "fsRemote f = Some r \<Longrightarrow> \<not> (0 < eSize e \<and> eSize e \<le> off) \<Longrightarrow>
    streamHandle h = None \<Longrightarrow> RemoteRead.ReadRange c rng (eFSID e) off n r res r' \<Longrightarrow>
    readOutcome now elapsed e off n ''remote-range'' res (f\<lparr>fsRemote := Some r'\<rparr>) = (out, f') \<Longrightarrow>
    entryRead c rng e (Some h) off n f out (Some (setStrategy ''remote-range'' h)) f'"
| er_cached: "fsRemote f = Some r \<Longrightarrow> \<not> (0 < eSize e \<and> eSize e \<le> off) \<Longrightarrow> 0 < eSize e \<Longrightarrow> 0 < n \<Longrightarrow>
    ReadCachedWindow rng (eFSID e) off n r = (Some d, r') \<Longrightarrow>
    entryRead c rng e None off n f (Inr d) None (f\<lparr>fsRemote := Some r'\<rparr>)"
| er_node: "fsRemote f = Some r \<Longrightarrow> \<not> (0 < eSize e \<and> eSize e \<le> off) \<Longrightarrow>
    (if 0 < eSize e \<and> 0 < n then ReadCachedWindow rng (eFSID e) off n r = (None, r1) else r1 = r) \<Longrightarrow>
    RemoteRead.ReadRange c rng (eFSID e) off n r1 res r' \<Longrightarrow>
    entryRead c rng e None off n f (map_sum (\<lambda>_. EIO) id res) None (f\<lparr>fsRemote := Some r'\<rparr>)"

end
