(* ===== verification/MetaLaws.thy ===== *)
theory MetaLaws
  imports MetaStore "HOL-Library.Multiset"
begin

text \<open>
  What the metadata store promises. The locale \<open>keyed_store\<close> is the contract of a collection of values with
  one value per key, which the SQL statements meet by the unique index on \<open>path\<close>; from its laws follow the
  effect of the transactions. \<open>fileAt\<close> abstracts a store to a map from paths to entries, without the row ids.
\<close>

section \<open>A collection with one value per key\<close>

locale keyed_store =
  fixes ok :: "'t \<Rightarrow> bool"
    and get :: "'t \<Rightarrow> 'k \<Rightarrow> 'v option"
    and put :: "'v \<Rightarrow> 't \<Rightarrow> 't"
    and drop_if :: "('v \<Rightarrow> bool) \<Rightarrow> 't \<Rightarrow> 't"
    and key :: "'v \<Rightarrow> 'k"
    and norm :: "'v \<Rightarrow> 'v"
  assumes put_ok: "ok t \<Longrightarrow> ok (put v t)"
    and drop_ok: "ok t \<Longrightarrow> ok (drop_if P t)"
    and get_put: "ok t \<Longrightarrow> get (put v t) = (get t)(key v \<mapsto> norm v)"
    and get_drop: "ok t \<Longrightarrow> get (drop_if P t) k = Option.bind (get t k) (\<lambda>v. if P v then None else Some v)"
begin

lemma puts_ok: "ok t \<Longrightarrow> ok (fold put vs t)"
  by (induction vs arbitrary: t) (auto intro: put_ok)

lemma get_puts: "ok t \<Longrightarrow> get (fold put vs t) = get t ++ map_of (rev (map (\<lambda>v. (key v, norm v)) vs))"
  by (induction vs arbitrary: t) (simp_all add: put_ok get_put)

lemma get_puts_other: "ok t \<Longrightarrow> k \<notin> key ` set vs \<Longrightarrow> get (fold put vs t) k = get t k"
  by (simp add: get_puts map_add_dom_app_simps dom_map_of_conv_image_fst image_image)

lemma get_puts_member:
  assumes "ok t" "distinct (map key vs)" "v \<in> set vs"
  shows "get (fold put vs t) (key v) = Some (norm v)"
proof -
  have "map_of (rev (map (\<lambda>v. (key v, norm v)) vs)) (key v) = Some (norm v)"
    using assms(2,3) by (auto intro!: map_of_is_SomeI simp: rev_map[symmetric] comp_def)
  then show ?thesis using assms(1) by (simp add: get_puts)
qed

text \<open>Dropping the values that satisfy a predicate and putting others: only the others satisfy it.\<close>

lemma replace_exact:
  assumes "ok t" "distinct (map key vs)" "\<And>v. v \<in> set vs \<Longrightarrow> P (norm v)"
  shows "{v \<in> ran (get (fold put vs (drop_if P t))). P v} = norm ` set vs"
proof (intro equalityI subsetI)
  fix v assume "v \<in> {v \<in> ran (get (fold put vs (drop_if P t))). P v}"
  then obtain k where k: "get (fold put vs (drop_if P t)) k = Some v" and P: "P v" by (auto simp: ran_def)
  show "v \<in> norm ` set vs"
  proof (cases "k \<in> key ` set vs")
    case True
    then obtain w where w: "w \<in> set vs" and kw: "k = key w" by auto
    from get_puts_member [OF drop_ok [OF assms(1)] assms(2) w, of P] k have "norm w = v"
      unfolding kw by (simp only: option.inject)
    then show ?thesis using w by blast
  next
    case False
    then have "get (drop_if P t) k = Some v" using k get_puts_other [OF drop_ok [OF assms(1)]] by metis
    then show ?thesis using P assms(1) by (auto simp: get_drop bind_eq_Some_conv split: if_splits)
  qed
next
  fix v assume "v \<in> norm ` set vs"
  then obtain w where w: "w \<in> set vs" and v: "v = norm w" by auto
  have "get (fold put vs (drop_if P t)) (key w) = Some v"
    unfolding v by (rule get_puts_member [OF drop_ok [OF assms(1)] assms(2) w])
  then show "v \<in> {v \<in> ran (get (fold put vs (drop_if P t))). P v}"
    using assms(3) w v by (auto simp: ran_def)
qed

end

section \<open>The table as such a collection\<close>

definition erase :: "Entry \<Rightarrow> Entry" where
  "erase e = e\<lparr>eID := 0\<rparr>"

lemma erase_simps [simp]:
  "ePath (erase e) = ePath e" "eParent (erase e) = eParent e" "eName (erase e) = eName e"
  "eIsDir (erase e) = eIsDir e" "eFSID (erase e) = eFSID e" "eExpiresAt (erase e) = eExpiresAt e"
  "eMTM (erase e) = eMTM e" "erase (erase e) = erase e" "eID (erase e) = 0"
  by (simp_all add: erase_def)

lemma scan_exec [simp]: "scanEntry (execEntry i e) = e\<lparr>eID := i\<rparr>"
  by (simp add: scanEntry_def execEntry_def boolToInt_def)

lemma erase_id [simp]: "erase (e\<lparr>eID := i\<rparr>) = erase e"
  by (simp add: erase_def)

lemma scanEntry_sel [simp]:
  "ePath (scanEntry r) = cPath r" "eParent (scanEntry r) = cParent r" "eName (scanEntry r) = cName r"
  "eFSID (scanEntry r) = cFsid r" "eID (scanEntry r) = cId r"
  by (simp_all add: scanEntry_def)

lemma execEntry_sel [simp]:
  "cPath (execEntry i e) = ePath e" "cParent (execEntry i e) = eParent e" "cName (execEntry i e) = eName e"
  "cId (execEntry i e) = i"
  by (simp_all add: execEntry_def)

definition row_ok :: "table \<Rightarrow> row \<Rightarrow> bool" where
  "row_ok t r \<longleftrightarrow> cId r < tNextId t \<and> cIsDir r \<in> {0, 1} \<and> cNegative r \<in> {0, 1}"

definition table_ok :: "table \<Rightarrow> bool" where
  "table_ok t \<longleftrightarrow> distinct (map cPath (tRows t)) \<and> sorted_wrt (<) (map cId (tRows t)) \<and> (\<forall>r \<in> set (tRows t). row_ok t r)"

definition entryAt :: "table \<Rightarrow> string \<Rightarrow> Entry option" where
  "entryAt t p = map_option (\<lambda>r. erase (scanEntry r)) (selectByPath p t)"

lemma exec_row_ok [simp]: "row_ok t (execEntry i e) \<longleftrightarrow> i < tNextId t"
  by (simp add: row_ok_def execEntry_def boolToInt_def)

lemma table_ok_empty [simp]: "table_ok \<lparr>tRows = [], tNextId = i\<rparr>"
  by (simp add: table_ok_def)

lemma upsert_ok:
  assumes "table_ok t"
  shows "table_ok (upsertEntrySQL e t)"
proof (cases "hasPath (ePath e) t")
  case True
  define f where "f = (\<lambda>r. if cPath r = ePath e then execEntry (cId r) e else r)"
  have f: "cPath \<circ> f = cPath" "cId \<circ> f = cId" by (auto simp: f_def fun_eq_iff)
  have "row_ok u (f r)" if "row_ok t r" "tNextId u = tNextId t" for r u
    using that by (auto simp: f_def row_ok_def execEntry_def boolToInt_def)
  then show ?thesis using True assms unfolding table_ok_def upsertEntrySQL_def f_def[symmetric] by (auto simp: f)
next
  case False
  then show ?thesis using assms
    by (auto simp: table_ok_def upsertEntrySQL_def hasPath_def sorted_wrt_append row_ok_def execEntry_def boolToInt_def)
qed

lemma sorted_wrt_map_filter: "sorted_wrt P (map f xs) \<Longrightarrow> sorted_wrt P (map f (filter Q xs))"
  by (induction xs) auto

lemma deleteWhere_ok: "table_ok t \<Longrightarrow> table_ok (deleteWhere P t)"
  by (auto simp: table_ok_def deleteWhere_def sorted_wrt_map_filter distinct_map_filter row_ok_def)

lemma find_map_path: "(\<And>r. cPath (f r) = cPath r) \<Longrightarrow> List.find (\<lambda>r. cPath r = p) (map f rs) = map_option f (List.find (\<lambda>r. cPath r = p) rs)"
  by (induction rs) auto

lemma find_append: "List.find P (xs @ ys) = (case List.find P xs of None \<Rightarrow> List.find P ys | Some x \<Rightarrow> Some x)"
  by (induction xs) auto

lemma find_is_Some: "List.find P xs = Some x \<Longrightarrow> x \<in> set xs \<and> P x"
  by (induction xs) (auto split: if_splits)

lemma hasPath_find: "hasPath p t \<longleftrightarrow> List.find (\<lambda>r. cPath r = p) (tRows t) \<noteq> None"
  by (auto simp: hasPath_def find_None_iff)

lemma entryAt_upsert: "entryAt (upsertEntrySQL e t) = (entryAt t)(ePath e \<mapsto> erase e)"
proof
  fix p
  let ?f = "\<lambda>r. if cPath r = ePath e then execEntry (cId r) e else r"
  have f: "List.find (\<lambda>r. cPath r = p) (map ?f (tRows t)) = map_option ?f (List.find (\<lambda>r. cPath r = p) (tRows t))"
    by (rule find_map_path) simp
  show "entryAt (upsertEntrySQL e t) p = ((entryAt t)(ePath e \<mapsto> erase e)) p"
  proof (cases "hasPath (ePath e) t")
    case True
    then have "entryAt (upsertEntrySQL e t) p = map_option (\<lambda>r. erase (scanEntry (?f r))) (selectByPath p t)"
      using f by (simp add: entryAt_def selectByPath_def upsertEntrySQL_def option.map_comp comp_def)
    then show ?thesis using True
      by (cases "selectByPath p t") (auto simp: entryAt_def selectByPath_def hasPath_find dest: find_is_Some)
  next
    case False
    then show ?thesis
      by (auto simp: entryAt_def selectByPath_def upsertEntrySQL_def hasPath_find find_append split: option.splits dest: find_is_Some)
  qed
qed

lemma find_filter_distinct:
  "distinct (map cPath rs) \<Longrightarrow> List.find (\<lambda>r. cPath r = p) (filter Q rs) =
   Option.bind (List.find (\<lambda>r. cPath r = p) rs) (\<lambda>r. if Q r then Some r else None)"
proof (induction rs)
  case (Cons a rs)
  have "List.find (\<lambda>r. cPath r = cPath a) rs = None" using Cons.prems by (auto simp: find_None_iff rev_image_eqI)
  then show ?case using Cons by auto
qed simp

text \<open>The rows a statement deletes, as a predicate on entries.\<close>

definition dropEntries :: "(Entry \<Rightarrow> bool) \<Rightarrow> table \<Rightarrow> table" where
  "dropEntries P t = deleteWhere (\<lambda>r. P (erase (scanEntry r))) t"

lemma entryAt_drop:
  "table_ok t \<Longrightarrow> entryAt (dropEntries P t) p = Option.bind (entryAt t p) (\<lambda>e. if P e then None else Some e)"
  by (auto simp: entryAt_def selectByPath_def dropEntries_def deleteWhere_def table_ok_def find_filter_distinct
      split: option.splits Option.bind_splits)

interpretation metadata: keyed_store table_ok entryAt upsertEntrySQL dropEntries ePath erase
  by unfold_locales
    (simp_all add: upsert_ok entryAt_upsert entryAt_drop, simp add: dropEntries_def deleteWhere_ok)

section \<open>Listings\<close>

lemma entryAt_member: "table_ok t \<Longrightarrow> r \<in> set (tRows t) \<Longrightarrow> entryAt t (cPath r) = Some (erase (scanEntry r))"
proof -
  assume ok: "table_ok t" and r: "r \<in> set (tRows t)"
  have "List.find (\<lambda>x. cPath x = cPath r) rs = Some r" if "distinct (map cPath rs)" "r \<in> set rs" for rs
    using that by (induction rs) (auto simp: rev_image_eqI)
  then show ?thesis using ok r by (simp add: entryAt_def selectByPath_def table_ok_def)
qed

lemma entryAt_path: "entryAt t p = Some e \<Longrightarrow> ePath e = p"
  by (auto simp: entryAt_def selectByPath_def dest: find_is_Some)

lemma ran_entryAt: "table_ok t \<Longrightarrow> ran (entryAt t) = (\<lambda>r. erase (scanEntry r)) ` set (tRows t)"
  by (auto simp: ran_def dest: entryAt_member) (auto simp: entryAt_def selectByPath_def dest: find_is_Some)

lemma listing_set:
  "table_ok t \<Longrightarrow> (\<lambda>r. erase (scanEntry r)) ` set (selectByParent pid t) = {e \<in> ran (entryAt t). eParent e = pid}"
  by (auto simp: selectByParent_def ran_entryAt)

lemma listing_distinct: "table_ok t \<Longrightarrow> distinct (map cPath (selectByParent pid t))"
proof -
  assume "table_ok t"
  then have "distinct (map cPath (filter (\<lambda>r. cParent r = pid) (tRows t)))"
    by (simp add: table_ok_def distinct_map_filter)
  then show ?thesis unfolding selectByParent_def
    by (metis mset_map mset_sort mset_eq_imp_distinct_iff)
qed

lemma listing_sorted: "sorted (map cName (selectByParent pid t))"
  by (simp add: selectByParent_def)

lemma mset_by_path:
  assumes "distinct (map ePath xs)" "distinct (map ePath ys)" "set xs = set ys"
  shows "mset xs = mset ys"
  using assms by (metis distinct_map set_eq_iff_mset_eq_distinct)

text \<open>The statements of \<open>ReplaceChildren\<close> and the listing of the parent give back the entries.\<close>

lemma replaced_listing:
  fixes t :: table and es :: "Entry list" and pid :: string
  defines "t' \<equiv> fold upsertEntrySQL es (deleteWhere (\<lambda>r. cParent r = pid) t)"
  assumes "table_ok t" "distinct (map ePath es)" "\<And>e. e \<in> set es \<Longrightarrow> eParent e = pid"
  shows "mset (map (\<lambda>r. erase (scanEntry r)) (selectByParent pid t')) = mset (map erase es)"
proof (rule mset_by_path)
  have t': "t' = fold upsertEntrySQL es (dropEntries (\<lambda>e. eParent e = pid) t)"
    by (simp add: t'_def dropEntries_def)
  have ok: "table_ok t'" unfolding t'_def using assms(2) by (intro metadata.puts_ok deleteWhere_ok)
  show "distinct (map ePath (map (\<lambda>r. erase (scanEntry r)) (selectByParent pid t')))"
    using listing_distinct [OF ok] by (simp add: comp_def)
  show "distinct (map ePath (map erase es))" using assms(3) by (simp add: comp_def)
  have "{e \<in> ran (entryAt t'). eParent e = pid} = erase ` set es"
    unfolding t' using assms(2-4) by (intro metadata.replace_exact) simp_all
  then show "set (map (\<lambda>r. erase (scanEntry r)) (selectByParent pid t')) = set (map erase es)"
    using listing_set [OF ok] by simp
qed

section \<open>Operations on the store\<close>

definition tableOf :: "Store option \<Rightarrow> table option" where
  "tableOf s = Option.bind s db"

definition fileAt :: "Store option \<Rightarrow> string \<Rightarrow> Entry option" where
  "fileAt s p = Option.bind (tableOf s) (\<lambda>t. entryAt t p)"

definition store_ok :: "Store option \<Rightarrow> bool" where
  "store_ok s \<longleftrightarrow> (case tableOf s of None \<Rightarrow> True | Some t \<Rightarrow> table_ok t)"

lemma openDB_table [simp]: "tableOf s = Some t \<Longrightarrow> openDB x s = Inr t"
  by (auto simp: openDB_def tableOf_def split: option.splits bind_splits)

lemma openDB_cases: "(\<exists>e. openDB x s = Inl e \<and> tableOf s = None) \<or> (\<exists>t. tableOf s = Some t)"
  by (auto simp: openDB_def tableOf_def split: option.splits)

lemma tableOf_setDB [simp]: "tableOf s = Some t \<Longrightarrow> tableOf (setDB t' s) = Some t'"
  by (cases s) (auto simp: tableOf_def setDB_def)

lemma fileAt_table: "tableOf s = Some t \<Longrightarrow> fileAt s = entryAt t"
  by (auto simp: fileAt_def)

lemma store_ok_table: "tableOf s = Some t \<Longrightarrow> store_ok s \<longleftrightarrow> table_ok t"
  by (simp add: store_ok_def)

text \<open>
  \<open>changes f s r\<close>: the operation with result \<open>r\<close> succeeded and applied \<open>f\<close> to the table, or failed and left
  the store alone.
\<close>

definition changes :: "(table \<Rightarrow> table) \<Rightarrow> Store option \<Rightarrow> goerr option \<times> Store option \<Rightarrow> bool" where
  "changes f s r \<longleftrightarrow>
     (case fst r of Some e \<Rightarrow> snd r = s | None \<Rightarrow> (\<exists>t. tableOf s = Some t \<and> snd r = setDB (f t) s))"

lemma changes_execOne: "changes f s (execOne env x f s)"
  using openDB_cases [of x s] by (auto simp: changes_def execOne_def split: option.splits)

lemma changes_inTransaction:
  assumes "tableOf s = Some t" "\<And>t'. body t = Inr t' \<Longrightarrow> t' = f t"
  shows "changes f s (inTransaction env body t s)"
  using assms by (auto simp: changes_def inTransaction_def split: option.splits sum.splits)

lemma execEntries_fold: "execEntries env i es t = Inr t' \<Longrightarrow> t' = fold upsertEntrySQL es t"
  by (induction env i es t rule: execEntries.induct) (auto split: option.splits)

lemma upsertBody_fold: "upsertBody env i es t = Inr t' \<Longrightarrow> t' = fold upsertEntrySQL es t"
  by (auto simp: upsertBody_def execEntries_fold split: option.splits)

lemma replaceBody_fold:
  "replaceBody env pid es t = Inr t' \<Longrightarrow> t' = fold upsertEntrySQL es (deleteWhere (\<lambda>r. cParent r = pid) t)"
  by (auto simp: replaceBody_def Let_def dest: upsertBody_fold split: option.splits if_splits)

lemma UpsertEntry_changes: "changes (upsertEntrySQL e) s (UpsertEntry env e s)"
  by (simp add: UpsertEntry_def changes_execOne)

lemma setDB_same: "tableOf s = Some t \<Longrightarrow> setDB t s = s"
  by (cases s) (auto simp: tableOf_def setDB_def)

lemma upsertEntries_changes: "changes (fold upsertEntrySQL es) s (upsertEntries env es s)"
proof (cases "tableOf s")
  case None
  then show ?thesis using openDB_cases [of "''db is required''" s]
    by (auto simp: upsertEntries_def changes_def)
next
  case (Some t)
  then have "changes (fold upsertEntrySQL es) s (inTransaction env (upsertBody env 0 es) t s)"
    by (intro changes_inTransaction) (auto dest: upsertBody_fold)
  then show ?thesis using Some
    by (simp add: upsertEntries_def) (simp add: changes_def setDB_same)
qed

lemma ReplaceChildren_changes:
  "changes (\<lambda>t. fold upsertEntrySQL es (deleteWhere (\<lambda>r. cParent r = pid) t)) s (ReplaceChildren env pid es s)"
proof (cases "tableOf s")
  case None
  then show ?thesis using openDB_cases [of "''db is required''" s]
    by (auto simp: ReplaceChildren_def changes_def)
next
  case (Some t)
  then show ?thesis unfolding ReplaceChildren_def
    by simp (rule changes_inTransaction [OF Some], erule replaceBody_fold)
qed

lemma DeletePath_changes:
  "changes (deleteWhere (\<lambda>r. cPath r = p \<or> like (childPattern p) (cPath r))) s (DeletePath env p s)"
  using openDB_cases [of "''store is nil''" s]
    changes_execOne [of "deleteWhere (\<lambda>r. cPath r = p \<or> like (childPattern p) (cPath r))" s env "''store is nil''"]
  by (auto simp: DeletePath_def) (auto simp: changes_def)

lemma changes_ok: "changes f s r \<Longrightarrow> (\<And>t. table_ok t \<Longrightarrow> table_ok (f t)) \<Longrightarrow> store_ok s \<Longrightarrow> store_ok (snd r)"
  by (auto simp: changes_def store_ok_def split: option.splits)

lemma changes_fail: "changes f s r \<Longrightarrow> fst r \<noteq> None \<Longrightarrow> snd r = s"
  by (auto simp: changes_def)

lemma changes_success:
  assumes "changes f s r" "fst r = None"
  obtains t where "tableOf s = Some t" "tableOf (snd r) = Some (f t)"
  using assms by (auto simp: changes_def)

lemma UpsertEntry_map:
  assumes "fst (UpsertEntry env e s) = None"
  shows "fileAt (snd (UpsertEntry env e s)) = (fileAt s)(ePath e \<mapsto> erase e)"
  using changes_success [OF UpsertEntry_changes assms] by (metis fileAt_table entryAt_upsert)

lemma ReplaceChildren_map:
  assumes "store_ok s" "fst (ReplaceChildren env pid es s) = None"
  shows "fileAt (snd (ReplaceChildren env pid es s)) =
    (\<lambda>p. Option.bind (fileAt s p) (\<lambda>e. if eParent e = pid then None else Some e))
      ++ map_of (rev (map (\<lambda>e. (ePath e, erase e)) es))"
proof -
  obtain t where t: "tableOf s = Some t"
    "tableOf (snd (ReplaceChildren env pid es s)) = Some (fold upsertEntrySQL es (deleteWhere (\<lambda>r. cParent r = pid) t))"
    using changes_success [OF ReplaceChildren_changes assms(2)] by blast
  have d: "deleteWhere (\<lambda>r. cParent r = pid) t = dropEntries (\<lambda>e. eParent e = pid) t" by (simp add: dropEntries_def)
  have ok: "table_ok t" using assms(1) t(1) by (simp add: store_ok_table)
  have "(\<lambda>p. Option.bind (entryAt t p) (\<lambda>e. if eParent e = pid then None else Some e)) =
      entryAt (dropEntries (\<lambda>e. eParent e = pid) t)"
    by (simp add: fun_eq_iff entryAt_drop ok)
  then show ?thesis unfolding fileAt_table [OF t(1)] fileAt_table [OF t(2)] d
    by (simp add: metadata.get_puts metadata.drop_ok ok)
qed

lemma scanRows_all: "snd (scanRows env i rs out) = None \<Longrightarrow> fst (scanRows env i rs out) = out @ map scanEntry rs"
  by (induction env i rs out rule: scanRows.induct) (auto split: option.splits if_splits)

lemma GetChildren_rows:
  "tableOf s = Some t \<Longrightarrow> snd (GetChildrenByParent env pid s) = None \<Longrightarrow>
   fst (GetChildrenByParent env pid s) = map scanEntry (selectByParent pid t)"
  by (auto simp: GetChildrenByParent_def queryChildren_def scanRows_all split: option.splits)

lemma ListChildren_rows:
  assumes "tableOf s = Some t" "snd (ListChildren env p s) = None"
  shows "fst (ListChildren env p s) =
    (if p = ''/'' then map scanEntry (selectByParent ''0'' t)
     else case selectByPath p t of None \<Rightarrow> [] | Some r \<Rightarrow> map scanEntry (selectByParent (cFsid r) t))"
  using assms
  by (auto simp: ListChildren_def GetByPath_def queryChildren_def scanRows_all split: option.splits prod.splits if_splits)

section \<open>Patterns\<close>

lemma like_percent: "like ps s \<Longrightarrow> like (CHR ''%'' # ps) s"
  by (cases s) auto

lemma like_any [simp]: "like ''%'' s"
  by (induction s rule: length_induct) (metis length_skipRune like.simps(1,2,3) list.exhaust list.size(4) add.right_neutral add_Suc_right)

lemma like_below: "like (p @ ''%'') (p @ s)"
proof (induction p)
  case (Cons c p)
  then show ?case by (auto simp: skipRune_def intro: like_percent)
qed simp

lemma like_literal:
  "CHR ''%'' \<notin> set p \<Longrightarrow> CHR ''_'' \<notin> set p \<Longrightarrow>
   like (p @ ''%'') s \<longleftrightarrow> map asciiFold (take (length p) s) = map asciiFold p"
proof (induction p arbitrary: s)
  case (Cons c p)
  then show ?case by (cases s) auto
qed simp

end
