(* ===== verification/FileSystemLaws.thy ===== *)
theory FileSystemLaws
  imports FileSystem MetaLaws
begin

text \<open>
  What the operations of the file system keep and show. \<open>kept\<close> is the frame of the operations that only work on
  the metadata: they change the store, the negative cache and the count of calls, and keep the store well formed.
\<close>

section \<open>What the calls keep\<close>

definition kept :: "Filesystem \<Rightarrow> Filesystem \<Rightarrow> bool" where
  "kept f g \<longleftrightarrow> fsRemote g = fsRemote f \<and> fsStream g = fsStream f \<and> rootPath g = rootPath f \<and> fsTTL g = fsTTL f \<and>
     enableDelete g = enableDelete f \<and> fsDeleted g = fsDeleted f \<and> refreshMu g = refreshMu f \<and>
     (fsStore g = None \<longleftrightarrow> fsStore f = None) \<and> (store_ok (fsStore f) \<longrightarrow> store_ok (fsStore g))"

lemma kept_refl [simp]: "kept f f"
  by (simp add: kept_def)

lemma kept_trans: "kept f g \<Longrightarrow> kept g h \<Longrightarrow> kept f h"
  by (simp add: kept_def)

lemma tick_sel [simp]:
  "fsStore (tick f) = fsStore f" "fsRemote (tick f) = fsRemote f" "fsStream (tick f) = fsStream f"
  "rootPath (tick f) = rootPath f" "fsTTL (tick f) = fsTTL f" "enableDelete (tick f) = enableDelete f"
  "fsDeleted (tick f) = fsDeleted f" "refreshMu (tick f) = refreshMu f" "fsNegative (tick f) = fsNegative f"
  "fsTick (tick f) = Suc (fsTick f)" "gids (tick f) = gids f" "primaryGID (tick f) = primaryGID f"
  by (simp_all add: tick_def)

lemma kept_tick [simp]: "kept f (tick f)"
  by (simp add: kept_def)

lemma changes_None: "changes f s r \<Longrightarrow> snd r = None \<longleftrightarrow> s = None"
  by (auto simp: changes_def setDB_def tableOf_def split: option.splits)

lemma fold_upsert_ok: "table_ok t \<Longrightarrow> table_ok (fold upsertEntrySQL es t)"
  by (rule metadata.puts_ok)

lemma kept_storeReplace: "kept f (snd (storeReplace w pid es f))"
proof -
  have c: "changes (\<lambda>t. fold upsertEntrySQL es (deleteWhere (\<lambda>r. cParent r = pid) t)) (fsStore f)
      (ReplaceChildren (atDB (w (fsTick f))) pid es (fsStore f))" by (rule ReplaceChildren_changes)
  show ?thesis using changes_None [OF c] changes_ok [OF c fold_upsert_ok [OF deleteWhere_ok]]
    by (auto simp: storeReplace_def kept_def split: prod.splits)
qed

lemma kept_storeUpsert: "kept f (snd (storeUpsert w e f))"
  using changes_None [OF UpsertEntry_changes [of e "fsStore f" "atDB (w (fsTick f))"]]
    changes_ok [OF UpsertEntry_changes [of e "fsStore f" "atDB (w (fsTick f))"] upsert_ok]
  by (auto simp: storeUpsert_def kept_def split: prod.splits)

lemma kept_storeDelete: "kept f (snd (storeDelete w p f))"
  using changes_None [OF DeletePath_changes [of p "fsStore f" "atDB (w (fsTick f))"]]
    changes_ok [OF DeletePath_changes [of p "fsStore f" "atDB (w (fsTick f))"] deleteWhere_ok]
  by (auto simp: storeDelete_def kept_def split: prod.splits)

lemma storeList_snd [simp]: "snd (storeList w p f) = tick f"
  by (simp add: storeList_def)

lemma storeGet_snd [simp]: "snd (storeGet w p f) = tick f"
  by (simp add: storeGet_def)

lemma remoteList_snd [simp]: "snd (remoteList w r p f) = tick f"
  by (simp add: remoteList_def)

lemma kept_existingMTime: "kept f (snd (existingMTime w p f))"
  by (auto simp: existingMTime_def storeGet_def split: option.splits prod.splits)

lemma existingMTime_store [simp]: "fsStore (snd (existingMTime w p f)) = fsStore f"
  by (auto simp: existingMTime_def storeGet_def split: option.splits prod.splits)

lemma knownParent_snd [simp]: "snd (knownParent w p f) = tick f"
  by (auto simp: knownParent_def storeGet_def split: option.splits prod.splits)

lemma existingMTime_snd: "snd (existingMTime w p f) = (if fsStore f = None then f else tick f)"
  by (auto simp: existingMTime_def storeGet_def split: option.splits prod.splits)

text \<open>
  A property of the state that every call of a refresh keeps is kept by the refresh: reading calls only tick, and
  it writes the listed entries and the entry of the directory.
\<close>

definition answers :: "world \<Rightarrow> RemoteEntry list \<Rightarrow> bool" where
  "answers w es \<longleftrightarrow> es = [] \<or> (\<exists>k p. atList (w k) p = Inr es)"

lemma remoteList_answers: "fst (remoteList w r p f) = Inr es \<Longrightarrow> answers w es"
  by (auto simp: remoteList_def answers_def split: if_splits)

lemma refreshDir_keeps:
  assumes "P f" and tick: "\<And>g. P g \<Longrightarrow> P (tick g)"
    and replace: "\<And>g h es now. P g \<Longrightarrow> answers w es \<Longrightarrow>
      P (snd (storeReplace w fsid (map (\<lambda>e. remoteEntry now h fsid (rePath e) e) es) g))"
    and upsert: "\<And>g e. P g \<Longrightarrow> ePath e = p \<Longrightarrow> P (snd (storeUpsert w e g))"
  shows "P (snd (refreshDir w p fsid f))"
proof (cases "fsStore f = None \<or> fsRemote f = None")
  case False
  then obtain s r where sr: "fsStore f = Some s" "fsRemote f = Some r" by auto
  define a where "a = remoteList w r p f"
  have a: "snd a = tick f" by (simp add: a_def)
  show ?thesis
  proof (cases "fst a")
    case (Inl e)
    then have "a = (Inl e, tick f)" using a by (metis prod.collapse)
    then show ?thesis using sr tick [OF assms(1)] by (simp add: refreshDir_def a_def[symmetric])
  next
    case (Inr es)
    then have a': "a = (Inr es, tick f)" using a by (metis prod.collapse)
    define b where "b = storeReplace w fsid (map (\<lambda>e. remoteEntry (clock w (tick f)) (tick f) fsid (rePath e) e) es) (tick f)"
    have b: "P (snd b)" unfolding b_def
      using Inr a_def remoteList_answers tick [OF assms(1)] by (intro replace) simp_all
    define g where "g = snd (existingMTime w p (tick (snd b)))"
    have g: "P g" unfolding g_def using b by (simp add: existingMTime_snd tick)
    show ?thesis
      using sr b upsert [OF g] by (cases b; cases "fst b")
        (simp_all add: refreshDir_def a_def[symmetric] a' b_def[symmetric] g_def case_prod_unfold Let_def dirEntry_def)
  qed
qed (use assms(1) in \<open>auto simp: refreshDir_def split: option.splits\<close>)

lemma refreshRoot_keeps:
  assumes "P f" and tick: "\<And>g. P g \<Longrightarrow> P (tick g)"
    and replace: "\<And>g h es now. P g \<Longrightarrow> answers w es \<Longrightarrow> rootPath h = rootPath f \<Longrightarrow>
      P (snd (storeReplace w ''0'' (map (rootChild now h) es) g))"
    and upsert: "\<And>g e. P g \<Longrightarrow> ePath e = rootPath f \<Longrightarrow> P (snd (storeUpsert w e g))"
  shows "P (snd (refreshRoot w f))"
proof (cases "fsStore f = None \<or> fsRemote f = None")
  case False
  then obtain s r where sr: "fsStore f = Some s" "fsRemote f = Some r" by auto
  define a where "a = remoteList w r (rootPath f) f"
  have a: "snd a = tick f" by (simp add: a_def)
  show ?thesis
  proof (cases "fst a")
    case (Inl e)
    then have "a = (Inl e, tick f)" using a by (metis prod.collapse)
    then show ?thesis using sr tick [OF assms(1)] by (simp add: refreshRoot_def a_def[symmetric])
  next
    case (Inr es)
    then have a': "a = (Inr es, tick f)" using a by (metis prod.collapse)
    define b where "b = storeReplace w ''0'' (map (rootChild (clock w (tick f)) (tick f)) es) (tick f)"
    have b: "P (snd b)" unfolding b_def
      using Inr a_def remoteList_answers tick [OF assms(1)] by (intro replace) simp_all
    have root: "rootPath (snd b) = rootPath f"
      using kept_storeReplace [of "tick f" w "''0''" "map (rootChild (clock w (tick f)) (tick f)) es"]
      by (simp add: b_def kept_def)
    define g where "g = snd (existingMTime w (rootPath f) (snd b))"
    have g: "P g" "rootPath g = rootPath f" unfolding g_def using b root by (simp_all add: existingMTime_snd tick)
    show ?thesis
      using sr b upsert [OF g(1)] root g(2) by (cases b; cases "fst b")
        (simp_all add: refreshRoot_def a_def[symmetric] a' b_def[symmetric] g_def case_prod_unfold Let_def dirEntry_def)
  qed
qed (use assms(1) in \<open>auto simp: refreshRoot_def split: option.splits\<close>)

lemma kept_refreshDir: "kept f (snd (refreshDir w p fsid f))"
  by (rule refreshDir_keeps) (auto intro: kept_trans kept_tick kept_storeReplace kept_storeUpsert)

lemma kept_refreshRoot: "kept f (snd (refreshRoot w f))"
  by (rule refreshRoot_keeps) (auto intro: kept_trans kept_tick kept_storeReplace kept_storeUpsert)

section \<open>Termination of a full refresh\<close>

definition within :: "string set \<Rightarrow> Filesystem \<Rightarrow> bool" where
  "within U f \<longleftrightarrow> store_ok (fsStore f) \<and> dom (fileAt (fsStore f)) \<subseteq> U"

definition listed_in :: "string set \<Rightarrow> string \<Rightarrow> world \<Rightarrow> bool" where
  "listed_in U root w \<longleftrightarrow> root \<in> U \<and> (\<forall>k p es. atList (w k) p = Inr es \<longrightarrow>
     (\<forall>e \<in> set es. rePath e \<in> U \<and> path_Join [root, relPathOf root e] \<in> U))"

lemma within_tick [simp]: "within U (tick f) \<longleftrightarrow> within U f"
  by (simp add: within_def)

lemma within_storeUpsert: "within U f \<Longrightarrow> ePath e \<in> U \<Longrightarrow> within U (snd (storeUpsert w e f))"
proof -
  assume w: "within U f" and e: "ePath e \<in> U"
  let ?r = "UpsertEntry (atDB (w (fsTick f))) e (fsStore f)"
  have "dom (fileAt (snd ?r)) \<subseteq> U"
  proof (cases "fst ?r")
    case None
    then show ?thesis using UpsertEntry_map [OF None] w e by (auto simp: within_def)
  next
    case (Some x)
    then show ?thesis using changes_fail [OF UpsertEntry_changes, of "atDB (w (fsTick f))" e "fsStore f"] w
      by (simp add: within_def)
  qed
  then show ?thesis using kept_storeUpsert [of f w e] w
    by (auto simp: within_def kept_def storeUpsert_def split: prod.splits)
qed

lemma within_storeReplace:
  assumes "within U f" "ePath ` set es \<subseteq> U"
  shows "within U (snd (storeReplace w pid es f))"
proof -
  let ?r = "ReplaceChildren (atDB (w (fsTick f))) pid es (fsStore f)"
  have ok: "store_ok (fsStore f)" using assms(1) by (simp add: within_def)
  have "dom (fileAt (snd ?r)) \<subseteq> U"
  proof (cases "fst ?r")
    case None
    have "dom (\<lambda>p. Option.bind (fileAt (fsStore f) p) (\<lambda>e. if eParent e = pid then None else Some e)) \<subseteq> dom (fileAt (fsStore f))"
      by (auto simp: bind_eq_Some_conv)
    moreover have "dom (map_of (rev (map (\<lambda>e. (ePath e, erase e)) es))) = ePath ` set es"
      by (simp add: dom_map_of_conv_image_fst image_image)
    ultimately show ?thesis using assms unfolding ReplaceChildren_map [OF ok None] within_def dom_map_add by blast
  next
    case (Some x)
    then show ?thesis
      using changes_fail [OF ReplaceChildren_changes, of "atDB (w (fsTick f))" pid es "fsStore f"] assms(1)
      by (simp add: within_def)
  qed
  then show ?thesis using kept_storeReplace [of f w pid es] assms(1)
    by (auto simp: within_def kept_def storeReplace_def split: prod.splits)
qed

lemma answers_in: "listed_in U root w \<Longrightarrow> answers w es \<Longrightarrow> e \<in> set es \<Longrightarrow> rePath e \<in> U \<and> path_Join [root, relPathOf root e] \<in> U"
  by (auto simp: listed_in_def answers_def)

lemma within_refreshDir:
  assumes "within U f" "listed_in U root w" "p \<in> U"
  shows "within U (snd (refreshDir w p fsid f))"
proof (rule refreshDir_keeps [where P = "within U"])
  fix g h :: Filesystem and es now assume "within U g" "answers w es"
  then show "within U (snd (storeReplace w fsid (map (\<lambda>e. remoteEntry now h fsid (rePath e) e) es) g))"
    using answers_in [OF assms(2)] by (intro within_storeReplace) (auto simp: remoteEntry_def)
qed (use assms in \<open>auto intro: within_storeUpsert\<close>)

lemma within_refreshRoot:
  assumes "within U f" "listed_in U (rootPath f) w"
  shows "within U (snd (refreshRoot w f))"
proof (rule refreshRoot_keeps [where P = "within U"])
  fix g h :: Filesystem and es now assume "within U g" "answers w es" "rootPath h = rootPath f"
  then show "within U (snd (storeReplace w ''0'' (map (rootChild now h) es) g))"
    using answers_in [OF assms(2)] by (intro within_storeReplace) (auto simp: rootChild_def remoteEntry_def)
qed (use assms in \<open>auto intro: within_storeUpsert simp: listed_in_def\<close>)

lemma children_within:
  assumes "within U f" "storeList w p f = ((cs, None), f1)" "e \<in> set cs"
  shows "ePath e \<in> U"
proof -
  have l: "ListChildren (atDB (w (fsTick f))) p (fsStore f) = (cs, None)" using assms(2) by (simp add: storeList_def)
  then obtain t where t: "tableOf (fsStore f) = Some t"
    using openDB_cases [of "''store is nil''" "fsStore f"] by (auto simp: ListChildren_def)
  have ok: "table_ok t" "dom (entryAt t) \<subseteq> U" using assms(1) t by (auto simp: within_def store_ok_table fileAt_table)
  have "\<exists>r \<in> set (tRows t). e = scanEntry r"
    using ListChildren_rows [OF t, of "atDB (w (fsTick f))" p] l assms(3)
    by (auto simp: selectByParent_def split: if_splits option.splits)
  then show ?thesis using entryAt_member [OF ok(1)] ok(2) by auto
qed

text \<open>Each directory is visited at most once, so the recursion is no deeper than the number of paths.\<close>

definition ends_within :: "string set \<Rightarrow> string set \<Rightarrow> refreshed \<Rightarrow> bool" where
  "ends_within U visited res \<longleftrightarrow> (\<exists>e v g. res = Some ((e, v), g) \<and> visited \<subseteq> v \<and> within U g)"

lemma refreshChildren_total:
  assumes known: "\<And>p v g. within U g \<Longrightarrow> p \<in> U \<Longrightarrow> card (U - v) < n \<Longrightarrow> ends_within U v (refreshKnownDirectories w n p v g)"
    and "listed_in U root w" "finite U"
  shows "within U f \<Longrightarrow> ePath ` set cs \<subseteq> U \<Longrightarrow> card (U - visited) < n \<Longrightarrow> ends_within U visited (refreshChildren w n cs visited f)"
proof (induction cs arbitrary: visited f)
  case (Cons child cs)
  show ?case
  proof (cases "eIsDir child")
    case True
    let ?d = "if fsRemote f \<noteq> None then refreshDir w (ePath child) (eFSID child) f else (None, f)"
    obtain e f1 where d: "?d = (e, f1)" by (metis prod.collapse)
    have f1: "within U f1" using d Cons(2,3) within_refreshDir [OF Cons(2) assms(2), of "ePath child" "eFSID child"]
      by (auto split: if_splits)
    show ?thesis
    proof (cases e)
      case None
      obtain e' v g where k: "refreshKnownDirectories w n (ePath child) visited f1 = Some ((e', v), g)" "visited \<subseteq> v" "within U g"
        using known [OF f1 _ Cons(4), of "ePath child"] Cons(3) by (auto simp: ends_within_def)
      have "card (U - v) \<le> card (U - visited)" using k(2) assms(3) by (intro card_mono) auto
      then have "ends_within U v (refreshChildren w n cs v g)" using Cons(3,4) by (intro Cons(1) k(3)) auto
      then show ?thesis using True d None k by (cases e') (auto simp: ends_within_def)
    qed (use True d f1 in \<open>auto simp: ends_within_def\<close>)
  qed (use Cons in auto)
qed (simp add: ends_within_def)

lemma refreshKnown_total:
  assumes "listed_in U root w" "finite U"
  shows "within U f \<Longrightarrow> current \<in> U \<Longrightarrow> card (U - visited) < n \<Longrightarrow> ends_within U visited (refreshKnownDirectories w n current visited f)"
proof (induction n arbitrary: current visited f)
  case (Suc n)
  show ?case
  proof (cases "fsStore f = None \<or> current \<in> visited")
    case False
    obtain cs err f1 where l: "storeList w current f = ((cs, err), f1)" by (metis prod.collapse)
    have f1: "within U f1" using storeList_snd [of w current f] l Suc(2) by simp
    have "card (U - insert current visited) < card (U - visited)"
      using False Suc(3) assms(2) by (intro psubset_card_mono) auto
    then have c: "card (U - insert current visited) < n" using Suc(4) by linarith
    show ?thesis
    proof (cases err)
      case None
      have "ePath ` set cs \<subseteq> U" using children_within [OF Suc(2)] l None by blast
      from refreshChildren_total [OF Suc(1) assms f1 this c] show ?thesis
        using False l None by (auto simp: ends_within_def)
    qed (use False l f1 in \<open>auto simp: ends_within_def\<close>)
  qed (use Suc in \<open>auto simp: ends_within_def\<close>)
qed simp

lemma RefreshAll_total:
  assumes "store_ok (fsStore f)" "dom (fileAt (fsStore f)) \<subseteq> U" "listed_in U (rootPath f) w" "finite U" "card U < fuel"
  obtains e g where "RefreshAll w fuel f = Some (e, g)"
proof (cases "fsStore f = None \<or> fsRemote f = None \<or> refreshMu f \<noteq> Some False")
  case True
  then show ?thesis by (intro that) (auto simp: RefreshAll_def tryRefreshToken_def split: option.splits bool.splits)
next
  case False
  define f1 where "f1 = f\<lparr>refreshMu := Some True\<rparr>"
  have t: "tryRefreshToken f = (True, f1)" using False by (simp add: tryRefreshToken_def f1_def)
  obtain e f2 where r: "refreshRoot w f1 = (e, f2)" by (metis prod.collapse)
  have "within U f1" "rootPath f1 = rootPath f" using assms(1,2) by (simp_all add: f1_def within_def)
  then have f2: "within U f2" "rootPath f2 = rootPath f"
    using within_refreshRoot [of U f1 w] kept_refreshRoot [of f1 w] assms(3) r by (simp_all add: kept_def)
  have "ends_within U {} (refreshKnownDirectories w fuel (rootPath f2) {} f2)"
    using assms(3,4,5) f2 by (intro refreshKnown_total [where root = "rootPath f"]) (auto simp: listed_in_def)
  then show ?thesis using False t r by (cases e) (auto simp: RefreshAll_def ends_within_def intro: that)
qed

section \<open>What a refresh of the root shows\<close>

lemma storeReplace_None:
  "storeReplace w pid es f = (None, g) \<Longrightarrow>
   fst (ReplaceChildren (atDB (w (fsTick f))) pid es (fsStore f)) = None \<and>
   g = tick (f\<lparr>fsStore := snd (ReplaceChildren (atDB (w (fsTick f))) pid es (fsStore f))\<rparr>)"
  by (auto simp: storeReplace_def case_prod_unfold Let_def)

lemma storeUpsert_None:
  "storeUpsert w e f = (None, g) \<Longrightarrow>
   fst (UpsertEntry (atDB (w (fsTick f))) e (fsStore f)) = None \<and>
   g = tick (f\<lparr>fsStore := snd (UpsertEntry (atDB (w (fsTick f))) e (fsStore f))\<rparr>)"
  by (auto simp: storeUpsert_def case_prod_unfold Let_def)

lemma refreshRoot_success:
  assumes "fsStore f \<noteq> None" "fsRemote f = Some r" "refreshRoot w f = (None, g)"
  obtains es s1 env1 env2 e where "fst (remoteList w r (rootPath f) f) = Inr es"
    "fst (ReplaceChildren env1 ''0'' (map (rootChild (clock w (tick f)) f) es) (fsStore f)) = None"
    "s1 = snd (ReplaceChildren env1 ''0'' (map (rootChild (clock w (tick f)) f) es) (fsStore f))"
    "ePath e = rootPath f" "eParent e = []" "eFSID e = ''0''" "fst (UpsertEntry env2 e s1) = None" "fsStore g = snd (UpsertEntry env2 e s1)"
proof -
  have child: "rootChild now (tick f) = rootChild now f" for now
    by (rule ext) (simp add: rootChild_def remoteEntry_def childExpiresAt_def)
  obtain s where s: "fsStore f = Some s" using assms(1) by auto
  obtain es where es: "remoteList w r (rootPath f) f = (Inr es, tick f)"
    using assms(2,3) s by (auto simp: refreshRoot_def remoteList_def split: sum.splits if_splits)
  obtain f2 where f2: "storeReplace w ''0'' (map (rootChild (clock w (tick f)) f) es) (tick f) = (None, f2)"
    using assms(2,3) s es by (auto simp: refreshRoot_def child split: option.splits prod.splits)
  define f3 where "f3 = snd (existingMTime w (rootPath f2) f2)"
  define e where "e = dirEntry (clock w f3) f3 ''0'' [] (rootPath f3) [] (fst (existingMTime w (rootPath f2) f2))"
  have u: "storeUpsert w e f3 = (None, g)"
    using assms(2,3) s es f2 by (simp add: refreshRoot_def child f3_def e_def case_prod_unfold Let_def)
  have r: "rootPath f3 = rootPath f" "fsStore f3 = fsStore f2"
    using storeReplace_None [OF f2] by (simp_all add: f3_def existingMTime_snd)
  show ?thesis
    using storeReplace_None [OF f2] storeUpsert_None [OF u] es r
    by (intro that [of es "atDB (w (fsTick (tick f)))" "fsStore f2" e "atDB (w (fsTick f3))"])
      (simp_all add: e_def dirEntry_def)
qed

lemma root_listing:
  assumes "tableOf s = Some t" "snd (ListChildren env p s) = None" "p = ''/'' \<or> (\<exists>e. fileAt s p = Some e \<and> eFSID e = ''0'')"
  shows "fst (ListChildren env p s) = map scanEntry (selectByParent ''0'' t)"
proof (cases "p = ''/''")
  case False
  then obtain e where "entryAt t p = Some e" "eFSID e = ''0''" using assms(1,3) by (auto simp: fileAt_table)
  then obtain r where "selectByPath p t = Some r" "cFsid r = ''0''" by (auto simp: entryAt_def)
  then show ?thesis using ListChildren_rows [OF assms(1,2)] False by simp
qed (use ListChildren_rows [OF assms(1,2)] in simp)

lemma refreshRoot_shows:
  assumes "store_ok (fsStore f)" "fsStore f \<noteq> None" "fsRemote f = Some r" "refreshRoot w f = (None, g)"
    and "fst (remoteList w r (rootPath f) f) = Inr es"
    and "distinct (map ePath (map (rootChild (clock w (tick f)) f) es))" "rootPath f \<notin> ePath ` rootChild (clock w (tick f)) f ` set es"
    and "ListChildren env (rootPath f) (fsStore g) = (cs, None)"
  shows "mset (map erase cs) = mset (map (rootChild (clock w (tick f)) f) es) \<and> sorted (map eName cs)"
proof -
  let ?es = "map (rootChild (clock w (tick f)) f) es"
  obtain s1 env1 env2 e where
    rep: "fst (ReplaceChildren env1 ''0'' ?es (fsStore f)) = None" "s1 = snd (ReplaceChildren env1 ''0'' ?es (fsStore f))"
    and e: "ePath e = rootPath f" "eParent e = []" "eFSID e = ''0''"
    and up: "fst (UpsertEntry env2 e s1) = None" "fsStore g = snd (UpsertEntry env2 e s1)"
    by (rule refreshRoot_success [OF assms(2-4)]) (simp add: assms(5))
  obtain t where t: "tableOf (fsStore f) = Some t"
    "tableOf s1 = Some (fold upsertEntrySQL ?es (deleteWhere (\<lambda>r. cParent r = ''0'') t))"
    using changes_success [OF ReplaceChildren_changes rep(1)] rep(2) by metis
  let ?t1 = "fold upsertEntrySQL ?es (dropEntries (\<lambda>e. eParent e = ''0'') t)"
  have t1: "tableOf s1 = Some ?t1" using t(2) by (simp add: dropEntries_def)
  have ok: "table_ok t" using assms(1) t(1) by (simp add: store_ok_table)
  have ok1: "table_ok ?t1" by (intro metadata.puts_ok metadata.drop_ok ok)
  have g: "tableOf (fsStore g) = Some (upsertEntrySQL e ?t1)"
    using changes_success [OF UpsertEntry_changes up(1)] t1 up(2) by (metis option.inject)
  have era: "erase (rootChild n h x) = rootChild n h x" for n h x
    by (simp add: erase_def rootChild_def remoteEntry_def)
  have par: "eParent x = ''0''" if "x \<in> set ?es" for x
    using that by (auto simp: rootChild_def remoteEntry_def)
  have "{x \<in> ran (entryAt ?t1). eParent x = ''0''} = erase ` set ?es"
    using ok assms(6) par by (intro metadata.replace_exact) auto
  then have exact: "{x \<in> ran (entryAt ?t1). eParent x = ''0''} = set ?es" by (auto simp: era image_iff)
  have root: "x \<in> ran ((entryAt ?t1)(rootPath f \<mapsto> erase e)) \<and> eParent x = ''0'' \<longleftrightarrow> x \<in> ran (entryAt ?t1) \<and> eParent x = ''0''" for x
  proof
    assume x: "x \<in> ran (entryAt ?t1) \<and> eParent x = ''0''"
    then have "x \<in> set ?es" using exact by blast
    then have "ePath x \<noteq> rootPath f" using assms(7) by (metis imageI set_map)
    moreover obtain p where "entryAt ?t1 p = Some x" using x by (auto simp: ran_def)
    ultimately have "((entryAt ?t1)(rootPath f \<mapsto> erase e)) p = Some x" using entryAt_path by auto
    then show "x \<in> ran ((entryAt ?t1)(rootPath f \<mapsto> erase e)) \<and> eParent x = ''0''" using x by (auto intro: ranI)
  qed (auto simp: ran_def e split: if_splits)
  have set: "(\<lambda>r. erase (scanEntry r)) ` set (selectByParent ''0'' (upsertEntrySQL e ?t1)) = set ?es"
    unfolding listing_set [OF upsert_ok [OF ok1]] entryAt_upsert e(1) using root exact by blast
  have "fileAt (fsStore g) (rootPath f) = Some (erase e)" using g by (simp add: fileAt_table entryAt_upsert e)
  then have cs: "cs = map scanEntry (selectByParent ''0'' (upsertEntrySQL e ?t1))"
    using root_listing [OF g, of env "rootPath f"] assms(8) e(3) by auto
  have "mset (map erase cs) = mset ?es"
  proof (rule mset_by_path)
    show "distinct (map ePath (map erase cs))"
      using listing_distinct [OF upsert_ok [OF ok1]] by (simp add: cs comp_def)
    show "set (map erase cs) = set ?es" using set by (simp add: cs image_image)
  qed (rule assms(6))
  moreover have "sorted (map eName cs)" using listing_sorted by (simp add: cs comp_def)
  ultimately show ?thesis ..
qed

section \<open>Deleting\<close>

lemma listed_entry:
  assumes "store_ok s" "ListChildren env p s = (cs, None)" "t \<in> set cs"
  shows "fileAt s (ePath t) = Some (erase t)"
proof -
  obtain tb where tb: "tableOf s = Some tb"
    using assms(2) openDB_cases [of "''store is nil''" s] by (auto simp: ListChildren_def)
  have "\<exists>r \<in> set (tRows tb). t = scanEntry r"
    using ListChildren_rows [OF tb, of env p] assms(2,3) by (auto simp: selectByParent_def split: if_splits option.splits)
  then show ?thesis using entryAt_member assms(1) tb by (auto simp: store_ok_table fileAt_table)
qed

lemma DeletePath_gone:
  assumes "store_ok s" "fst (DeletePath env p s) = None"
  shows "fileAt (snd (DeletePath env p s)) q =
    (if q = p \<or> like (childPattern p) q then None else fileAt s q)"
proof -
  obtain t where t: "tableOf s = Some t"
    "tableOf (snd (DeletePath env p s)) = Some (deleteWhere (\<lambda>r. cPath r = p \<or> like (childPattern p) (cPath r)) t)"
    using changes_success [OF DeletePath_changes assms(2)] by blast
  have d: "deleteWhere (\<lambda>r. cPath r = p \<or> like (childPattern p) (cPath r)) t =
      dropEntries (\<lambda>e. ePath e = p \<or> like (childPattern p) (ePath e)) t" by (simp add: dropEntries_def)
  have "table_ok t" using assms(1) t(1) by (simp add: store_ok_table)
  then show ?thesis unfolding fileAt_table [OF t(1)] fileAt_table [OF t(2)] d
    by (auto simp: entryAt_drop bind_eq_None_conv dest: entryAt_path split: bind_splits)
qed

lemma childPattern_below: "prefix (TrimRight p CHR ''/'' @ ''/'') q \<Longrightarrow> like (childPattern p) q"
  using like_below [of "TrimRight p CHR ''/'' @ ''/''"] by (auto simp: childPattern_def prefix_def)

text \<open>
  What a deletion of a path does to the metadata: nothing is left at or below it, and an entry that the pattern of
  \<open>DeletePath\<close> does not match is the one it was. In a pattern with wildcards of its own, \<open>like\<close> reaches further than the
  entries below; without one, it reaches those that are below up to the case of ASCII letters.
\<close>

definition subtree_deleted :: "string \<Rightarrow> Store option \<Rightarrow> Store option \<Rightarrow> bool" where
  "subtree_deleted p s t \<longleftrightarrow>
     (\<forall>q. q = p \<or> prefix (TrimRight p CHR ''/'' @ ''/'') q \<longrightarrow> fileAt t q = None) \<and>
     (\<forall>q. q \<noteq> p \<and> \<not> like (childPattern p) q \<longrightarrow> fileAt t q = fileAt s q) \<and>
     (CHR ''%'' \<notin> set p \<and> CHR ''_'' \<notin> set p \<longrightarrow>
        (\<forall>q. q \<noteq> p \<and> \<not> prefix (map asciiFold (TrimRight p CHR ''/'' @ ''/'')) (map asciiFold q) \<longrightarrow>
             fileAt t q = fileAt s q))"

lemma like_child_prefix:
  assumes "CHR ''%'' \<notin> set p" "CHR ''_'' \<notin> set p" "like (childPattern p) q"
  shows "prefix (map asciiFold (TrimRight p CHR ''/'' @ ''/'')) (map asciiFold q)"
proof -
  let ?b = "TrimRight p CHR ''/'' @ ''/''"
  have "set (TrimRight p CHR ''/'') \<subseteq> set p" by (auto simp: TrimRight_def dest: set_dropWhileD)
  then have "CHR ''%'' \<notin> set ?b" "CHR ''_'' \<notin> set ?b" using assms by auto
  from like_literal [OF this, of q] have "map asciiFold (take (length ?b) q) = map asciiFold ?b"
    using assms(3) by (simp add: childPattern_def)
  then show ?thesis by (metis take_is_prefix take_map)
qed

lemma DeletePath_subtree:
  assumes "store_ok s" "fst (DeletePath env p s) = None"
  shows "subtree_deleted p s (snd (DeletePath env p s))"
  using DeletePath_gone [OF assms] childPattern_below [of p] like_child_prefix [of p]
  unfolding subtree_deleted_def by auto

text \<open>Everything up to the call of the client leaves the metadata and the remote side alone.\<close>

lemma deleteChild_effect:
  assumes "store_ok (fsStore f)" "fsRemote f = Some r" "rHasClient r" "deleteChild w p name wantDir f = (res, g)"
    and "fsDeleted g \<noteq> fsDeleted f \<or> fsStore g \<noteq> fsStore f \<or> res = EOK"
  obtains t cs where "enableDelete f" "ListChildren (atDB (w (fsTick f))) p (fsStore f) = (cs, None)" "t \<in> set cs"
    "eName t = name" "eIsDir t = wantDir" "ePath t \<notin> {[], ''/'', rootPath f}" "fsDeleted g = fsDeleted f @ [ePath t]"
    "res = EOK \<and> subtree_deleted (ePath t) (fsStore f) (fsStore g) \<or>
     res = EIO \<and> fsStore g = fsStore f"
proof -
  obtain s where s: "fsStore f = Some s" using assms(2,4,5) by (auto simp: deleteChild_def split: option.splits)
  have en: "enableDelete f" using assms(2,4,5) s by (auto simp: deleteChild_def split: if_splits)
  obtain cs where cs: "ListChildren (atDB (w (fsTick f))) p (fsStore f) = (cs, None)"
    using assms(2,4,5) s en
    by (cases "ListChildren (atDB (w (fsTick f))) p (fsStore f)")
      (auto simp: deleteChild_def storeList_def split: option.splits)
  have l: "storeList w p f = ((cs, None), tick f)" by (simp add: storeList_def cs)
  obtain t where t: "List.find (\<lambda>c. eName c = name) cs = Some t"
    using assms(2,4,5) s en l by (auto simp: deleteChild_def split: option.splits)
  have g1: "eIsDir t = wantDir" "ePath t \<notin> {[], ''/'', rootPath f}"
    using assms(2,4,5) s en l t by (auto simp: deleteChild_def split: if_splits)
  define f1 where "f1 = tick ((tick f)\<lparr>fsDeleted := fsDeleted f @ [ePath t]\<rparr>)"
  define derr where "derr = atDelete (w (Suc (fsTick f))) [ePath t]"
  have d: "deleteChild w p name wantDir f =
      (case derr of Some e \<Rightarrow> (EIO, f1)
       | None \<Rightarrow> (case storeDelete w (ePath t) f1 of (Some e, f3) \<Rightarrow> (EIO, f3) | (None, f3) \<Rightarrow> (EOK, markMissing w (ePath t) f3)))"
    using assms(2,3) s en l t g1
    by (auto simp: deleteChild_def remoteDelete_def f1_def derr_def split: option.splits)
  let ?r = "DeletePath (atDB (w (fsTick f1))) (ePath t) (fsStore f)"
  have sd: "storeDelete w (ePath t) f1 = (fst ?r, tick (f1\<lparr>fsStore := snd ?r\<rparr>))"
    by (simp add: storeDelete_def f1_def case_prod_unfold Let_def)
  have f1: "fsDeleted f1 = fsDeleted f @ [ePath t]" "fsStore f1 = fsStore f" by (simp_all add: f1_def)
  have "fsDeleted g = fsDeleted f @ [ePath t]"
    using d assms(4) by (auto simp: sd markMissing_def Let_def f1 split: option.splits)
  moreover have "res = EOK \<and> fst ?r = None \<and> fsStore g = snd ?r \<or> res = EIO \<and> fsStore g = fsStore f"
    using d assms(4) changes_fail [OF DeletePath_changes, of "atDB (w (fsTick f1))" "ePath t" "fsStore f"]
    by (auto simp: sd markMissing_def Let_def f1 split: option.splits)
  ultimately show ?thesis
    using find_is_Some [OF t] DeletePath_subtree [OF assms(1)]
    by (intro that [OF en cs _ _ g1]) auto
qed

section \<open>Looking up\<close>

lemma isMissingNow_store [simp]: "fsStore (snd (isMissingNow w p f)) = fsStore f" "fsTick (snd (isMissingNow w p f)) = fsTick f"
  by (auto simp: isMissingNow_def split: option.splits prod.splits)

lemma shouldRefresh_snd: "snd (shouldRefresh w p f) = f \<or> snd (shouldRefresh w p f) = tick f"
  by (auto simp: shouldRefresh_def storeGet_def split: option.splits prod.splits)

lemma kept_currentChildren: "kept f (snd (currentChildren w isRoot p fsid isDir f))"
proof -
  let ?g = "snd (shouldRefresh w p (tick f))"
  have g: "kept f ?g" using shouldRefresh_snd [of w p "tick f"] kept_trans kept_tick by metis
  have "kept f (snd (nodeRefresh w isRoot p fsid ?g))"
    using kept_trans [OF g] kept_refreshRoot kept_refreshDir by (simp add: nodeRefresh_def)
  then show ?thesis using g kept_trans [OF _ kept_tick]
    by (auto simp: currentChildren_def storeList_def case_prod_unfold Let_def split: option.splits)
qed

lemma currentChildren_listed:
  assumes "currentChildren w isRoot p fsid isDir f = (Inr cs, g)"
  shows "\<exists>env. ListChildren env p (fsStore g) = (cs, None)"
proof -
  have "fsStore (snd (shouldRefresh w p (tick f))) = fsStore f"
    using shouldRefresh_snd [of w p "tick f"] by auto
  then show ?thesis using assms
    by (auto simp: currentChildren_def storeList_def case_prod_unfold Let_def prod_eq_iff split: option.splits if_splits)
qed

lemma lookupNode_sound:
  assumes "store_ok (fsStore f)" "lookupNode w isRoot p fsid isDir name f = (Inr (e, a), g)"
  shows "eName e = name \<and> fileAt (fsStore g) (ePath e) = Some (erase e)"
proof -
  let ?f1 = "snd (isMissingNow w (JoinPath p name) f)"
  obtain cs where cs: "currentChildren w isRoot p fsid isDir ?f1 = (Inr cs, g)" "List.find (\<lambda>c. eName c = name) cs = Some e"
    using assms(2) by (auto simp: lookupNode_def case_prod_unfold Let_def prod_eq_iff split: if_splits sum.splits option.splits)
  have "store_ok (fsStore g)" using kept_currentChildren [of ?f1 w isRoot p fsid isDir] cs(1) assms(1) by (simp add: kept_def)
  then show ?thesis using currentChildren_listed [OF cs(1)] find_is_Some [OF cs(2)] listed_entry by blast
qed

text \<open>A name that was not found is remembered: while the mark lasts, a lookup calls neither store nor client.\<close>

lemma lookupNode_remembered:
  assumes "fsStore f \<noteq> None" "fsNegative f = Some c" "JoinPath p name \<in> knownMissing (clock w f) c"
  shows "fst (lookupNode w isRoot p fsid isDir name f) = Inl ENOENT \<and> fsTick (snd (lookupNode w isRoot p fsid isDir name f)) = fsTick f"
  using assms IsMissing_iff [of "clock w f" "JoinPath p name" c]
  by (auto simp: lookupNode_def isMissingNow_def case_prod_unfold Let_def)

section \<open>Reading\<close>

lemma readOutcome_data: "readOutcome now elapsed e off n strategy res f = (Inr d, g) \<Longrightarrow> res = Inr d"
  by (auto simp: readOutcome_def Let_def split: sum.splits if_splits)

lemma expected_full:
  assumes "known c (streamFile e)" "d = bslice off (off + n) (c (eFSID e))" "len d = n" "0 \<le> off" "0 \<le> n"
    "\<not> (0 < eSize e \<and> eSize e \<le> off)"
  shows "d = expected c (streamFile e) off n"
proof (cases "0 < eSize e")
  case True
  then have sz: "eSize e = len (c (eFSID e))" using assms(1) by (simp add: known_def streamFile_def)
  have "length d = min (nat n) (length (c (eFSID e)) - nat off)" using assms(2) by (simp add: bslice_def)
  then have "off + n \<le> eSize e" using assms(3-6) True sz by linarith
  then show ?thesis using assms True by (simp add: expected_def streamFile_def)
next
  case False
  then show ?thesis using assms(2) by (simp add: expected_def streamFile_def)
qed

text \<open>A read through the stream manager: the handle was opened with one, as every handle is while there is a manager.\<close>

definition streamed :: "entryFileHandle option \<Rightarrow> bool" where
  "streamed h \<longleftrightarrow> (\<exists>h0 sh. h = Some h0 \<and> streamHandle h0 = Some sh)"

lemma entryOpen_streamed: "fsStream f \<noteq> None \<Longrightarrow> entryOpen now e f = (Inr (h, flags), g) \<Longrightarrow> streamed (Some h)"
  by (auto simp: entryOpen_def streamed_def split: if_splits option.splits prod.splits)

lemma entryRead_exact:
  assumes "entryRead c rng e h off n f (Inr d) h' g" "fsRemote f = Some r" "rd_inv c r" "rHasClient r"
    and direct: "\<not> streamed h \<Longrightarrow> concurrency r \<le> 1"
    and "sized c" "\<And>ks. set (rng ks) = set ks" "known c (streamFile e)" "0 \<le> off" "0 \<le> n" "off + n < 2 ^ 62"
    and stream: "\<And>s. fsStream f = Some s \<Longrightarrow> sys_inv c s"
    and opened: "\<And>h0 sh. h = Some h0 \<Longrightarrow> streamHandle h0 = Some sh \<Longrightarrow> hFile sh = streamFile e"
  shows "d = expected c (streamFile e) off n"
  using assms(1)
proof cases
  case er_end
  then have "max off (min (off + n) (eSize e)) = off" using assms(10) by linarith
  then show ?thesis using er_end by (simp add: expected_def streamFile_def)
next
  case (er_stream h0 sh s res sh' s' now elapsed)
  then have "res = Inr d" using readOutcome_data [OF er_stream(8)] by (cases res) auto
  then show ?thesis using read_at_sound [OF er_stream(7) stream [OF er_stream(6)]] opened [OF er_stream(1) er_stream(5)] assms(8,11)
    by simp
next
  case (er_remote r0 h0 res r' now elapsed)
  have "res = Inr d" using readOutcome_data [OF er_remote(7)] .
  moreover have "r0 = r" using er_remote(3) assms(2) by simp
  ultimately have "RemoteRead.ReadRange c rng (eFSID e) off n r (Inr d) r'" using er_remote(6) by simp
  moreover have "concurrency r \<le> 1" using direct er_remote(1,5) by (simp add: streamed_def)
  ultimately show ?thesis
    using ReadRange_sound [OF _ assms(3,6,7,4) _ assms(9,11)] expected_full [OF assms(8)] assms(9,10) er_remote by blast
next
  case (er_cached r0 r')
  then have "fst (readCachedLocked rng (eFSID e) off n r) = Some d" using assms(2) by (simp add: ReadCachedWindow_def)
  note hit = readCached_exact [OF assms(3,6,7,9,10,11) this]
  have "len d = n" using hit assms(9,10) by (simp add: bslice_def)
  then show ?thesis using expected_full [OF assms(8) hit(1)] assms(9,10) er_cached by blast
next
  case (er_node r0 r1 res r')
  have res: "res = Inr d" using er_node by (cases res) auto
  have "r1 = r \<or> r1 = snd (readCachedLocked rng (eFSID e) off n r)"
    using er_node assms(2) by (auto simp: ReadCachedWindow_def prod_eq_iff split: if_splits)
  then have r1: "rd_inv c r1 \<and> rd_ext r r1"
    using rd_step_keeps [OF rd_lookup assms(3)] assms(3) remote.ext_refl by auto
  have rd: "RemoteRead.ReadRange c rng (eFSID e) off n r1 (Inr d) r'" using er_node res by simp
  have "concurrency r \<le> 1" using direct er_node(1) by (simp add: streamed_def)
  then have "rHasClient r1" "concurrency r1 \<le> 1" using r1 assms(4) by (auto simp: rd_ext_def options_kept_def)
  from ReadRange_sound [OF rd _ assms(6,7) this assms(9,11)] r1
  show ?thesis using expected_full [OF assms(8)] assms(9,10) er_node by blast
qed (use assms(2) in simp)

end
