(* ===== verification/FsExample.thy ===== *)
theory FsExample
  imports FileSystemLaws StreamExample RemoteExample
begin

text \<open>A file system over the example engine and a new reader, with an empty store, no failing call and one remote file.\<close>

definition quietDB :: db_env where
  "quietDB = \<lparr>dbMigrate = None, dbBegin = None, dbPrepare = None, dbExec = (\<lambda>_. None), dbCommit = None, dbRow = None,
     dbQuery = None, dbScan = (\<lambda>_. None), dbNext = None\<rparr>"

definition exRemote :: RemoteEntry where
  "exRemote = \<lparr>reFSID = ''7'', reServerName = ''a'', rePath = ''/a'', reSize = 10, reIsDir = False, reServerMTime = 3,
     reLocalMTime = 3, reMD5 = []\<rparr>"

definition exWorld :: world where
  "exWorld k = \<lparr>atClock = 0, atDB = quietDB, atList = (\<lambda>p. Inr [exRemote]), atDelete = (\<lambda>ps. None)\<rparr>"

definition exDB :: "Store option" where
  "exDB = Some \<lparr>db = Some \<lparr>tRows = [], tNextId = 1\<rparr>\<rparr>"

definition exFs :: Filesystem where
  "exFs = SetDeleteEnabled True (NewFilesystemWithStream exDB (Some (NewReader True)) (Some exSys) [] ''/'')"

definition exChild :: MetaStore.Entry where
  "exChild = rootChild 0 exFs exRemote"

definition exFs1 :: Filesystem where
  "exFs1 = snd (refreshRoot exWorld exFs)"

lemma exDB_ok [simp]: "store_ok exDB" "tableOf exDB = Some \<lparr>tRows = [], tNextId = 1\<rparr>"
  by (simp_all add: exDB_def store_ok_def tableOf_def)

lemma exFs_sel [simp]:
  "fsStore exFs = exDB" "fsRemote exFs = Some (NewReader True)" "fsStream exFs = Some exSys" "rootPath exFs = ''/''"
  "fsTick exFs = 0" "enableDelete exFs" "fsDeleted exFs = []" "refreshMu exFs = Some False" "fsTTL exFs = 60 * second"
  "fsNegative exFs = None"
  by (simp_all add: exFs_def SetDeleteEnabled_def NewFilesystemWithStream_def)

lemma exWorld_sel [simp]:
  "atClock (exWorld k) = 0" "atDB (exWorld k) = quietDB" "atList (exWorld k) p = Inr [exRemote]" "atDelete (exWorld k) ps = None"
  "clock exWorld f = 0"
  by (simp_all add: exWorld_def clock_def)

lemma exPath: "path_Join [''/'', relPathOf ''/'' exRemote] = ''/a''"
  by code_simp

lemma exChild_sel [simp]:
  "ePath exChild = ''/a''" "eParent exChild = ''0''" "eName exChild = ''a''" "eFSID exChild = ''7''" "\<not> eIsDir exChild"
  "eSize exChild = 10" "eMTM exChild = 3"
  by (simp_all add: exChild_def rootChild_def remoteEntry_def exPath) (simp_all add: exRemote_def)

lemma quietDB_sel [simp]:
  "dbBegin quietDB = None" "dbPrepare quietDB = None" "dbExec quietDB i = None" "dbCommit quietDB = None" "dbRow quietDB = None"
  "dbQuery quietDB = None" "dbScan quietDB i = None" "dbNext quietDB = None"
  by (simp_all add: quietDB_def)

definition exRoot :: MetaStore.Entry where
  "exRoot = dirEntry 0 exFs ''0'' [] ''/'' [] 0"

definition exTable :: table where
  "exTable = \<lparr>tRows = [execEntry 1 exChild, execEntry 2 exRoot], tNextId = 3\<rparr>"

lemma exRoot_sel [simp]: "ePath exRoot = ''/''" "eParent exRoot = []" "eName exRoot = []"
  by (simp_all add: exRoot_def dirEntry_def)

lemma ex_refresh: "refreshRoot exWorld exFs = (None, exFs1)" "fsStore exFs1 = Some \<lparr>db = Some exTable\<rparr>"
proof -
  have c: "rootChild 0 (tick exFs) exRemote = exChild"
    by (simp add: exChild_def rootChild_def remoteEntry_def childExpiresAt_def)
  have t1: "upsertEntrySQL exChild (deleteWhere (\<lambda>r. cParent r = ''0'') \<lparr>tRows = [], tNextId = 1\<rparr>) =
      \<lparr>tRows = [execEntry 1 exChild], tNextId = 2\<rparr>"
    by (simp add: upsertEntrySQL_def deleteWhere_def hasPath_def)
  let ?f2 = "tick ((tick exFs)\<lparr>fsStore := Some \<lparr>db = Some \<lparr>tRows = [execEntry 1 exChild], tNextId = 2\<rparr>\<rparr>\<rparr>)"
  have r: "storeReplace exWorld ''0'' [exChild] (tick exFs) = (None, ?f2)"
    by (simp add: storeReplace_def ReplaceChildren_def inTransaction_def replaceBody_def upsertBody_def t1 setDB_def)
      (simp add: exDB_def)
  have m: "existingMTime exWorld ''/'' ?f2 = (0, tick ?f2)"
    by (simp add: existingMTime_def storeGet_def GetByPath_def openDB_def selectByPath_def)
  have d: "dirEntry 0 (tick ?f2) ''0'' [] ''/'' [] 0 = exRoot" by (simp add: exRoot_def dirEntry_def)
  have u: "storeUpsert exWorld exRoot (tick ?f2) = (None, tick ((tick ?f2)\<lparr>fsStore := Some \<lparr>db = Some exTable\<rparr>\<rparr>))"
    by (simp add: storeUpsert_def UpsertEntry_def execOne_def openDB_def setDB_def upsertEntrySQL_def hasPath_def exTable_def)
  have "refreshRoot exWorld exFs = (None, tick ((tick ?f2)\<lparr>fsStore := Some \<lparr>db = Some exTable\<rparr>\<rparr>))"
    using r m u d by (simp add: refreshRoot_def exDB_def remoteList_def NewReader_def c)
  then show "refreshRoot exWorld exFs = (None, exFs1)" "fsStore exFs1 = Some \<lparr>db = Some exTable\<rparr>"
    by (simp_all add: exFs1_def)
qed

lemma ex_listing: "ListChildren quietDB ''/'' (fsStore exFs1) = ([exChild\<lparr>eID := 1\<rparr>], None)"
  by (simp add: ListChildren_def openDB_def ex_refresh queryChildren_def selectByParent_def exTable_def)

lemma exFs1_sel [simp]:
  "fsRemote exFs1 = Some (NewReader True)" "fsStream exFs1 = Some exSys" "rootPath exFs1 = ''/''" "enableDelete exFs1"
  "fsDeleted exFs1 = []" "store_ok (fsStore exFs1)"
  using kept_refreshRoot [of exFs exWorld] by (simp_all add: kept_def exFs1_def)

lemma ex_delete: "\<exists>g. Unlink exWorld ''a'' exFs1 = (EOK, g) \<and> fsDeleted g = [''/a'']"
proof -
  obtain s where s: "fsStore exFs1 = Some s" using ex_refresh(2) by blast
  have c: "rHasClient (NewReader True)" by (simp add: NewReader_def)
  have d: "fst (DeletePath quietDB ''/a'' (fsStore exFs1)) = None"
    by (simp add: DeletePath_def execOne_def openDB_def ex_refresh)
  show ?thesis
    using ex_listing s d c
    by (auto simp: Unlink_def deleteChild_def storeList_def remoteDelete_def storeDelete_def markMissing_def Let_def case_prod_unfold
        split: option.splits)
qed

lemma ex_sized: "sized exContent"
  by (simp add: sized_def exContent_def)

lemma ex_fs_read: "\<exists>h g. entryRead exContent id exChild (Some \<lparr>lastStrategy = [], streamHandle = Some exHandle\<rparr>) 1 2 exFs (Inr [1, 2]) h g"
proof -
  obtain h' s' where r: "read_at exContent exHandle 1 2 exSys (Inr [1, 2]) h' s'" using ex_read by blast
  show ?thesis
    by (intro exI, rule er_stream [OF _ _ _ _ r, where now = 0 and elapsed = 0])
      (auto simp: readOutcome_def)
qed

end
