(* ===== verification/Playback.thy ===== *)
theory Playback
  imports GoPath RemoteRead
begin

text \<open>
  The playback proxy (\<open>internal/app/playback.go\<close>): one remote file served over HTTP, with byte ranges.

  A response is its status, the header map with the last value set per name, and the bytes of the body. The
  remote reader is an argument, its answer by the number of the call, the offset and the length; so is the
  connection, which says which write fails. \<open>mime.TypeByExtension\<close> reads tables of the machine and is an
  argument, as is the redirect \<open>http.ServeMux\<close> answers an unclean path with. The laws say which range each form of the
  header asks for, and that its bytes are sent when the answers come from \<open>ReadRange\<close> of the remote reader. The answers to a bad method, path or range are the texts of \<open>http.Error\<close> and \<open>http.NotFound\<close>.
\<close>

section \<open>Ranges\<close>

datatype rangeError = NotSatisfiable | BadRange string

definition unsupportedRange :: "string \<Rightarrow> rangeError" where
  "unsupportedRange header = BadRange (''unsupported range header: '' @ header)"

definition invalidRange :: "string \<Rightarrow> rangeError" where
  "invalidRange header = BadRange (''invalid range header: '' @ header)"

text \<open>The part of \<open>parseHTTPRange\<close> after the split at the first minus sign.\<close>

definition rangeParts :: "string \<Rightarrow> int \<Rightarrow> string \<Rightarrow> string \<Rightarrow> rangeError + int \<times> int \<times> bool" where
  "rangeParts header sz first rest =
     (if first = [] then
        (case ParseInt rest of
           None \<Rightarrow> Inl (invalidRange header)
         | Some tail \<Rightarrow>
             if tail \<le> 0 then Inl (invalidRange header)
             else let n = (if 0 \<le> sz \<and> sz < tail then sz else tail) in
               if 0 \<le> sz then Inr (sz - n, sz - 1, True) else Inl NotSatisfiable)
      else case ParseInt first of
        None \<Rightarrow> Inl (invalidRange header)
      | Some start \<Rightarrow>
          if start < 0 then Inl (invalidRange header)
          else if rest = [] then
            (if sz < 0 then Inr (start, - 1, True)
             else if sz \<le> start then Inl NotSatisfiable
             else Inr (start, sz - 1, True))
          else case ParseInt rest of
            None \<Rightarrow> Inl (invalidRange header)
          | Some stop \<Rightarrow>
              if stop < start then Inl (invalidRange header)
              else if 0 \<le> sz \<and> sz \<le> start then Inl NotSatisfiable
              else Inr (start, if 0 \<le> sz \<and> sz \<le> stop then sz - 1 else stop, True))"

definition parseHTTPRange :: "string \<Rightarrow> int \<Rightarrow> rangeError + int \<times> int \<times> bool" where
  "parseHTTPRange header sz =
     (if header = [] then (if 0 < sz then Inr (0, sz - 1, False) else Inr (0, - 1, False))
      else if \<not> HasPrefix header ''bytes='' then Inl (unsupportedRange header)
      else let spec = TrimSpace (TrimPrefix header ''bytes='') in
        if spec = [] \<or> Contains spec '','' then Inl (unsupportedRange header)
        else case SplitN2 CHR ''-'' spec of
          [first, rest] \<Rightarrow> rangeParts header sz first rest
        | _ \<Rightarrow> Inl (invalidRange header))"

section \<open>Writing a range\<close>

abbreviation playbackChunk :: int where
  "playbackChunk \<equiv> 4194304"

lemma remaining_step:
  assumes "0 < l" "l < 2 ^ 63" "0 < i64 (s - off + 1)"
  shows "i64 (s - i64 (off + l) + 1) = i64 (s - off + 1) - l"
proof -
  have m: "i64 x mod 2 ^ 64 = x mod 2 ^ 64" for x by (simp add: i64_def mod_simps)
  have eq: "i64 x = i64 y" if "x mod 2 ^ 64 = y mod 2 ^ 64" for x y
    using mod_add_cong [OF that, of "2 ^ 63" "2 ^ 63"] by (simp add: i64_def)
  have "(s - i64 (off + l) + 1) mod 2 ^ 64 = (s - (off + l) + 1) mod 2 ^ 64"
    using m [of "off + l"] by (metis (no_types, lifting) mod_add_left_eq mod_diff_right_eq)
  also have "\<dots> = (i64 (s - off + 1) - l) mod 2 ^ 64"
    using m [of "s - off + 1"] by (metis (no_types, lifting) add.commute diff_add_eq diff_diff_add mod_diff_left_eq)
  finally have "i64 (s - i64 (off + l) + 1) = i64 (i64 (s - off + 1) - l)" by (rule eq)
  moreover have "i64 (i64 (s - off + 1) - l) = i64 (s - off + 1) - l"
    using assms i64_in_range [of "s - off + 1"] by (intro i64_id) (auto simp: in_i64_def)
  ultimately show ?thesis by simp
qed

text \<open>
  The loop of \<open>writePlaybackRange\<close>: \<open>i\<close> counts the calls of the reader and of the connection, \<open>acc\<close> holds what was
  written. The offsets are 64-bit: near the end of their range \<open>remaining\<close> wraps around, and the loop reads on at an offset
  that wraps as well. A slice has less than \<open>2 ^ 63\<close> bytes, and with that the loop ends.
\<close>

function playLoop ::
  "(nat \<Rightarrow> int \<Rightarrow> int \<Rightarrow> goerr + bytes) \<Rightarrow> (nat \<Rightarrow> goerr option) \<Rightarrow> int \<Rightarrow> int \<Rightarrow> nat \<Rightarrow> int \<Rightarrow> bytes \<Rightarrow> bytes \<times> goerr option" where
  "playLoop rd wr sz stop i offset acc =
     (let remaining = i64 (stop - offset + 1) in
      if remaining \<le> 0 then (acc, None)
      else let want = min playbackChunk remaining in
        case rd i offset want of
          Inl e \<Rightarrow> (acc, Some e)
        | Inr d \<Rightarrow>
            if d = [] \<or> 2 ^ 63 \<le> len d then (acc, None)
            else case wr i of
              Some e \<Rightarrow> (acc, Some e)
            | None \<Rightarrow>
                if sz < 0 \<and> len d < want then (acc @ d, None)
                else playLoop rd wr sz stop (i + 1) (i64 (offset + len d)) (acc @ d))"
  by pat_completeness auto
termination
proof (relation "measure (\<lambda>(rd, wr, sz, stop, i, offset, acc). nat (i64 (stop - offset + 1)))", goal_cases)
  case (2 rd wr sz stop i offset acc remaining want d)
  then show ?case using remaining_step [of "len d" stop offset] by (auto simp: neq_Nil_conv)
qed simp

declare playLoop.simps [simp del]

definition writePlaybackRange ::
  "(nat \<Rightarrow> int \<Rightarrow> int \<Rightarrow> goerr + bytes) \<Rightarrow> (nat \<Rightarrow> goerr option) \<Rightarrow> int \<Rightarrow> int \<Rightarrow> int \<Rightarrow> bytes \<times> goerr option" where
  "writePlaybackRange rd wr sz start stop =
     (if 0 \<le> sz \<and> sz \<le> start then ([], None)
      else let stop1 = (if 0 \<le> sz \<and> sz \<le> stop then sz - 1 else stop) in
        if stop1 < 0 then ([], None)
        else playLoop rd wr sz (if sz < 0 then i64 (start + playbackChunk - 1) else stop1) 0 start [])"

section \<open>The handler\<close>

record response =
  rsStatus :: int
  rsHeader :: "string \<rightharpoonup> string"
  rsBody :: bytes

record playRequest =
  prMethod :: string
  prPath :: string
  prRange :: string

definition textBytes :: "string \<Rightarrow> bytes" where
  "textBytes s = map (\<lambda>c. word_of_nat (of_char c)) s"

definition http_Error :: "string \<Rightarrow> int \<Rightarrow> (string \<rightharpoonup> string) \<Rightarrow> response" where
  "http_Error msg code h =
     \<lparr>rsStatus = code,
      rsHeader = h(''Content-Length'' := None, ''Content-Type'' \<mapsto> ''text/plain; charset=utf-8'',
                   ''X-Content-Type-Options'' \<mapsto> ''nosniff''),
      rsBody = textBytes (msg @ [CHR 0x0A])\<rparr>"

definition fileHeaders :: "(string \<Rightarrow> string) \<Rightarrow> string \<Rightarrow> int \<Rightarrow> string \<rightharpoonup> string" where
  "fileHeaders typeOf name sz =
     (let h = [''Content-Type'' \<mapsto> (if typeOf name = [] then ''application/octet-stream'' else typeOf name),
               ''Accept-Ranges'' \<mapsto> ''bytes'']
      in if 0 \<le> sz then h(''Content-Length'' \<mapsto> FormatInt sz) else h)"

definition rangeHeaders :: "int \<Rightarrow> int \<Rightarrow> int \<Rightarrow> bool \<Rightarrow> (string \<rightharpoonup> string) \<Rightarrow> string \<rightharpoonup> string" where
  "rangeHeaders sz start stop partial h =
     (if partial
      then (if 0 \<le> sz
            then h(''Content-Range'' \<mapsto> ''bytes '' @ FormatInt start @ ''-'' @ FormatInt stop @ ''/'' @ FormatInt sz,
                   ''Content-Length'' \<mapsto> FormatInt (stop - start + 1))
            else h)
      else if 0 \<le> sz \<and> start = 0 \<and> 0 \<le> stop then h(''Content-Length'' \<mapsto> FormatInt (stop - start + 1)) else h)"

definition servePlaybackFile ::
  "bool \<Rightarrow> (string \<Rightarrow> string) \<Rightarrow> (nat \<Rightarrow> int \<Rightarrow> int \<Rightarrow> goerr + bytes) \<Rightarrow> (nat \<Rightarrow> goerr option) \<Rightarrow>
   playRequest \<Rightarrow> string \<Rightarrow> int \<Rightarrow> response" where
  "servePlaybackFile hasRemote typeOf rd wr req name sz =
     (if \<not> hasRemote then http_Error ''remote reader is required'' 500 Map.empty
      else if prMethod req \<noteq> ''GET'' \<and> prMethod req \<noteq> ''HEAD''
      then http_Error ''method not allowed'' 405 [''Allow'' \<mapsto> ''GET, HEAD'']
      else let h = fileHeaders typeOf name sz in
        if prMethod req = ''HEAD'' then \<lparr>rsStatus = 200, rsHeader = h, rsBody = []\<rparr>
        else case parseHTTPRange (prRange req) sz of
          Inl NotSatisfiable \<Rightarrow>
            http_Error ''requested range not satisfiable'' 416
              (if 0 \<le> sz then h(''Content-Range'' \<mapsto> ''bytes */'' @ FormatInt sz) else h)
        | Inl (BadRange msg) \<Rightarrow> http_Error msg 400 h
        | Inr (start, stop, partial) \<Rightarrow>
            \<lparr>rsStatus = (if partial then 206 else 200), rsHeader = rangeHeaders sz start stop partial h,
             rsBody = fst (writePlaybackRange rd wr sz start stop)\<rparr>)"

text \<open>
  The multiplexer sends a request with another than the cleaned path away, with a permanent redirect to that path; the
  redirect itself is an argument.
\<close>

definition muxCleanPath :: "string \<Rightarrow> string" where
  "muxCleanPath p =
     (if p = [] then ''/''
      else let q = (if hd p = CHR ''/'' then p else CHR ''/'' # p); np = Clean q in
        if last q = CHR ''/'' \<and> np \<noteq> ''/'' then np @ ''/'' else np)"

definition playbackHandler ::
  "(string \<Rightarrow> response) \<Rightarrow> bool \<Rightarrow> (string \<Rightarrow> string) \<Rightarrow> (nat \<Rightarrow> int \<Rightarrow> int \<Rightarrow> goerr + bytes) \<Rightarrow> (nat \<Rightarrow> goerr option) \<Rightarrow>
   playRequest \<Rightarrow> string \<Rightarrow> int \<Rightarrow> response" where
  "playbackHandler redirect hasRemote typeOf rd wr req name sz =
     (if prMethod req \<noteq> ''CONNECT'' \<and> muxCleanPath (prPath req) \<noteq> prPath req then redirect (muxCleanPath (prPath req))
      else if prPath req \<noteq> ''/'' then http_Error ''404 page not found'' 404 Map.empty
      else servePlaybackFile hasRemote typeOf rd wr req name sz)"

section \<open>The ranges that are asked for\<close>

text \<open>
  The forms of a single range: no header, \<open>bytes=a-b\<close>, \<open>bytes=a-\<close> and \<open>bytes=-n\<close>; and the range of a file of a known size
  each asks for, with both ends included. The last \<open>n\<close> bytes of a shorter file are the file.
\<close>

datatype rangeAsk = AskAll | AskSlice int int | AskFrom int | AskLast int

fun askHeader :: "rangeAsk \<Rightarrow> string" where
  "askHeader AskAll = []"
| "askHeader (AskSlice a b) = ''bytes='' @ FormatInt a @ ''-'' @ FormatInt b"
| "askHeader (AskFrom a) = ''bytes='' @ FormatInt a @ ''-''"
| "askHeader (AskLast n) = ''bytes=-'' @ FormatInt n"

fun ask_ok :: "rangeAsk \<Rightarrow> bool" where
  "ask_ok AskAll = True"
| "ask_ok (AskSlice a b) = (0 \<le> a \<and> a < 2 ^ 63 \<and> 0 \<le> b \<and> b < 2 ^ 63)"
| "ask_ok (AskFrom a) = (0 \<le> a \<and> a < 2 ^ 63)"
| "ask_ok (AskLast n) = (0 \<le> n \<and> n < 2 ^ 63)"

fun askAnswer :: "int \<Rightarrow> rangeAsk \<Rightarrow> rangeError + int \<times> int \<times> bool" where
  "askAnswer sz AskAll = Inr (0, sz - 1, False)"
| "askAnswer sz (AskSlice a b) =
     (if b < a then Inl (invalidRange (askHeader (AskSlice a b)))
      else if sz \<le> a then Inl NotSatisfiable else Inr (a, min b (sz - 1), True))"
| "askAnswer sz (AskFrom a) = (if sz \<le> a then Inl NotSatisfiable else Inr (a, sz - 1, True))"
| "askAnswer sz (AskLast n) =
     (if n = 0 then Inl (invalidRange (askHeader (AskLast n))) else Inr (max 0 (sz - n), sz - 1, True))"

lemma parse_spec:
  assumes "plain_text (s @ ''-'' @ t)" "CHR ''-'' \<notin> set s" "CHR '','' \<notin> set s" "CHR '','' \<notin> set t"
  shows "parseHTTPRange (''bytes='' @ s @ ''-'' @ t) sz = rangeParts (''bytes='' @ s @ ''-'' @ t) sz s t"
proof -
  have p: "HasPrefix (''bytes='' @ s @ ''-'' @ t) ''bytes=''" by (simp add: HasPrefix_def)
  have t: "TrimPrefix (''bytes='' @ s @ ''-'' @ t) ''bytes='' = s @ ''-'' @ t" by (rule TrimPrefix_append)
  have "SplitN2 CHR ''-'' (s @ ''-'' @ t) = [s, t]" using SplitN2_append [OF assms(2), of t] by simp
  then show ?thesis using assms p t unfolding parseHTTPRange_def by (simp add: Let_def del: TrimPrefix_append)
qed

text \<open>The parser reads each form as the range it asks for.\<close>

lemma parseHTTPRange_ask:
  assumes "ask_ok q" "0 \<le> sz"
  shows "parseHTTPRange (askHeader q) sz = askAnswer sz q"
proof (cases q)
  case AskAll
  then show ?thesis using assms(2) by (simp add: parseHTTPRange_def)
next
  case (AskSlice a b)
  then have n: "ParseInt (FormatInt a) = Some a" "ParseInt (FormatInt b) = Some b" "0 \<le> a"
    using assms(1) by (simp_all add: ParseInt_FormatInt in_i64_def)
  show ?thesis using parse_spec [of "FormatInt a" "FormatInt b" sz] n assms(2)
    by (simp add: AskSlice rangeParts_def)
next
  case (AskFrom a)
  then have n: "ParseInt (FormatInt a) = Some a" "0 \<le> a"
    using assms(1) by (simp_all add: ParseInt_FormatInt in_i64_def)
  show ?thesis using parse_spec [of "FormatInt a" "[]" sz] n assms(2)
    by (simp add: AskFrom rangeParts_def)
next
  case (AskLast k)
  then have n: "ParseInt (FormatInt k) = Some k" "0 \<le> k"
    using assms(1) by (simp_all add: ParseInt_FormatInt in_i64_def)
  show ?thesis using parse_spec [of "[]" "FormatInt k" sz] n assms(2)
    by (auto simp: AskLast rangeParts_def Let_def)
qed

section \<open>Correctness\<close>

lemma rangeParts_sound:
  assumes "rangeParts header sz first rest = Inr (a, b, p)" "0 \<le> sz"
  shows "0 \<le> a \<and> b < sz \<and> a \<le> b + 1 \<and> (b < a \<longrightarrow> sz = 0) \<and> p"
  using assms by (auto simp: rangeParts_def Let_def split: if_splits option.splits)

text \<open>With a known size, a range that is accepted lies in the file; it is empty for an empty file only.\<close>

lemma parseHTTPRange_sound:
  assumes "parseHTTPRange header sz = Inr (a, b, p)" "0 \<le> sz"
  shows "0 \<le> a \<and> b < sz \<and> a \<le> b + 1 \<and> (b < a \<longrightarrow> sz = 0) \<and> (p \<longrightarrow> header \<noteq> [])"
  using assms rangeParts_sound [of header sz _ _ a b p]
  by (auto simp: parseHTTPRange_def Let_def split: if_splits list.splits)

text \<open>
  What the handler needs of the reader: a range inside of the file is answered with its bytes, or refused. The remote
  reader gives that, with a concurrency of one: every answer is that of a \<open>ReadRange\<close> in some reachable state.
\<close>

definition exactReader :: "bytes \<Rightarrow> (nat \<Rightarrow> int \<Rightarrow> int \<Rightarrow> goerr + bytes) \<Rightarrow> bool" where
  "exactReader X rd \<longleftrightarrow> (\<forall>i off n d. 0 \<le> off \<longrightarrow> 0 < n \<longrightarrow> off + n \<le> len X \<longrightarrow> rd i off n = Inr d \<longrightarrow> d = bslice off (off + n) X)"

definition remoteAnswers :: "content \<Rightarrow> (cacheKey list \<Rightarrow> cacheKey list) \<Rightarrow> string \<Rightarrow> (nat \<Rightarrow> int \<Rightarrow> int \<Rightarrow> goerr + bytes) \<Rightarrow> bool" where
  "remoteAnswers c rng f rd \<longleftrightarrow>
     (\<forall>i off n d. rd i off n = Inr d \<longrightarrow>
        (\<exists>r r'. reachable rd_init (rd_step c) r \<and> rHasClient r \<and> concurrency r \<le> 1 \<and>
           RemoteRead.ReadRange c rng f off n r (Inr d) r'))"

lemma remoteAnswers_exact:
  assumes "remoteAnswers c rng f rd" "sized c" "\<And>ks. set (rng ks) = set ks"
  shows "exactReader (c f) rd"
  unfolding exactReader_def
proof (intro allI impI)
  fix i off n d
  assume b: "0 \<le> off" "0 < n" "off + n \<le> len (c f)" and "rd i off n = Inr d"
  then obtain r r' where r: "reachable rd_init (rd_step c) r" "rHasClient r" "concurrency r \<le> 1"
    "RemoteRead.ReadRange c rng f off n r (Inr d) r'"
    using assms(1) unfolding remoteAnswers_def by blast
  have "off + n < 2 ^ 62" using b(3) assms(2) le_less_trans unfolding sized_def by blast
  then show "d = bslice off (off + n) (c f)"
    using ReadRange_sound [OF r(4) remote.reachable_inv [OF r(1)] assms(2,3) r(2,3) b(1)] by blast
qed

lemma playLoop_exact:
  "exactReader X rd \<Longrightarrow> len X < 2 ^ 62 \<Longrightarrow> 0 \<le> sz \<Longrightarrow> stop < len X \<Longrightarrow> 0 \<le> offset \<Longrightarrow> offset \<le> stop + 1 \<Longrightarrow>
   \<exists>m. offset \<le> m \<and> m \<le> stop + 1 \<and> fst (playLoop rd wr sz stop i offset acc) = acc @ bslice offset m X \<and>
     (snd (playLoop rd wr sz stop i offset acc) = None \<longrightarrow> m = stop + 1)"
proof (induction rd wr sz stop i offset acc rule: playLoop.induct)
  case (1 rd wr sz stop i offset acc)
  let ?want = "min playbackChunk (stop - offset + 1)"
  have rem: "i64 (stop - offset + 1) = stop - offset + 1" using 1(3,5,6,7) by (intro i64_nonneg_id) auto
  note loop = playLoop.simps [of rd wr sz stop i offset acc, unfolded rem]
  have stay: ?case if "playLoop rd wr sz stop i offset acc = (acc, e)" "e = None \<longrightarrow> stop < offset" for e
    using that 1(7) by (intro exI [of _ offset]) auto
  show ?case
  proof (cases "stop - offset + 1 \<le> 0")
    case True
    then show ?thesis using loop by (intro stay) (auto simp: Let_def)
  next
    case False
    show ?thesis
    proof (cases "rd i offset ?want")
      case (Inl e)
      then show ?thesis using False loop by (intro stay) (auto simp: Let_def)
    next
      case (Inr d)
      have d: "d = bslice offset (offset + ?want) X"
        using 1(2,5,6) False Inr by (auto simp: exactReader_def min_def)
      have n: "len d = ?want" using 1(5,6) False by (simp add: d bslice_def)
      then have ne: "\<not> (d = [] \<or> 2 ^ 63 \<le> len d)" using False by auto
      show ?thesis
      proof (cases "wr i")
        case (Some e)
        then show ?thesis using False Inr ne loop by (intro stay) (auto simp: Let_def)
      next
        case None
        have o: "i64 (offset + len d) = offset + len d" using n 1(3,5,6) False by (intro i64_nonneg_id) auto
        have short: "\<not> (sz < 0 \<and> len d < ?want)" using 1(4) by simp
        have step: "playLoop rd wr sz stop i offset acc = playLoop rd wr sz stop (i + 1) (offset + len d) (acc @ d)"
          using False Inr ne None 1(4) loop o by (simp add: Let_def)
        have b: "0 \<le> offset + len d" "offset + len d \<le> stop + 1" using n 1(6) by linarith+
        obtain m where m: "offset + len d \<le> m" "m \<le> stop + 1"
          "fst (playLoop rd wr sz stop (i + 1) (offset + len d) (acc @ d)) = (acc @ d) @ bslice (offset + len d) m X"
          "snd (playLoop rd wr sz stop (i + 1) (offset + len d) (acc @ d)) = None \<longrightarrow> m = stop + 1"
          using 1(1) [unfolded rem, OF refl False refl Inr ne None short 1(2,3,4,5), unfolded o, OF b] by (elim exE conjE) (rule that)
        have "d @ bslice (offset + len d) m X = bslice offset m X"
          using bslice_append [of offset "offset + ?want" m X] m(1) 1(6) n False by (simp add: d[symmetric])
        then show ?thesis unfolding step using m n False
          by (intro exI [of _ m]) (auto simp: min_def split: if_splits)
      qed
    qed
  qed
qed

text \<open>The body that is sent: the range, or the part of it before an error.\<close>

lemma writePlaybackRange_exact:
  assumes "exactReader X rd" "sz = len X" "0 \<le> a" "b < sz" "a \<le> b + 1" "len X < 2 ^ 62"
  shows "prefix (fst (writePlaybackRange rd wr sz a b)) (bslice a (b + 1) X)"
    and "snd (writePlaybackRange rd wr sz a b) = None \<Longrightarrow> fst (writePlaybackRange rd wr sz a b) = bslice a (b + 1) X"
proof -
  have "\<exists>m. a \<le> m \<and> m \<le> b + 1 \<and> fst (writePlaybackRange rd wr sz a b) = bslice a m X \<and>
      (snd (writePlaybackRange rd wr sz a b) = None \<longrightarrow> m = b + 1)"
  proof (cases "b < a")
    case True
    then have "b - a + 1 = 0" using assms(5) by linarith
    then have "playLoop rd wr sz b 0 a [] = ([], None)" by (subst playLoop.simps) simp
    then have "writePlaybackRange rd wr sz a b = ([], None)"
      using assms(2,4) by (simp add: writePlaybackRange_def)
    then show ?thesis using assms(5) True by (intro exI [of _ a]) simp
  next
    case False
    then have "writePlaybackRange rd wr sz a b = playLoop rd wr sz b 0 a []"
      using assms(2-4) by (simp add: writePlaybackRange_def)
    then show ?thesis using playLoop_exact [OF assms(1,6), of sz b a wr 0 "[]"] assms(2-5) False by auto
  qed
  then obtain m where "a \<le> m \<and> m \<le> b + 1 \<and> fst (writePlaybackRange rd wr sz a b) = bslice a m X \<and>
    (snd (writePlaybackRange rd wr sz a b) = None \<longrightarrow> m = b + 1)" ..
  then have m: "a \<le> m" "m \<le> b + 1" "fst (writePlaybackRange rd wr sz a b) = bslice a m X"
    "snd (writePlaybackRange rd wr sz a b) = None \<longrightarrow> m = b + 1" by simp_all
  have "bslice a (b + 1) X = bslice a m X @ bslice m (b + 1) X"
    using bslice_append [of a m "b + 1" X] assms(3) m(1,2) by simp
  then show "prefix (fst (writePlaybackRange rd wr sz a b)) (bslice a (b + 1) X)" using m(3) by simp
  show "snd (writePlaybackRange rd wr sz a b) = None \<Longrightarrow> fst (writePlaybackRange rd wr sz a b) = bslice a (b + 1) X"
    using m by simp
qed

text \<open>The response to an accepted range: the body, the status and the headers.\<close>

definition served ::
  "(string \<Rightarrow> string) \<Rightarrow> (nat \<Rightarrow> int \<Rightarrow> int \<Rightarrow> goerr + bytes) \<Rightarrow> (nat \<Rightarrow> goerr option) \<Rightarrow> playRequest \<Rightarrow> string \<Rightarrow> bytes \<Rightarrow>
   int \<Rightarrow> int \<Rightarrow> bool \<Rightarrow> bool" where
  "served typeOf rd wr req name X a b p \<longleftrightarrow>
     (let resp = servePlaybackFile True typeOf rd wr req name (len X) in
      0 \<le> a \<and> b < len X \<and> a \<le> b + 1 \<and> (b < a \<longrightarrow> X = []) \<and> prefix (rsBody resp) (bslice a (b + 1) X) \<and>
      rsStatus resp = (if p then 206 else 200) \<and> rsHeader resp ''Content-Length'' = Some (FormatInt (b - a + 1)) \<and>
      (p \<longrightarrow> rsHeader resp ''Content-Range'' = Some (''bytes '' @ FormatInt a @ ''-'' @ FormatInt b @ ''/'' @ FormatInt (len X))) \<and>
      (snd (writePlaybackRange rd wr (len X) a b) = None \<longrightarrow> rsBody resp = bslice a (b + 1) X \<and> len (rsBody resp) = b - a + 1))"

lemma servePlaybackFile_exact:
  assumes "exactReader X rd" "len X < 2 ^ 62" "prMethod req = ''GET''" "parseHTTPRange (prRange req) (len X) = Inr (a, b, p)"
  shows "served typeOf rd wr req name X a b p"
proof -
  define resp where "resp = servePlaybackFile True typeOf rd wr req name (len X)"
  have r: "0 \<le> a" "b < len X" "a \<le> b + 1" "b < a \<longrightarrow> X = []" "p \<longrightarrow> prRange req \<noteq> []"
    using parseHTTPRange_sound [OF assms(4)] by auto
  have body: "rsBody resp = fst (writePlaybackRange rd wr (len X) a b)" and st: "rsStatus resp = (if p then 206 else 200)"
    and h: "rsHeader resp = rangeHeaders (len X) a b p (fileHeaders typeOf name (len X))"
    using assms(3,4) by (simp_all add: resp_def servePlaybackFile_def Let_def)
  have plain: "a = 0 \<and> b = len X - 1" if "\<not> p"
    using that assms(4) rangeParts_sound [of "prRange req" "len X" _ _ a b p]
    by (auto simp: parseHTTPRange_def Let_def split: if_splits list.splits)
  have "rsHeader resp ''Content-Length'' = Some (FormatInt (b - a + 1))"
    using plain by (auto simp: h rangeHeaders_def fileHeaders_def Let_def)
  moreover have "p \<longrightarrow> rsHeader resp ''Content-Range'' = Some (''bytes '' @ FormatInt a @ ''-'' @ FormatInt b @ ''/'' @ FormatInt (len X))"
    by (simp add: h rangeHeaders_def)
  moreover have "len (bslice a (b + 1) X) = b - a + 1" using r by (simp add: bslice_def)
  ultimately show ?thesis
    using r st body writePlaybackRange_exact [OF assms(1) refl r(1-3) assms(2), of wr]
    by (simp add: served_def resp_def [symmetric])
qed

lemma servePlaybackFile_refused:
  assumes "prMethod req = ''GET''" "parseHTTPRange (prRange req) sz = Inl e"
  shows "rsStatus (servePlaybackFile True typeOf rd wr req name sz) = (if e = NotSatisfiable then 416 else 400)"
  using assms by (cases e) (simp_all add: servePlaybackFile_def http_Error_def Let_def)

end
