(* ===== verification/Auth.thy ===== *)
theory Auth
  imports BaiduClient GoPath
begin

text \<open>
  Tokens and the OAuth flow (\<open>internal/auth\<close>): the token file, the callback server, and the exchange of a code
  for a token.

  A token file is a file system from paths to bytes; which system call fails is the argument \<open>save_env\<close>. The
  text form of a token (\<open>encoding/json\<close>) and the two decoders of a token response are arguments. The callback
  server is a state machine: \<open>osResult\<close> is the channel with room for one code, \<open>osDone\<close> the closed channel.
  Where a \<open>select\<close> has more than one case ready, an argument chooses.
\<close>

section \<open>Tokens\<close>

record Token =
  tkAccess :: string
  tkRefresh :: string

record save_env =
  svMkdir :: "goerr option"
  svCreate :: "goerr option"
  svTemp :: string
  svChmod :: "goerr option"
  svWrite :: "goerr option"
  svWritten :: nat
  svSync :: "goerr option"
  svClose :: "goerr option"
  svRename :: "goerr option"
  svRemove :: "goerr option"

text \<open>The deferred \<open>os.Remove\<close> of the temporary file, on every way out after it was created.\<close>

definition removeTemp :: "save_env \<Rightarrow> (string \<rightharpoonup> string) \<Rightarrow> string \<rightharpoonup> string" where
  "removeTemp env fs = (if svRemove env = None then fs(svTemp env := None) else fs)"

definition fileSave :: "save_env \<Rightarrow> string \<Rightarrow> string \<Rightarrow> (string \<rightharpoonup> string) \<Rightarrow> goerr option \<times> (string \<rightharpoonup> string)" where
  "fileSave env path d fs =
     (case svMkdir env of Some e \<Rightarrow> (Some e, fs) | None \<Rightarrow>
      case svCreate env of Some e \<Rightarrow> (Some e, fs) | None \<Rightarrow>
      let temp = svTemp env; fs0 = fs(temp \<mapsto> []) in
      case svChmod env of Some e \<Rightarrow> (Some e, removeTemp env fs0) | None \<Rightarrow>
      case svWrite env of Some e \<Rightarrow> (Some e, removeTemp env (fs0(temp \<mapsto> take (svWritten env) d))) | None \<Rightarrow>
      let fs1 = fs0(temp \<mapsto> d) in
      case svSync env of Some e \<Rightarrow> (Some e, removeTemp env fs1) | None \<Rightarrow>
      case svClose env of Some e \<Rightarrow> (Some e, removeTemp env fs1) | None \<Rightarrow>
      case svRename env of Some e \<Rightarrow> (Some e, removeTemp env fs1) | None \<Rightarrow>
      (None, removeTemp env (fs1(temp := None, path \<mapsto> d))))"

definition fileLoad :: "goerr \<Rightarrow> string \<Rightarrow> (string \<rightharpoonup> string) \<Rightarrow> goerr + string" where
  "fileLoad notFound path fs = (case fs path of None \<Rightarrow> Inl notFound | Some d \<Rightarrow> Inr d)"

definition SaveToken ::
  "(Token \<Rightarrow> goerr + string) \<Rightarrow> save_env \<Rightarrow> string option \<Rightarrow> Token \<Rightarrow> (string \<rightharpoonup> string) \<Rightarrow> goerr option \<times> (string \<rightharpoonup> string)" where
  "SaveToken marshal env store t fs =
     (case store of
        None \<Rightarrow> (Some (ErrText ''store is required''), fs)
      | Some path \<Rightarrow> (case marshal t of Inl e \<Rightarrow> (Some e, fs) | Inr d \<Rightarrow> fileSave env path d fs))"

definition LoadToken ::
  "(string \<Rightarrow> goerr + Token) \<Rightarrow> goerr \<Rightarrow> string option \<Rightarrow> (string \<rightharpoonup> string) \<Rightarrow> goerr + Token" where
  "LoadToken unmarshal notFound store fs =
     (case store of
        None \<Rightarrow> Inl (ErrText ''store is required'')
      | Some path \<Rightarrow> (case fileLoad notFound path fs of Inl e \<Rightarrow> Inl e | Inr d \<Rightarrow> unmarshal d))"

definition MarshalToken ::
  "(Token \<Rightarrow> goerr + string) \<Rightarrow> (string \<Rightarrow> goerr + Token) \<Rightarrow> goerr \<Rightarrow> string option \<Rightarrow> (string \<rightharpoonup> string) \<Rightarrow> goerr + string" where
  "MarshalToken marshal unmarshal notFound store fs =
     (case LoadToken unmarshal notFound store fs of Inl e \<Rightarrow> Inl e | Inr t \<Rightarrow> marshal t)"

section \<open>Authorisation URL\<close>

record OAuthConfig =
  oaClientID :: string
  oaClientSecret :: string
  oaRedirectURI :: string
  oaScope :: string
  oaState :: string
  oaTokenBaseURL :: string
  oaAuthorizeBaseURL :: string

text \<open>\<open>url.QueryEscape\<close>, and \<open>Values.Encode\<close> of values given in the order of their keys.\<close>

definition hexDigit :: "nat \<Rightarrow> char" where
  "hexDigit n = (if n < 10 then char_of (48 + n) else char_of (55 + n))"

definition unreserved :: "char \<Rightarrow> bool" where
  "unreserved c \<longleftrightarrow> (let n = (of_char c :: nat) in
     48 \<le> n \<and> n \<le> 57 \<or> 65 \<le> n \<and> n \<le> 90 \<or> 97 \<le> n \<and> n \<le> 122 \<or> c \<in> set ''-_.~'')"

definition escapeByte :: "char \<Rightarrow> string" where
  "escapeByte c =
     (if unreserved c then [c]
      else if c = CHR '' '' then ''+''
      else let n = (of_char c :: nat) in [CHR ''%'', hexDigit (n div 16), hexDigit (n mod 16)])"

definition QueryEscape :: "string \<Rightarrow> string" where
  "QueryEscape s = concat (map escapeByte s)"

definition Encode :: "(string \<times> string) list \<Rightarrow> string" where
  "Encode values = JoinWith CHR ''&'' (map (\<lambda>(k, v). QueryEscape k @ ''='' @ QueryEscape v) values)"

definition authorizeValues :: "OAuthConfig \<Rightarrow> (string \<times> string) list" where
  "authorizeValues cfg =
     [(''client_id'', oaClientID cfg), (''redirect_uri'', oaRedirectURI cfg), (''response_type'', ''code'')] @
     (if oaScope cfg \<noteq> [] then [(''scope'', oaScope cfg)] else []) @
     (if oaState cfg \<noteq> [] then [(''state'', oaState cfg)] else [])"

definition BuildAuthorizeURL :: "OAuthConfig \<Rightarrow> goerr + string" where
  "BuildAuthorizeURL cfg =
     (if oaClientID cfg = [] then Inl (ErrText ''client id is required'')
      else if oaRedirectURI cfg = [] then Inl (ErrText ''redirect uri is required'')
      else Inr ((if oaAuthorizeBaseURL cfg = [] then ''https://openapi.baidu.com/oauth/2.0/authorize''
                 else oaAuthorizeBaseURL cfg) @ ''?'' @ Encode (authorizeValues cfg)))"

section \<open>The callback server\<close>

record OAuthServer =
  osCfg :: OAuthConfig
  osHasManager :: bool
  osStarted :: bool
  osResult :: "string option"
  osDone :: bool

text \<open>\<open>randomState\<close> is the hexadecimal text of 32 random bytes.\<close>

definition NewOAuthServer :: "string \<Rightarrow> OAuthConfig \<Rightarrow> bool \<Rightarrow> OAuthServer" where
  "NewOAuthServer randomState cfg hasManager =
     \<lparr>osCfg = cfg\<lparr>oaState := (if oaState cfg = [] then randomState else oaState cfg @ ''-'' @ randomState)\<rparr>,
      osHasManager = hasManager, osStarted = False, osResult = None, osDone = False\<rparr>"

definition AuthorizeURL :: "OAuthServer \<Rightarrow> goerr + string" where
  "AuthorizeURL s = BuildAuthorizeURL (osCfg s)"

definition Start :: "goerr option \<Rightarrow> OAuthServer \<Rightarrow> goerr option \<times> OAuthServer" where
  "Start listenErr s =
     (if \<not> osHasManager s then (Some (ErrText ''manager is required''), s)
      else (listenErr, s\<lparr>osStarted := True\<rparr>))"

text \<open>\<open>Wait\<close>: \<open>None\<close> while it blocks.\<close>

definition Wait :: "bool \<Rightarrow> OAuthServer \<Rightarrow> ((goerr + string) \<times> OAuthServer) option" where
  "Wait preferDone s =
     (case osResult s of
        Some code \<Rightarrow> if osDone s \<and> preferDone then Some (Inl (ErrText ''oauth server closed''), s)
                     else Some (Inr code, s\<lparr>osResult := None\<rparr>)
      | None \<Rightarrow> if osDone s then Some (Inl (ErrText ''oauth server closed''), s) else None)"

definition ShutdownOAuth :: "OAuthServer \<Rightarrow> OAuthServer" where
  "ShutdownOAuth s = s\<lparr>osDone := True\<rparr>"

definition sendResult :: "bool \<Rightarrow> string \<Rightarrow> OAuthServer \<Rightarrow> bool \<times> OAuthServer" where
  "sendResult preferDone code s =
     (if osResult s = None \<and> \<not> (osDone s \<and> preferDone) then (True, s\<lparr>osResult := Some code\<rparr>)
      else (\<not> osDone s, s))"

text \<open>The status and the text of the answer. \<open>query\<close> is \<open>r.URL.Query().Get\<close>.\<close>

definition handleCallback :: "bool \<Rightarrow> (string \<Rightarrow> string) \<Rightarrow> OAuthServer \<Rightarrow> (int \<times> string) \<times> OAuthServer" where
  "handleCallback preferDone query s =
     (if query ''state'' \<noteq> oaState (osCfg s) then ((400, ''state mismatch''), s)
      else if query ''code'' = [] then ((400, ''missing code''), s)
      else case sendResult preferDone (query ''code'') s of
        (False, s1) \<Rightarrow> ((410, ''oauth server closed''), s1)
      | (True, s1) \<Rightarrow> ((200, ''authorization received''), s1))"

section \<open>Exchange of the code\<close>

record OAuthTokenResponse =
  otAccessToken :: string
  otRefreshToken :: string

type_synonym tokenDecoder = "string \<Rightarrow> OAuthTokenResponse \<Rightarrow> goerr option \<times> OAuthTokenResponse"

definition exchangeValues :: "OAuthConfig \<Rightarrow> string \<Rightarrow> (string \<times> string) list" where
  "exchangeValues cfg code =
     [(''client_id'', oaClientID cfg), (''client_secret'', oaClientSecret cfg), (''code'', code),
      (''grant_type'', ''authorization_code''), (''redirect_uri'', oaRedirectURI cfg)]"

text \<open>XML is tried on what JSON left of the response when JSON fails.\<close>

definition decodeToken :: "tokenDecoder \<Rightarrow> tokenDecoder \<Rightarrow> string \<Rightarrow> goerr + OAuthTokenResponse" where
  "decodeToken json xml body =
     (let empty = \<lparr>otAccessToken = [], otRefreshToken = []\<rparr> in
      case json body empty of
        (None, out) \<Rightarrow> Inr out
      | (Some _, out) \<Rightarrow> (case xml body out of (None, out') \<Rightarrow> Inr out' | (Some e, _) \<Rightarrow> Inl e))"

definition ExchangeToken ::
  "tokenDecoder \<Rightarrow> tokenDecoder \<Rightarrow> (string \<Rightarrow> goerr + int \<times> (goerr + string)) \<Rightarrow> OAuthConfig \<Rightarrow> string \<Rightarrow> goerr + Token" where
  "ExchangeToken json xml http_get cfg code =
     (if oaClientID cfg = [] then Inl (ErrText ''client id is required'')
      else if oaClientSecret cfg = [] then Inl (ErrText ''client secret is required'')
      else if oaRedirectURI cfg = [] then Inl (ErrText ''redirect uri is required'')
      else
        let base = (if oaTokenBaseURL cfg = [] then ''https://openapi.baidu.com/oauth/2.0/token'' else oaTokenBaseURL cfg) in
        case http_get (base @ ''?'' @ Encode (exchangeValues cfg code)) of
          Inl e \<Rightarrow> Inl e
        | Inr (status, Inl e) \<Rightarrow> Inl e
        | Inr (status, Inr body) \<Rightarrow>
            if 400 \<le> status then Inl (ErrText (''token exchange failed: '' @ TrimSpace body))
            else case decodeToken json xml body of
              Inl e \<Rightarrow> Inl e
            | Inr out \<Rightarrow>
                if otAccessToken out = [] then Inl (ErrText ''missing access token'')
                else Inr \<lparr>tkAccess = otAccessToken out, tkRefresh = otRefreshToken out\<rparr>)"

text \<open>\<open>codeOf\<close> is the parsed URL's \<open>Query().Get("code")\<close>, or the error of the parser.\<close>

definition ExchangeTokenFromCallback :: "(string \<Rightarrow> goerr + string) \<Rightarrow> string \<Rightarrow> goerr + Token" where
  "ExchangeTokenFromCallback codeOf rawurl =
     (case codeOf rawurl of
        Inl e \<Rightarrow> Inl e
      | Inr code \<Rightarrow> if code = [] then Inl (ErrText ''missing code'') else Inr \<lparr>tkAccess = code, tkRefresh = code\<rparr>)"

definition SaveOAuthTokenFromCallback ::
  "(string \<Rightarrow> goerr + string) \<Rightarrow> (string \<Rightarrow> goerr + Token) \<Rightarrow> (Token \<Rightarrow> (string \<rightharpoonup> string) \<Rightarrow> goerr option \<times> (string \<rightharpoonup> string)) \<Rightarrow>
   string \<Rightarrow> (string \<rightharpoonup> string) \<Rightarrow> goerr option \<times> (string \<rightharpoonup> string)" where
  "SaveOAuthTokenFromCallback codeOf exchange save rawurl fs =
     (case codeOf rawurl of
        Inl e \<Rightarrow> (Some e, fs)
      | Inr code \<Rightarrow>
          if code = [] then (Some (ErrText ''missing code''), fs)
          else (case exchange code of Inl e \<Rightarrow> (Some e, fs) | Inr t \<Rightarrow> save t fs))"

section \<open>Laws\<close>

text \<open>A token file is replaced whole or not at all, whichever system call fails.\<close>

lemma fileSave_atomic:
  "svTemp env \<noteq> path \<Longrightarrow> snd (fileSave env path d fs) path = (if fst (fileSave env path d fs) = None then Some d else fs path)"
  by (auto simp: fileSave_def removeTemp_def Let_def split: option.splits)

lemma fileSave_others:
  "q \<noteq> path \<Longrightarrow> q \<noteq> svTemp env \<Longrightarrow> snd (fileSave env path d fs) q = fs q"
  by (auto simp: fileSave_def removeTemp_def Let_def split: option.splits)

lemma SaveToken_LoadToken:
  assumes "\<And>d. marshal t = Inr d \<Longrightarrow> unmarshal d = Inr t" "svTemp env \<noteq> path"
    and "SaveToken marshal env (Some path) t fs = (None, fs')"
  shows "LoadToken unmarshal notFound (Some path) fs' = Inr t"
proof -
  obtain d where d: "marshal t = Inr d" "fileSave env path d fs = (None, fs')"
    using assms(3) by (auto simp: SaveToken_def split: sum.splits)
  then have "fs' path = Some d" using fileSave_atomic [OF assms(2), of d fs] by simp
  then show ?thesis using assms(1) d(1) by (simp add: LoadToken_def fileLoad_def)
qed

text \<open>
  The steps of the callback server: a callback with the state and code of its query and the status it was answered
  with, a \<open>Wait\<close> that hands out a code, and steps nothing leaves the server by.
\<close>

datatype oauthEvent = Callback string string int | Handed string | Quiet

inductive oauth_step :: "OAuthServer \<Rightarrow> oauthEvent \<Rightarrow> OAuthServer \<Rightarrow> bool" where
  os_callback: "handleCallback p query s = ((status, body), s') \<Longrightarrow>
    oauth_step s (Callback (query ''state'') (query ''code'') status) s'"
| os_wait: "Wait p s = Some (Inr code, s') \<Longrightarrow> oauth_step s (Handed code) s'"
| os_fail: "Wait p s = Some (Inl e, s') \<Longrightarrow> oauth_step s Quiet s'"
| os_start: "Start e s = (r, s') \<Longrightarrow> oauth_step s Quiet s'"
| os_shutdown: "oauth_step s Quiet (ShutdownOAuth s)"

inductive oauth_run :: "OAuthServer \<Rightarrow> oauthEvent list \<Rightarrow> OAuthServer \<Rightarrow> bool" where
  or_done: "oauth_run s [] s"
| or_step: "oauth_run s es t \<Longrightarrow> oauth_step t ev u \<Longrightarrow> oauth_run s (es @ [ev]) u"

text \<open>How often a code was accepted with the state of the server, and how often it was handed out.\<close>

definition accepted :: "string \<Rightarrow> string \<Rightarrow> oauthEvent list \<Rightarrow> nat" where
  "accepted state code es = length (filter (\<lambda>ev. ev = Callback state code 200) es)"

definition handed :: "string \<Rightarrow> oauthEvent list \<Rightarrow> nat" where
  "handed code es = length (filter (\<lambda>ev. ev = Handed code) es)"

definition oauth_inv :: "string \<Rightarrow> oauthEvent list \<Rightarrow> OAuthServer \<Rightarrow> bool" where
  "oauth_inv state es s \<longleftrightarrow> oaState (osCfg s) = state \<and> osResult s \<noteq> Some [] \<and>
     (\<forall>code. handed code es + (if osResult s = Some code then 1 else 0) \<le> accepted state code es) \<and>
     handed [] es = 0"

lemma oauth_inv_quiet:
  assumes "oauth_inv state es s" "osCfg t = osCfg s" "osResult t = osResult s"
  shows "oauth_inv state (es @ [Quiet]) t"
proof -
  have "handed code (es @ [Quiet]) = handed code es" "accepted state code (es @ [Quiet]) = accepted state code es" for code
    by (simp_all add: handed_def accepted_def)
  then show ?thesis using assms by (simp add: oauth_inv_def)
qed

lemma oauth_step_inv:
  assumes "oauth_step s ev t" "oauth_inv state es s"
  shows "oauth_inv state (es @ [ev]) t"
  using assms(1)
proof cases
  case (os_callback p query status body)
  then consider (same) "t = s" "osResult t = osResult s"
    | (took) "t = s\<lparr>osResult := Some (query ''code'')\<rparr>" "osResult s = None" "query ''code'' \<noteq> []"
        "query ''state'' = oaState (osCfg s)" "status = 200"
    by (auto simp: handleCallback_def sendResult_def split: if_splits bool.splits)
  then show ?thesis
  proof cases
    case same
    have h: "handed code (es @ [ev]) = handed code es" "accepted state code es \<le> accepted state code (es @ [ev])" for code
      using os_callback(1) by (auto simp: handed_def accepted_def)
    have "handed code es + (if osResult s = Some code then 1 else 0) \<le> accepted state code (es @ [ev])" for code
      using assms(2) h(2) [of code] unfolding oauth_inv_def by (metis le_trans)
    then show ?thesis using assms(2) same(1) by (simp add: oauth_inv_def h(1))
  next
    case took
    then show ?thesis
      using assms(2) by (auto simp: os_callback(1) oauth_inv_def handed_def accepted_def)
  qed
next
  case (os_wait p code)
  have n: "osResult s = Some code" "t = s\<lparr>osResult := None\<rparr>" using os_wait(2) by (auto simp: Wait_def split: option.splits if_splits)
  then have "handed c es + (if c = code then 1 else 0) \<le> accepted state c es" for c
    using assms(2) by (auto simp: oauth_inv_def split: if_splits)
  then show ?thesis using assms(2) n by (auto simp: os_wait(1) oauth_inv_def handed_def accepted_def split: if_splits)
next
  case (os_fail p e)
  then have "t = s" by (auto simp: Wait_def split: option.splits if_splits)
  then show ?thesis using oauth_inv_quiet [OF assms(2)] os_fail(1) by simp
next
  case (os_start e r)
  then have "osCfg t = osCfg s" "osResult t = osResult s" by (auto simp: Start_def split: if_splits)
  then show ?thesis using oauth_inv_quiet [OF assms(2)] os_start(1) by simp
next
  case os_shutdown
  then show ?thesis using oauth_inv_quiet [OF assms(2)] by (simp add: ShutdownOAuth_def)
qed

lemma oauth_run_inv:
  "oauth_run s es t \<Longrightarrow> osResult s = None \<Longrightarrow> oauth_inv (oaState (osCfg s)) es t"
proof (induction rule: oauth_run.induct)
  case (or_done s)
  then show ?case by (simp add: oauth_inv_def handed_def accepted_def)
next
  case (or_step s es t ev u)
  then show ?case using oauth_step_inv by blast
qed

text \<open>Every code that is handed out was sent to the callback with the state of this server, once for each time.\<close>

lemma oauth_authentic:
  assumes "oauth_run s es t" "osResult s = None"
  shows "handed code es \<le> accepted (oaState (osCfg s)) code es" "Handed code \<in> set es \<Longrightarrow> code \<noteq> []"
proof -
  have inv: "oauth_inv (oaState (osCfg s)) es t" using oauth_run_inv [OF assms] .
  then have "handed code es + (if osResult t = Some code then 1 else 0) \<le> accepted (oaState (osCfg s)) code es"
    unfolding oauth_inv_def by blast
  then show "handed code es \<le> accepted (oaState (osCfg s)) code es" by linarith
  show "code \<noteq> []" if "Handed code \<in> set es"
    using inv that by (auto simp: oauth_inv_def handed_def filter_empty_conv)
qed

end
