(* ===== verification/AppConfig.thy ===== *)
theory AppConfig
  imports Auth GoPath MetaStore RemoteReader StreamManager
begin

text \<open>
  Configuration and start of the program: \<open>internal/config/config.go\<close>, and the construction of the
  application in \<open>internal/app/app.go\<close> (\<open>New\<close>, \<open>bindRemoteClient\<close>). The environment is a function from names to
  texts (\<open>os.Getenv\<close>: empty if unset); the table of groups and the file system are arguments.
\<close>

section \<open>Package config\<close>

record AppConfig =
  MountPath :: string
  RemoteRootPath :: string
  TokenPath :: string
  MetaDBPath :: string
  FuseGroupName :: string
  FuseTraceReads :: bool
  EnableDelete :: bool
  DownloadConcurrency :: int
  DownloadChunkSize :: int
  StreamChunkSize :: int
  StreamWorkers :: int
  StreamLowWatermark :: int
  StreamTargetBuffer :: int
  StreamBackBuffer :: int
  StreamMemoryCache :: int
  StreamDiskCache :: int
  StreamCachePath :: string
  StreamHedge :: bool
  ClientID :: string
  ClientSecret :: string
  RedirectURI :: string
  OAuthListenAddr :: string
  OAuthScope :: string
  OAuthState :: string
  AuthorizeBaseURL :: string
  TokenBaseURL :: string
  APIBaseURL :: string

definition parsePositive :: "string \<Rightarrow> int \<Rightarrow> int" where
  "parsePositive value fallback =
     (if value = [] then fallback
      else case ParseInt value of None \<Rightarrow> fallback | Some n \<Rightarrow> if 0 < n then n else fallback)"

definition parseNonNegativeInt64 :: "string \<Rightarrow> int \<Rightarrow> int" where
  "parseNonNegativeInt64 value fallback =
     (if value = [] then fallback
      else case ParseInt value of None \<Rightarrow> fallback | Some n \<Rightarrow> if 0 \<le> n then n else fallback)"

definition parseBool :: "string \<Rightarrow> bool" where
  "parseBool value \<longleftrightarrow> value \<in> {''1'', ''true'', ''TRUE'', ''yes'', ''YES'', ''on'', ''ON''}"

definition parseBoolDefault :: "string \<Rightarrow> bool \<Rightarrow> bool" where
  "parseBoolDefault value fallback = (if value = [] then fallback else parseBool value)"

definition Load :: "(string \<Rightarrow> string) \<Rightarrow> AppConfig" where
  "Load env =
     \<lparr>MountPath = env ''BAIDUDISKLINK_MOUNT_PATH'',
      RemoteRootPath = env ''BAIDUDISKLINK_REMOTE_ROOT_PATH'',
      TokenPath = env ''BAIDUDISKLINK_TOKEN_PATH'',
      MetaDBPath = env ''BAIDUDISKLINK_META_DB_PATH'',
      FuseGroupName = env ''BAIDUDISKLINK_FUSE_GROUP_NAME'',
      FuseTraceReads = parseBool (env ''BAIDUDISKLINK_FUSE_TRACE_READS''),
      EnableDelete = parseBool (env ''BAIDUDISKLINK_ENABLE_DELETE''),
      DownloadConcurrency = parsePositive (env ''BAIDUDISKLINK_DOWNLOAD_CONCURRENCY'') 1,
      DownloadChunkSize = parsePositive (env ''BAIDUDISKLINK_DOWNLOAD_CHUNK_SIZE'') (8 * MiB),
      StreamChunkSize = parsePositive (env ''BAIDUDISKLINK_STREAM_CHUNK_SIZE'') MiB,
      StreamWorkers = parsePositive (env ''BAIDUDISKLINK_STREAM_WORKERS'') 8,
      StreamLowWatermark = parsePositive (env ''BAIDUDISKLINK_STREAM_LOW_WATERMARK'') (128 * MiB),
      StreamTargetBuffer = parsePositive (env ''BAIDUDISKLINK_STREAM_TARGET_BUFFER'') (256 * MiB),
      StreamBackBuffer = parsePositive (env ''BAIDUDISKLINK_STREAM_BACK_BUFFER'') (32 * MiB),
      StreamMemoryCache = parsePositive (env ''BAIDUDISKLINK_STREAM_MEMORY_CACHE'') (320 * MiB),
      StreamDiskCache = parseNonNegativeInt64 (env ''BAIDUDISKLINK_STREAM_DISK_CACHE'') (2048 * MiB),
      StreamCachePath = env ''BAIDUDISKLINK_STREAM_CACHE_PATH'',
      StreamHedge = parseBoolDefault (env ''BAIDUDISKLINK_STREAM_HEDGE'') True,
      ClientID = env ''BAIDUDISKLINK_CLIENT_ID'',
      ClientSecret = env ''BAIDUDISKLINK_CLIENT_SECRET'',
      RedirectURI = env ''BAIDUDISKLINK_REDIRECT_URI'',
      OAuthListenAddr = env ''BAIDUDISKLINK_OAUTH_LISTEN_ADDR'',
      OAuthScope = env ''BAIDUDISKLINK_OAUTH_SCOPE'',
      OAuthState = env ''BAIDUDISKLINK_OAUTH_STATE'',
      AuthorizeBaseURL = env ''BAIDUDISKLINK_AUTHORIZE_BASE_URL'',
      TokenBaseURL = env ''BAIDUDISKLINK_TOKEN_BASE_URL'',
      APIBaseURL = env ''BAIDUDISKLINK_API_BASE_URL''\<rparr>"

section \<open>Parts of New\<close>

definition normalizeRemoteRootPath :: "string \<Rightarrow> string" where
  "normalizeRemoteRootPath value =
     (let v = TrimSpace value in
      if v = [] then ''/''
      else Clean (if HasPrefix v ''/'' then v else ''/'' @ v))"

definition checkConfig :: "AppConfig \<Rightarrow> goerr + AppConfig" where
  "checkConfig cfg =
     (if MountPath cfg = [] then Inl (ErrText ''mount path is required'')
      else let cfg1 = cfg\<lparr>RemoteRootPath := normalizeRemoteRootPath
                              (if RemoteRootPath cfg = [] then ''/Videos'' else RemoteRootPath cfg)\<rparr> in
        if TokenPath cfg = [] then Inl (ErrText ''token path is required'')
        else if MetaDBPath cfg = [] then Inl (ErrText ''metadata db path is required'')
        else if ClientID cfg = [] then Inl (ErrText ''client id is required'')
        else if RedirectURI cfg = [] then Inl (ErrText ''redirect uri is required'')
        else Inr cfg1)"

text \<open>\<open>strconv.ParseUint(s, 10, 32)\<close> with its errors.\<close>

definition ParseUint32 :: "string \<Rightarrow> goerr + int" where
  "ParseUint32 s =
     (let bad = (\<lambda>why. Inl (ErrText (''strconv.ParseUint: parsing '' @ Quote s @ '': '' @ why))) in
      case parse_nat s of
        None \<Rightarrow> bad ''invalid syntax''
      | Some n \<Rightarrow> if n < 2 ^ 32 then Inr (int n) else bad ''value out of range'')"

definition groupGID :: "(string \<Rightarrow> goerr + string) \<Rightarrow> string \<Rightarrow> goerr + int" where
  "groupGID lookupGroup name =
     (case ParseUint32 name of
        Inr gid \<Rightarrow> Inr gid
      | Inl _ \<Rightarrow>
          (case lookupGroup name of
             Inl e \<Rightarrow> Inl (ErrWrap (''lookup fuse group '' @ Quote name @ '': '') e)
           | Inr text \<Rightarrow>
               (case ParseUint32 text of
                  Inl e \<Rightarrow> Inl (ErrWrap (''parse gid for fuse group '' @ Quote name @ '': '') e)
                | Inr gid \<Rightarrow> Inr gid)))"

fun collectGIDs :: "(string \<Rightarrow> goerr + string) \<Rightarrow> string list \<Rightarrow> int list \<Rightarrow> goerr + int list" where
  "collectGIDs lookupGroup [] gs = Inr gs"
| "collectGIDs lookupGroup (part # parts) gs =
     (let name = TrimSpace part in
      if name = [] then collectGIDs lookupGroup parts gs
      else case groupGID lookupGroup name of
        Inl e \<Rightarrow> Inl e
      | Inr gid \<Rightarrow> collectGIDs lookupGroup parts (if gid \<in> set gs then gs else gs @ [gid]))"

definition resolveFuseGroupGIDs :: "(string \<Rightarrow> goerr + string) \<Rightarrow> string \<Rightarrow> goerr + int list" where
  "resolveFuseGroupGIDs lookupGroup name =
     (if name = [] then Inr [] else collectGIDs lookupGroup (Split CHR '','' name) [])"

definition sqliteDSN :: "string \<Rightarrow> string" where
  "sqliteDSN path =
     (if path = [] then []
      else if Contains path ''?'' then path @ ''&_pragma=busy_timeout(5000)&_pragma=journal_mode(WAL)''
      else path @ ''?_pragma=busy_timeout(5000)&_pragma=journal_mode(WAL)'')"

definition streamConfigOf :: "AppConfig \<Rightarrow> Config" where
  "streamConfigOf cfg =
     \<lparr>ChunkSize = StreamChunkSize cfg, ForwardGap = 0, SeekThreshold = 0, Workers = StreamWorkers cfg,
      LowWatermark = StreamLowWatermark cfg, TargetBuffer = StreamTargetBuffer cfg,
      BackBuffer = StreamBackBuffer cfg, MemoryCache = StreamMemoryCache cfg, DiskCache = StreamDiskCache cfg,
      CachePath = StreamCachePath cfg, Hedge = StreamHedge cfg, Diagnostics = FuseTraceReads cfg,
      HedgeMinDelay = 0, HedgeMaxDelay = 0, SessionWorkers = i64 (StreamWorkers cfg - 2), IdleReclaim = 0\<rparr>"

definition oauthConfigOf :: "AppConfig \<Rightarrow> OAuthConfig" where
  "oauthConfigOf cfg =
     \<lparr>oaClientID = ClientID cfg, oaClientSecret = ClientSecret cfg, oaRedirectURI = RedirectURI cfg,
      oaScope = OAuthScope cfg, oaState = OAuthState cfg, oaTokenBaseURL = TokenBaseURL cfg,
      oaAuthorizeBaseURL = AuthorizeBaseURL cfg\<rparr>"

text \<open>
  The database part: open, the root row, and the two expirations. Each statement has its own \<open>db_env\<close>.
\<close>

definition openStore :: "(nat \<Rightarrow> db_env) \<Rightarrow> int \<Rightarrow> string \<Rightarrow> table option \<Rightarrow> goerr + Store option" where
  "openStore env now root d =
     (case MetaStore.Open (env 0) d of Inl e \<Rightarrow> Inl e | Inr st \<Rightarrow>
      case EnsureRoot (env 1) now (Some st) of (Some e, _) \<Rightarrow> Inl e | (None, s1) \<Rightarrow>
      case ExpirePath (env 2) ''/'' s1 of (Some e, _) \<Rightarrow> Inl e | (None, s2) \<Rightarrow>
      case ExpirePath (env 3) root s2 of (Some e, _) \<Rightarrow> Inl e | (None, s3) \<Rightarrow> Inr s3)"

section \<open>The application\<close>

record App =
  apCfg :: AppConfig
  apFuseGIDs :: "int list"
  apStore :: "Store option"
  apRemote :: Reader
  apStream :: mgr
  apOAuth :: OAuthServer

record app_env =
  aeMkdir :: "nat \<Rightarrow> goerr option"
  aeDB :: "goerr + table option"
  aeDBEnv :: "nat \<Rightarrow> db_env"
  aeNow :: int
  aeGroups :: "string \<Rightarrow> goerr + string"
  aeOS :: os_env
  aeCacheMkdir :: "goerr option"
  aeCacheDir1 :: "goerr + dirEntry list"
  aeCacheDir2 :: "goerr + dirEntry list"
  aeFiles :: "string \<rightharpoonup> bytes"
  aeRandom :: string

fun firstError :: "(nat \<Rightarrow> goerr option) \<Rightarrow> nat \<Rightarrow> goerr option" where
  "firstError f 0 = None"
| "firstError f (Suc n) = (case firstError f n of Some e \<Rightarrow> Some e | None \<Rightarrow> f n)"

definition buildApp :: "app_env \<Rightarrow> AppConfig \<Rightarrow> goerr + App" where
  "buildApp env cfg =
     (case aeDB env of Inl e \<Rightarrow> Inl e | Inr d \<Rightarrow>
      case openStore (aeDBEnv env) (aeNow env) (RemoteRootPath cfg) d of Inl e \<Rightarrow> Inl e | Inr s \<Rightarrow>
      case resolveFuseGroupGIDs (aeGroups env) (FuseGroupName cfg) of Inl e \<Rightarrow> Inl e | Inr gs \<Rightarrow>
      case NewManager (aeOS env) (aeCacheMkdir env) (aeCacheDir1 env) (aeCacheDir2 env) (aeFiles env) True
             (streamConfigOf cfg) of Inl e \<Rightarrow> Inl e | Inr m \<Rightarrow>
      Inr \<lparr>apCfg = cfg, apFuseGIDs = gs, apStore = s,
           apRemote = SetDownloadOptions (DownloadConcurrency cfg) (DownloadChunkSize cfg) (NewReader True),
           apStream = m, apOAuth = NewOAuthServer (aeRandom env) (oauthConfigOf cfg) True\<rparr>)"

text \<open>The three directories are made one after the other.\<close>

definition AppNew :: "app_env \<Rightarrow> AppConfig \<Rightarrow> goerr + App" where
  "AppNew env cfg =
     (case checkConfig cfg of Inl e \<Rightarrow> Inl e | Inr cfg1 \<Rightarrow>
      case firstError (aeMkdir env) 3 of Some e \<Rightarrow> Inl e | None \<Rightarrow> buildApp env cfg1)"

text \<open>\<open>bindRemoteClient\<close>: a client with the loaded token, and a reader without what it had cached.\<close>

definition clientFactory :: "AppConfig \<Rightarrow> Token \<Rightarrow> APIClient" where
  "clientFactory cfg t = NewAPIClient (tkAccess t) (tkRefresh t) (ClientID cfg) (ClientSecret cfg) (APIBaseURL cfg) (TokenBaseURL cfg)"

definition bindRemoteClient :: "(goerr + Token) \<Rightarrow> App \<Rightarrow> (goerr + APIClient) \<times> App" where
  "bindRemoteClient loaded a =
     (case loaded of
        Inl e \<Rightarrow> (Inl e, a)
      | Inr t \<Rightarrow> (Inr (clientFactory (apCfg a) t), a\<lparr>apRemote := SetClient True (apRemote a)\<rparr>))"

section \<open>Laws\<close>

lemma parsePositive_pos: "0 < fallback \<Longrightarrow> 0 < parsePositive value fallback"
  by (auto simp: parsePositive_def split: option.splits)

lemma parseNonNegative_nonneg: "0 \<le> fallback \<Longrightarrow> 0 \<le> parseNonNegativeInt64 value fallback"
  by (auto simp: parseNonNegativeInt64_def split: option.splits)

text \<open>The configuration the program loads is always accepted by the stream engine.\<close>

lemma normalizeConfig_keeps:
  assumes "normalizeConfig s = Inr c" "0 < Workers s" "0 < ChunkSize s"
  shows "Workers c = Workers s" "ChunkSize c = ChunkSize s"
proof -
  have "0 \<le> MemoryCache s" "0 \<le> DiskCache s" using assms(1) normalizeConfig_refuses [of s] by auto
  moreover have "c = (case normalizeConfig s of Inr x \<Rightarrow> x)" using assms(1) by simp
  ultimately show "Workers c = Workers s" "ChunkSize c = ChunkSize s"
    using assms(2,3) by (simp_all add: normalizeConfig_def Let_def)
qed

lemma Load_positive:
  "0 < StreamWorkers (Load env)" "0 < StreamChunkSize (Load env)" "0 < StreamMemoryCache (Load env)"
  "0 \<le> StreamDiskCache (Load env)" "0 < DownloadConcurrency (Load env)" "0 < DownloadChunkSize (Load env)"
  by (simp_all add: Load_def parsePositive_pos parseNonNegative_nonneg del: One_nat_def)

lemma streamConfigOf_sel [simp]:
  "Workers (streamConfigOf cfg) = StreamWorkers cfg" "ChunkSize (streamConfigOf cfg) = StreamChunkSize cfg"
  "MemoryCache (streamConfigOf cfg) = StreamMemoryCache cfg" "DiskCache (streamConfigOf cfg) = StreamDiskCache cfg"
  by (simp_all add: streamConfigOf_def)

lemma Load_runs:
  obtains c where "normalizeConfig (streamConfigOf (Load env)) = Inr c" "config_ok c"
    "Workers c = StreamWorkers (Load env)" "ChunkSize c = StreamChunkSize (Load env)"
proof -
  let ?s = "streamConfigOf (Load env)"
  have "\<not> (\<exists>e. normalizeConfig ?s = Inl e)"
    unfolding normalizeConfig_refuses using Load_positive [of env] by (simp add: not_less)
  then obtain c where c: "normalizeConfig ?s = Inr c" by (cases "normalizeConfig ?s") blast+
  then show ?thesis
    using that [OF c normalizeConfig_config_ok [OF c]] normalizeConfig_keeps [OF c] Load_positive [of env] by simp
qed

lemma groupGID_range: "groupGID l name = Inr x \<Longrightarrow> 0 \<le> x \<and> x < 2 ^ 32"
proof -
  have u: "0 \<le> x \<and> x < 2 ^ 32" if "ParseUint32 s = Inr x" for s
    using that by (auto simp: ParseUint32_def Let_def split: option.splits if_splits)
  assume "groupGID l name = Inr x"
  then show ?thesis by (auto simp del: power_numeral simp: groupGID_def split: sum.splits dest: u)
qed

definition gids_ok :: "int list \<Rightarrow> bool" where
  "gids_ok gs \<longleftrightarrow> distinct gs \<and> (\<forall>g \<in> set gs. 0 \<le> g \<and> g < 2 ^ 32)"

lemma collectGIDs_ok: "gids_ok gs \<Longrightarrow> collectGIDs l parts gs = Inr out \<Longrightarrow> gids_ok out"
proof (induction parts arbitrary: gs)
  case (Cons part parts)
  show ?case
  proof (cases "TrimSpace part = []")
    case False
    then obtain x where x: "groupGID l (TrimSpace part) = Inr x"
      "collectGIDs l parts (if x \<in> set gs then gs else gs @ [x]) = Inr out"
      using Cons.prems(2) by (auto simp: Let_def split: sum.splits)
    have "gids_ok (if x \<in> set gs then gs else gs @ [x])"
      using Cons.prems(1) groupGID_range [OF x(1)] by (simp add: gids_ok_def)
    then show ?thesis using Cons.IH x(2) by blast
  qed (use Cons in simp)
qed simp

lemma resolveFuseGroupGIDs_ok: "resolveFuseGroupGIDs l name = Inr gs \<Longrightarrow> gids_ok gs"
  using collectGIDs_ok [of "[]" l "Split CHR '','' name" gs]
  by (auto simp: resolveFuseGroupGIDs_def gids_ok_def split: if_splits)

end
