(* ===== verification/AppStart.thy ===== *)
theory AppStart
  imports AppConfig MetaLaws RemoteSystem StreamOpen
begin

text \<open>What the application has once \<open>New\<close> returns: a store with an expired root, and a reader, engine and groups in order.\<close>

definition expireRows :: "string \<Rightarrow> table \<Rightarrow> table" where
  "expireRows p t = t\<lparr>tRows := map (\<lambda>r. if cPath r = p then r\<lparr>cExpires := 0\<rparr> else r) (tRows t)\<rparr>"

definition ensureRows :: "int \<Rightarrow> table \<Rightarrow> table" where
  "ensureRows now t = (if hasPath ''/'' t then t else upsertEntrySQL (rootEntry now) t)"

lemma ExpirePath_changes: "changes (expireRows p) s (ExpirePath env p s)"
  using changes_execOne [of "expireRows p" s env "''store is nil''"] by (simp add: ExpirePath_def expireRows_def [abs_def])

lemma EnsureRoot_changes: "changes (ensureRows now) s (EnsureRoot env now s)"
  using changes_execOne [of "ensureRows now" s env "''store is nil''"] by (simp add: EnsureRoot_def ensureRows_def [abs_def])

lemma expireRows_ok: "table_ok t \<Longrightarrow> table_ok (expireRows p t)"
proof -
  assume ok: "table_ok t"
  define f where "f = (\<lambda>r :: row. if cPath r = p then r\<lparr>cExpires := 0\<rparr> else r)"
  have f: "cPath \<circ> f = cPath" "cId \<circ> f = cId" by (auto simp: f_def fun_eq_iff)
  have "row_ok u (f r)" if "row_ok t r" "tNextId u = tNextId t" for r u
    using that by (auto simp: f_def row_ok_def)
  then show ?thesis using ok unfolding table_ok_def expireRows_def f_def [symmetric] by (auto simp: f)
qed

lemma entryAt_expire:
  "entryAt (expireRows p t) q = map_option (\<lambda>e. if q = p then e\<lparr>eExpiresAt := 0\<rparr> else e) (entryAt t q)"
proof -
  have "List.find (\<lambda>r. cPath r = q) (map (\<lambda>r. if cPath r = p then r\<lparr>cExpires := 0\<rparr> else r) (tRows t)) =
      map_option (\<lambda>r. if cPath r = p then r\<lparr>cExpires := 0\<rparr> else r) (List.find (\<lambda>r. cPath r = q) (tRows t))"
    by (rule find_map_path) simp
  then show ?thesis
    by (cases "List.find (\<lambda>r. cPath r = q) (tRows t)")
      (auto simp: entryAt_def selectByPath_def expireRows_def erase_def scanEntry_def dest: find_is_Some)
qed

lemma expired: "entryAt (expireRows p t) p = Some e \<Longrightarrow> eExpiresAt e = 0"
  by (auto simp: entryAt_expire)

lemma stays_expired:
  "entryAt t q = Some e \<Longrightarrow> eExpiresAt e = 0 \<Longrightarrow> \<exists>e'. entryAt (expireRows p t) q = Some e' \<and> eExpiresAt e' = 0"
  by (simp add: entryAt_expire)

lemma ensureRows_ok: "table_ok t \<Longrightarrow> table_ok (ensureRows now t)"
  by (simp add: ensureRows_def upsert_ok)

lemma entryAt_ensure: "entryAt (ensureRows now t) ''/'' \<noteq> None"
proof (cases "hasPath ''/'' t")
  case True
  then show ?thesis by (simp add: ensureRows_def entryAt_def selectByPath_def hasPath_find)
next
  case False
  then show ?thesis by (simp add: ensureRows_def entryAt_upsert) (simp add: rootEntry_def)
qed

lemma openStore_root:
  assumes "openStore env now root (Some t) = Inr s" "table_ok t"
  shows "store_ok s \<and> (\<exists>e. fileAt s ''/'' = Some e \<and> eExpiresAt e = 0) \<and> (\<forall>e. fileAt s root = Some e \<longrightarrow> eExpiresAt e = 0)"
proof -
  let ?s0 = "Some \<lparr>db = Some t\<rparr>"
  obtain s1 where s1: "EnsureRoot (env 1) now ?s0 = (None, s1)"
    using assms(1) by (auto simp: openStore_def MetaStore.Open_def split: option.splits prod.splits)
  obtain s2 where s2: "ExpirePath (env 2) ''/'' s1 = (None, s2)"
    using assms(1) s1 by (auto simp: openStore_def MetaStore.Open_def split: option.splits prod.splits)
  have s3: "ExpirePath (env 3) root s2 = (None, s)"
    using assms(1) s1 s2 by (auto simp: openStore_def MetaStore.Open_def split: option.splits prod.splits)
  have t0: "tableOf ?s0 = Some t" by (simp add: tableOf_def)
  have t1: "tableOf s1 = Some (ensureRows now t)"
    using changes_success [OF EnsureRoot_changes [where s = ?s0 and env = "env 1" and now = now]] s1 t0 by auto
  have t2: "tableOf s2 = Some (expireRows ''/'' (ensureRows now t))"
    using changes_success [OF ExpirePath_changes [where s = s1 and env = "env 2" and p = "''/''"]] s2 t1 by auto
  have t3: "tableOf s = Some (expireRows root (expireRows ''/'' (ensureRows now t)))"
    using changes_success [OF ExpirePath_changes [where s = s2 and env = "env 3" and p = root]] s3 t2 by auto
  obtain e where e: "entryAt (expireRows ''/'' (ensureRows now t)) ''/'' = Some e"
    using entryAt_ensure [of now t] by (auto simp: entryAt_expire)
  show ?thesis unfolding fileAt_table [OF t3] store_ok_table [OF t3]
    using assms(2) stays_expired [OF e expired [OF e]] expired [of root] by (simp add: expireRows_ok ensureRows_ok)
qed

lemma AppNew_parts:
  assumes "AppNew env cfg = Inr a" "aeDB env = Inr (Some t)" "table_ok t"
  shows "store_ok (apStore a) \<and> (\<exists>e. fileAt (apStore a) ''/'' = Some e \<and> eExpiresAt e = 0) \<and>
    (\<forall>e. fileAt (apStore a) (RemoteRootPath (apCfg a)) = Some e \<longrightarrow> eExpiresAt e = 0) \<and>
    config_ok (mCfg (apStream a)) \<and> gids_ok (apFuseGIDs a) \<and> rd_init (apRemote a) \<and> rHasClient (apRemote a)"
proof -
  obtain cfg1 where c: "buildApp env cfg1 = Inr a"
    using assms(1) by (auto simp: AppNew_def split: sum.splits option.splits)
  obtain s gs m where p: "openStore (aeDBEnv env) (aeNow env) (RemoteRootPath cfg1) (Some t) = Inr s"
      "resolveFuseGroupGIDs (aeGroups env) (FuseGroupName cfg1) = Inr gs"
      "NewManager (aeOS env) (aeCacheMkdir env) (aeCacheDir1 env) (aeCacheDir2 env) (aeFiles env) True (streamConfigOf cfg1) = Inr m"
    and a: "a = \<lparr>apCfg = cfg1, apFuseGIDs = gs, apStore = s,
           apRemote = SetDownloadOptions (DownloadConcurrency cfg1) (DownloadChunkSize cfg1) (NewReader True),
           apStream = m, apOAuth = NewOAuthServer (aeRandom env) (oauthConfigOf cfg1) True\<rparr>"
    using c assms(2) by (auto simp: buildApp_def split: sum.splits)
  obtain c' where "normalizeConfig (streamConfigOf cfg1) = Inr c'" "mCfg m = c'"
    using p(3) by (auto simp: NewManager_def newMgr_def split: sum.splits)
  then have "config_ok (mCfg m)" using normalizeConfig_config_ok by blast
  moreover have "rd_init (SetDownloadOptions x y (NewReader True)) \<and> rHasClient (SetDownloadOptions x y (NewReader True))" for x y
    by (auto simp: rd_init_def SetDownloadOptions_def clearReadCacheLocked_def clearCachedReadsLocked_def NewReader_def)
  ultimately show ?thesis using openStore_root [OF p(1) assms(3)] resolveFuseGroupGIDs_ok [OF p(2)] by (simp add: a)
qed

lemma AppNew_engine:
  assumes "AppNew env cfg = Inr a" "ChunkSize (mCfg (apStream a)) < 2 ^ 62"
    and "files_coherent (chunk_is c (mCfg (apStream a))) (emptyStore (MemoryCache (mCfg (apStream a)))
      (CachePath (mCfg (apStream a))) (DiskCache (mCfg (apStream a))) (aeFiles env))"
  shows "reachable (sys_init c) (sys_step c) (startSystem (apStream a))"
proof -
  obtain cfg1 where "buildApp env cfg1 = Inr a"
    using assms(1) by (auto simp: AppNew_def split: sum.splits option.splits)
  then have "NewManager (aeOS env) (aeCacheMkdir env) (aeCacheDir1 env) (aeCacheDir2 env) (aeFiles env) True
      (streamConfigOf cfg1) = Inr (apStream a)"
    by (auto simp: buildApp_def split: sum.splits)
  then show ?thesis using NewManager_init assms(2,3) by (intro reach_init) blast
qed

section \<open>An example\<close>

lemmas trim_simps = TrimSpace_def go_spaces_def bytes_of_def upt_rec char_of_def

definition exAppCfg :: AppConfig where
  "exAppCfg = (Load (\<lambda>_. []))\<lparr>MountPath := ''/m'', RemoteRootPath := ''/'', TokenPath := ''/t'', MetaDBPath := ''/d'',
     ClientID := ''i'', RedirectURI := ''u''\<rparr>"

definition noFailure :: db_env where
  "noFailure = \<lparr>dbMigrate = None, dbBegin = None, dbPrepare = None, dbExec = (\<lambda>_. None), dbCommit = None, dbRow = None,
     dbQuery = None, dbScan = (\<lambda>_. None), dbNext = None\<rparr>"

definition exAppEnv :: app_env where
  "exAppEnv =
     \<lparr>aeMkdir = (\<lambda>_. None), aeDB = Inr (Some \<lparr>tRows = [], tNextId = 1\<rparr>), aeDBEnv = (\<lambda>_. noFailure), aeNow = 0,
      aeGroups = (\<lambda>_. Inl ErrEOF), aeOS = \<lparr>createErr = None, tempName = [], writeErr = None, writeN = 0, closeErr = None,
        renameErr = None, readErr = (\<lambda>_. False), removeErr = (\<lambda>_. None)\<rparr>,
      aeCacheMkdir = None, aeCacheDir1 = Inr [], aeCacheDir2 = Inr [], aeFiles = Map.empty, aeRandom = ''r''\<rparr>"

lemma ex_app: "\<exists>a. AppNew exAppEnv exAppCfg = Inr a"
proof -
  have "TrimSpace ''/'' = ''/''" by (simp add: trim_simps)
  moreover have "Clean ''/'' = ''/''" by code_simp
  ultimately have root: "normalizeRemoteRootPath ''/'' = ''/''" by (simp add: normalizeRemoteRootPath_def HasPrefix_def)
  have chk: "checkConfig exAppCfg = Inr exAppCfg"
    by (simp add: checkConfig_def exAppCfg_def root)
  have ok: "execOne noFailure x f s = (None, setDB (f t) s)" if "tableOf s = Some t" for x f s t
    using that by (simp add: execOne_def noFailure_def)
  have st: "\<exists>s. openStore (\<lambda>_. noFailure) 0 ''/'' (Some \<lparr>tRows = [], tNextId = 1\<rparr>) = Inr s"
  proof -
    let ?s0 = "Some \<lparr>db = Some \<lparr>tRows = [], tNextId = 1\<rparr>\<rparr>"
    have t0: "tableOf ?s0 = Some \<lparr>tRows = [], tNextId = 1\<rparr>" by (simp add: tableOf_def)
    have m: "MetaStore.Open noFailure (Some \<lparr>tRows = [], tNextId = 1\<rparr>) = Inr \<lparr>db = Some \<lparr>tRows = [], tNextId = 1\<rparr>\<rparr>"
      by (simp add: MetaStore.Open_def noFailure_def)
    show ?thesis
      by (simp add: openStore_def m EnsureRoot_def ExpirePath_def ok [OF t0] ok [OF tableOf_setDB] t0)
  qed
  have man: "\<exists>m. NewManager (aeOS exAppEnv) None (Inr []) (Inr []) Map.empty True (streamConfigOf exAppCfg) = Inr m"
    by (simp add: NewManager_def normalizeConfig_def streamConfigOf_def exAppCfg_def Load_def parsePositive_def
        parseNonNegativeInt64_def DefaultConfig_def newChunkStore_def Let_def i64_def)
  show ?thesis
    using chk st man by (auto simp: AppNew_def buildApp_def exAppEnv_def exAppCfg_def resolveFuseGroupGIDs_def Load_def numeral_3_eq_3)
qed

end
