(* ===== verification/DownloadBench.thy ===== *)
theory DownloadBench
  imports BaiduClient Transition "HOL-Library.Char_ord" "HOL-Library.List_Lexorder"
begin

text \<open>
  The direct download benchmark (\<open>internal/app/download_bench.go\<close>): its options, one ranged request and the checks
  on the answer, the retries, and the workers that share one counter of chunks.

  The texts of the messages are constructors of \<open>directMessage\<close>, with the numbers the formats print. The URL parser,
  the case-insensitive comparison of host names and the HTTP transport are arguments: what one call of \<open>client.Do\<close>
  does is an \<open>exchange\<close>, the connections it got, the redirects it asked about, and its result.
\<close>

section \<open>Options\<close>

record DirectDownloadBenchOptions =
  doURL :: string
  doCookie :: string
  doBytes :: int
  doConnections :: int
  doChunkSize :: int
  doHTTPVersion :: string
  doTimeout :: int
  doRetries :: int

record URL =
  urScheme :: string
  urHost :: string
  urHostname :: string

datatype optionError =
    EmptyURL | InvalidURL | BadBytes | BadConnections | BadChunkSize | BadTimeout | BadRetries | BadHTTPVersion

text \<open>The defaults of the zero values.\<close>

definition defaultDirectOptions :: "DirectDownloadBenchOptions \<Rightarrow> DirectDownloadBenchOptions" where
  "defaultDirectOptions d =
     \<lparr>doURL = TrimSpace (doURL d), doCookie = TrimSpace (doCookie d),
      doBytes = (if doBytes d = 0 then 256 * 2 ^ 20 else doBytes d),
      doConnections = (if doConnections d = 0 then 8 else doConnections d),
      doChunkSize = (if doChunkSize d = 0 then 2 ^ 20 else doChunkSize d),
      doHTTPVersion = (if doHTTPVersion d = [] then ''auto'' else doHTTPVersion d),
      doTimeout = (if doTimeout d = 0 then 600000000000 else doTimeout d),
      doRetries = doRetries d\<rparr>"

definition normalizeDirectDownloadOptions ::
  "(string \<Rightarrow> goerr + URL) \<Rightarrow> DirectDownloadBenchOptions \<Rightarrow> optionError + DirectDownloadBenchOptions" where
  "normalizeDirectDownloadOptions parseURI d =
     (let d1 = defaultDirectOptions d in
      if doURL d1 = [] then Inl EmptyURL
      else if (case parseURI (doURL d1) of Inl e \<Rightarrow> True
               | Inr u \<Rightarrow> urHost u = [] \<or> urScheme u \<noteq> ''http'' \<and> urScheme u \<noteq> ''https'') then Inl InvalidURL
      else if doBytes d1 \<le> 0 then Inl BadBytes
      else if doConnections d1 \<le> 0 \<or> 64 < doConnections d1 then Inl BadConnections
      else if doChunkSize d1 \<le> 0 then Inl BadChunkSize
      else if doTimeout d1 \<le> 0 then Inl BadTimeout
      else if doRetries d1 < 0 \<or> 10 < doRetries d1 then Inl BadRetries
      else if doHTTPVersion d1 = ''auto'' \<or> doHTTPVersion d1 = ''1.1'' \<or> doHTTPVersion d1 = ''2'' then Inr d1
      else Inl BadHTTPVersion)"

definition sameDirectDownloadHost ::
  "(string \<Rightarrow> goerr + URL) \<Rightarrow> (string \<Rightarrow> string \<Rightarrow> bool) \<Rightarrow> string \<Rightarrow> string \<Rightarrow> bool" where
  "sameDirectDownloadHost parseURL equalFold first second =
     (case (parseURL first, parseURL second) of
        (Inr u, Inr v) \<Rightarrow> equalFold (urHostname u) (urHostname v)
      | _ \<Rightarrow> False)"

section \<open>Statistics\<close>

record directDownloadStats =
  dsConnections :: "nat set"
  dsProtocols :: "(string \<times> int) list"
  dsRangeRequests :: int
  dsRetries :: int
  dsRedirects :: int

definition newDirectDownloadStats :: directDownloadStats where
  "newDirectDownloadStats = \<lparr>dsConnections = {}, dsProtocols = [], dsRangeRequests = 0, dsRetries = 0, dsRedirects = 0\<rparr>"

definition recordConnection :: "nat option \<Rightarrow> directDownloadStats \<Rightarrow> directDownloadStats" where
  "recordConnection c s =
     (case c of None \<Rightarrow> s | Some n \<Rightarrow> s\<lparr>dsConnections := insert n (dsConnections s)\<rparr>)"

definition recordProtocol :: "string \<Rightarrow> directDownloadStats \<Rightarrow> directDownloadStats" where
  "recordProtocol p s =
     s\<lparr>dsProtocols := AList.update p (case map_of (dsProtocols s) p of None \<Rightarrow> 1 | Some n \<Rightarrow> n + 1) (dsProtocols s)\<rparr>"

definition snapshot :: "directDownloadStats \<Rightarrow> int \<times> (string \<times> int) list" where
  "snapshot s = (int (card (dsConnections s)), dsProtocols s)"

definition FormatDirectDownloadProtocols :: "(string \<times> int) list \<Rightarrow> string" where
  "FormatDirectDownloadProtocols protocols =
     (if protocols = [] then ''none''
      else JoinWith CHR '','' (map (\<lambda>p. p @ ''='' @ FormatInt (the (map_of protocols p))) (sort (map fst protocols))))"

section \<open>The HTTP client\<close>

record directTransport =
  dtForceHTTP2 :: bool
  dtMaxIdle :: int
  dtMaxIdlePerHost :: int
  dtMaxPerHost :: int
  dtDisableCompression :: bool
  dtOnlyHTTP1 :: bool

definition newDirectDownloadClient :: "DirectDownloadBenchOptions \<Rightarrow> directTransport" where
  "newDirectDownloadClient d =
     \<lparr>dtForceHTTP2 = (doHTTPVersion d \<noteq> ''1.1''), dtMaxIdle = doConnections d, dtMaxIdlePerHost = doConnections d,
      dtMaxPerHost = doConnections d, dtDisableCompression = True, dtOnlyHTTP1 = (doHTTPVersion d = ''1.1'')\<rparr>"

text \<open>\<open>CheckRedirect\<close>: a hop is the host name of a request and its headers, the oldest of \<open>via\<close> first.\<close>

record hop =
  hpHostname :: string
  hpHeader :: "string \<Rightarrow> string"

definition CheckRedirect ::
  "(string \<Rightarrow> string \<Rightarrow> bool) \<Rightarrow> DirectDownloadBenchOptions \<Rightarrow> hop \<Rightarrow> hop list \<Rightarrow> directDownloadStats \<Rightarrow>
   (bool \<times> hop) \<times> directDownloadStats" where
  "CheckRedirect equalFold d req via s =
     (let s1 = s\<lparr>dsRedirects := dsRedirects s + 1\<rparr> in
      if 10 \<le> length via then ((False, req), s1)
      else
        let h1 = (hpHeader req)(''User-Agent'' := ''pan.baidu.com'');
            h2 = (if via = [] then h1 else
                    let h = h1(''Range'' := hpHeader (List.last via) ''Range'') in
                    if equalFold (hpHostname req) (hpHostname (hd via)) \<and> doCookie d \<noteq> [] then h(''Cookie'' := doCookie d)
                    else h)
        in ((True, req\<lparr>hpHeader := h2\<rparr>), s1))"

section \<open>One ranged request\<close>

datatype directMessage =
    CannotCreateRequest
  | TestCanceled
  | NetworkFailed
  | NotHTTP2 string
  | NotHTTP11 string
  | StatusCode int
  | InvalidContentRange
  | WrongRange int int int int
  | WrongLength int int
  | ShortBody int int
  | LongBody int
  | TailFailed

record directDownloadError =
  deMessage :: directMessage
  deRetryable :: bool
  deCause :: "goerr option"

text \<open>An answer: what the body holds, how it ends when it is too short, and what a one byte read says at its end.\<close>

record directResponse =
  drProto :: string
  drProtoMajor :: int
  drProtoMinor :: int
  drStatus :: int
  drContentRange :: string
  drContentLength :: int
  drBody :: bytes
  drTail :: "goerr option"
  drURL :: string

text \<open>\<open>http.NewRequestWithContext\<close> fails; \<open>client.Do\<close> fails, with \<open>ctx.Err()\<close> after it; or it answers.\<close>

datatype doResult = NoRequest | DoFailed "goerr option" | Answered directResponse

record exchange =
  xcConns :: "nat option list"
  xcRedirects :: nat
  xcResult :: doResult

type_synonym direct_wire = "request \<Rightarrow> exchange"

definition parseDirectContentRange :: "string \<Rightarrow> (int \<times> int \<times> int) option" where
  "parseDirectContentRange value =
     (if \<not> HasPrefix value ''bytes '' then None
      else case SplitN2 CHR ''/'' (TrimPrefix value ''bytes '') of
        [p, q] \<Rightarrow>
          if q = ''*'' then None
          else (case SplitN2 CHR ''-'' p of
             [a, b] \<Rightarrow>
               (case ParseInt a of None \<Rightarrow> None | Some start \<Rightarrow>
                case ParseInt b of None \<Rightarrow> None | Some end \<Rightarrow>
                  if end < start then None
                  else case ParseInt q of None \<Rightarrow> None | Some whole \<Rightarrow>
                    if whole \<le> end then None else Some (start, end, whole))
           | _ \<Rightarrow> None)
      | _ \<Rightarrow> None)"

record directRangeResult =
  dgTotal :: int
  dgFinalURL :: string

definition directRequest :: "string \<Rightarrow> DirectDownloadBenchOptions \<Rightarrow> int \<Rightarrow> int \<Rightarrow> request" where
  "directRequest url d offset n =
     \<lparr>rqMethod = ''GET'', rqURL = url, rqQuery = [], rqForm = [],
      rqHeaders = [(''Range'', ''bytes='' @ FormatInt offset @ ''-'' @ FormatInt (i64 (offset + n - 1))),
                   (''User-Agent'', ''pan.baidu.com'')] @
                  (if doCookie d \<noteq> [] then [(''Cookie'', doCookie d)] else [])\<rparr>"

definition directErr :: "directMessage \<Rightarrow> bool \<Rightarrow> directDownloadError + 'a" where
  "directErr m r = Inl \<lparr>deMessage = m, deRetryable = r, deCause = None\<rparr>"

text \<open>The checks on an answer, in their order. \<open>io.CopyN\<close> takes \<open>n\<close> bytes from the body or fails.\<close>

definition checkDirectBody :: "int \<Rightarrow> directResponse \<Rightarrow> directDownloadError + unit" where
  "checkDirectBody n resp =
     (if len (drBody resp) < n then directErr (ShortBody (len (drBody resp)) n) True
      else if n < len (drBody resp) then directErr (LongBody n) False
      else case drTail resp of
        None \<Rightarrow> Inr ()
      | Some e \<Rightarrow> if errors_Is e ErrEOF then Inr () else directErr TailFailed True)"

definition checkDirectResponse ::
  "DirectDownloadBenchOptions \<Rightarrow> int \<Rightarrow> int \<Rightarrow> directResponse \<Rightarrow> directDownloadError + directRangeResult" where
  "checkDirectResponse d offset n resp =
     (if doHTTPVersion d = ''2'' \<and> drProtoMajor resp \<noteq> 2 then directErr (NotHTTP2 (drProto resp)) False
      else if doHTTPVersion d = ''1.1'' \<and> (drProtoMajor resp \<noteq> 1 \<or> drProtoMinor resp \<noteq> 1)
      then directErr (NotHTTP11 (drProto resp)) False
      else if drStatus resp \<noteq> 206
      then directErr (StatusCode (drStatus resp)) (drStatus resp = 408 \<or> drStatus resp = 429 \<or> 500 \<le> drStatus resp)
      else case parseDirectContentRange (drContentRange resp) of
        None \<Rightarrow> directErr InvalidContentRange False
      | Some (start, rangeEnd, whole) \<Rightarrow>
          let wantEnd = i64 (offset + n - 1) in
          if start \<noteq> offset \<or> rangeEnd \<noteq> wantEnd then directErr (WrongRange start rangeEnd offset wantEnd) False
          else if 0 \<le> drContentLength resp \<and> drContentLength resp \<noteq> n
          then directErr (WrongLength (drContentLength resp) n) True
          else (case checkDirectBody n resp of
                  Inl e \<Rightarrow> Inl e
                | Inr _ \<Rightarrow> Inr \<lparr>dgTotal = whole, dgFinalURL = drURL resp\<rparr>))"

definition performDirectRange ::
  "direct_wire \<Rightarrow> string \<Rightarrow> DirectDownloadBenchOptions \<Rightarrow> int \<Rightarrow> int \<Rightarrow> directDownloadStats \<Rightarrow>
   (directDownloadError + directRangeResult) \<times> directDownloadStats" where
  "performDirectRange wire url d offset n s =
     (let s1 = s\<lparr>dsRangeRequests := dsRangeRequests s + 1\<rparr>; x = wire (directRequest url d offset n) in
      case xcResult x of
        NoRequest \<Rightarrow> (directErr CannotCreateRequest False, s1)
      | r \<Rightarrow>
          let s2 = (fold recordConnection (xcConns x) s1)\<lparr>dsRedirects := dsRedirects s + int (xcRedirects x)\<rparr> in
          (case r of
             Answered resp \<Rightarrow> (checkDirectResponse d offset n resp, recordProtocol (drProto resp) s2)
           | DoFailed (Some ce) \<Rightarrow> (Inl \<lparr>deMessage = TestCanceled, deRetryable = False, deCause = Some ce\<rparr>, s2)
           | _ \<Rightarrow> (directErr NetworkFailed True, s2)))"

section \<open>Probe and retries\<close>

datatype probeError = ProbeFailed directDownloadError | NoFileSize

definition probeDirectDownload ::
  "direct_wire \<Rightarrow> DirectDownloadBenchOptions \<Rightarrow> directDownloadStats \<Rightarrow> (probeError + int \<times> string) \<times> directDownloadStats" where
  "probeDirectDownload wire d s =
     (case performDirectRange wire (doURL d) d 0 1 s of
        (Inl e, s1) \<Rightarrow> (Inl (ProbeFailed e), s1)
      | (Inr r, s1) \<Rightarrow> if dgTotal r \<le> 0 then (Inl NoFileSize, s1) else (Inr (dgTotal r, dgFinalURL r), s1))"

datatype downloadError = DownloadFailed directDownloadError | WaitCanceled goerr

definition retryDelay :: "int \<Rightarrow> int" where
  "retryDelay attempt = min (100000000 * 2 ^ nat attempt) 1000000000"

text \<open>
  The world of one range: what each attempt's request meets, \<open>ctx.Err()\<close> after the attempt, and the error of the
  context when it ends before the timer.
\<close>

record range_world =
  rwWire :: "int \<Rightarrow> direct_wire"
  rwCtx :: "int \<Rightarrow> goerr option"
  rwWait :: "int \<Rightarrow> goerr option"

function retryFrom ::
  "range_world \<Rightarrow> string \<Rightarrow> DirectDownloadBenchOptions \<Rightarrow> int \<Rightarrow> int \<Rightarrow> int \<Rightarrow> directDownloadStats \<Rightarrow>
   downloadError option \<times> directDownloadStats" where
  "retryFrom w url d offset n attempt s =
     (case performDirectRange (rwWire w attempt) url d offset n s of
        (Inr _, s1) \<Rightarrow> (None, s1)
      | (Inl e, s1) \<Rightarrow>
          if \<not> deRetryable e \<or> doRetries d \<le> attempt \<or> rwCtx w attempt \<noteq> None then (Some (DownloadFailed e), s1)
          else
            let s2 = s1\<lparr>dsRetries := dsRetries s1 + 1\<rparr> in
            case rwWait w attempt of
              Some ce \<Rightarrow> (Some (WaitCanceled ce), s2)
            | None \<Rightarrow> retryFrom w url d offset n (attempt + 1) s2)"
  by pat_completeness auto
termination
  by (relation "measure (\<lambda>(w, url, d, offset, n, attempt, s). nat (doRetries d - attempt))") auto

declare retryFrom.simps [simp del]

definition downloadRangeWithRetry ::
  "range_world \<Rightarrow> string \<Rightarrow> DirectDownloadBenchOptions \<Rightarrow> int \<Rightarrow> int \<Rightarrow> directDownloadStats \<Rightarrow>
   downloadError option \<times> directDownloadStats" where
  "downloadRangeWithRetry w url d offset n s = retryFrom w url d offset n 0 s"

end
