(* ===== verification/DirectWorkers.thy ===== *)
theory DirectWorkers
  imports DownloadBench "HOL-Library.Multiset"
begin

text \<open>
  The parallel part of the direct download benchmark: workers that take the next chunk from a shared counter, the first
  error that stops the others, and the result. One step is a worker that takes a chunk, a worker whose download ends,
  or the end of the caller's context; a download in progress sees an error of its context only when the benchmark was
  stopped or the caller's context is over. \<open>bnFinished\<close> and \<open>bnFailures\<close> are history variables: the chunks whose
  download returned nil, and the errors of the others, each in the order in which they came.
\<close>

section \<open>Chunks\<close>

record job =
  jbOptions :: DirectDownloadBenchOptions
  jbURL :: string
  jbBytes :: int

definition directChunkCount :: "int \<Rightarrow> int \<Rightarrow> int" where
  "directChunkCount n chunk = go_div (i64 (i64 (n + chunk) - 1)) chunk"

definition directOffset :: "job \<Rightarrow> int \<Rightarrow> int" where
  "directOffset j k = i64 (k * doChunkSize (jbOptions j))"

definition directLength :: "job \<Rightarrow> int \<Rightarrow> int" where
  "directLength j k = min (doChunkSize (jbOptions j)) (i64 (jbBytes j - directOffset j k))"

abbreviation countOf :: "job \<Rightarrow> int" where
  "countOf j \<equiv> directChunkCount (jbBytes j) (doChunkSize (jbOptions j))"

section \<open>Workers\<close>

datatype workerState = Idle | Busy int | Exited

record bench =
  bnNext :: int
  bnWorkers :: "workerState list"
  bnFirstErr :: "downloadError option"
  bnStopped :: bool
  bnExpired :: bool
  bnStats :: directDownloadStats
  bnFinished :: "int list"
  bnFailures :: "downloadError list"

definition benchStart :: "job \<Rightarrow> bench" where
  "benchStart j =
     \<lparr>bnNext = 0, bnWorkers = replicate (nat (doConnections (jbOptions j))) Idle, bnFirstErr = None,
      bnStopped = False, bnExpired = False, bnStats = newDirectDownloadStats, bnFinished = [], bnFailures = []\<rparr>"

text \<open>\<open>nextChunk.Add(1) - 1\<close> and the test against the count.\<close>

definition claimChunk :: "job \<Rightarrow> nat \<Rightarrow> bench \<Rightarrow> bench" where
  "claimChunk j i s =
     (let n = i64 (bnNext s + 1); k = i64 (n - 1) in
      s\<lparr>bnNext := n, bnWorkers := (bnWorkers s)[i := if countOf j \<le> k then Exited else Busy k]\<rparr>)"

text \<open>The end of a download: back to the counter, or \<open>errOnce.Do\<close> and out.\<close>

definition finishChunk :: "nat \<Rightarrow> int \<Rightarrow> downloadError option \<times> directDownloadStats \<Rightarrow> bench \<Rightarrow> bench" where
  "finishChunk i k r s =
     (case fst r of
        None \<Rightarrow> s\<lparr>bnWorkers := (bnWorkers s)[i := Idle], bnStats := snd r, bnFinished := bnFinished s @ [k]\<rparr>
      | Some e \<Rightarrow>
          s\<lparr>bnWorkers := (bnWorkers s)[i := Exited], bnStats := snd r,
            bnFirstErr := (case bnFirstErr s of None \<Rightarrow> Some e | Some f \<Rightarrow> Some f), bnStopped := True\<rparr>)"

definition downloadChunk :: "range_world \<Rightarrow> job \<Rightarrow> int \<Rightarrow> bench \<Rightarrow> downloadError option \<times> directDownloadStats" where
  "downloadChunk w j k s = downloadRangeWithRetry w (jbURL j) (jbOptions j) (directOffset j k) (directLength j k) (bnStats s)"

text \<open>The history of the errors, beside what the program does.\<close>

definition noteFailure :: "downloadError option \<Rightarrow> bench \<Rightarrow> bench" where
  "noteFailure e s = (case e of None \<Rightarrow> s | Some x \<Rightarrow> s\<lparr>bnFailures := bnFailures s @ [x]\<rparr>)"

definition quiet_world :: "range_world \<Rightarrow> bool" where
  "quiet_world w \<longleftrightarrow>
     (\<forall>a. rwCtx w a = None \<and> rwWait w a = None \<and> (\<forall>q ce. xcResult (rwWire w a q) \<noteq> DoFailed (Some ce)))"

inductive bench_step :: "job \<Rightarrow> bench \<Rightarrow> bench \<Rightarrow> bool" for j :: job where
  bs_claim: "i < length (bnWorkers s) \<Longrightarrow> bnWorkers s ! i = Idle \<Longrightarrow> bench_step j s (claimChunk j i s)"
| bs_finish: "i < length (bnWorkers s) \<Longrightarrow> bnWorkers s ! i = Busy k \<Longrightarrow>
    quiet_world w \<or> bnStopped s \<or> bnExpired s \<Longrightarrow>
    bench_step j s (noteFailure (fst (downloadChunk w j k s)) (finishChunk i k (downloadChunk w j k s) s))"
| bs_expire: "\<not> bnExpired s \<Longrightarrow> bench_step j s (s\<lparr>bnExpired := True\<rparr>)"

definition allExited :: "bench \<Rightarrow> bool" where
  "allExited s \<longleftrightarrow> (\<forall>x \<in> set (bnWorkers s). x = Exited)"

section \<open>The benchmark\<close>

datatype benchError = BadOptions optionError | BadProbe probeError | BadDownload downloadError | TimedOut

record DirectDownloadBenchResult =
  dbBytes :: int
  dbFileSize :: int
  dbElapsed :: int
  dbConfigured :: int
  dbObserved :: int
  dbChunkSize :: int
  dbHTTPVersion :: string
  dbProtocols :: "(string \<times> int) list"
  dbRangeRequests :: int
  dbRetries :: int
  dbRedirects :: int

text \<open>The options, the probe, and the job of the workers: the cookie stays only on the host it was given for.\<close>

record net_lib =
  nlParseURI :: "string \<Rightarrow> goerr + URL"
  nlParse :: "string \<Rightarrow> goerr + URL"
  nlEqualFold :: "string \<Rightarrow> string \<Rightarrow> bool"

definition directJob :: "net_lib \<Rightarrow> DirectDownloadBenchOptions \<Rightarrow> int \<Rightarrow> string \<Rightarrow> job" where
  "directJob lib d fileSize finalURL =
     \<lparr>jbOptions = (if sameDirectDownloadHost (nlParse lib) (nlEqualFold lib) (doURL d) finalURL then d
                   else d\<lparr>doCookie := []\<rparr>),
      jbURL = finalURL,
      jbBytes = (if fileSize < doBytes d then fileSize else doBytes d)\<rparr>"

definition prepareDirectDownload ::
  "net_lib \<Rightarrow> direct_wire \<Rightarrow> DirectDownloadBenchOptions \<Rightarrow> benchError + (job \<times> int \<times> directDownloadStats)" where
  "prepareDirectDownload lib wire opts =
     (case normalizeDirectDownloadOptions (nlParseURI lib) opts of
        Inl e \<Rightarrow> Inl (BadOptions e)
      | Inr d \<Rightarrow>
          (case probeDirectDownload wire d newDirectDownloadStats of
             (Inl e, ps) \<Rightarrow> Inl (BadProbe e)
           | (Inr (fileSize, finalURL), ps) \<Rightarrow> Inr (directJob lib d fileSize finalURL, fileSize, ps)))"

text \<open>What the function returns once \<open>workers.Wait()\<close> has returned.\<close>

definition benchResult ::
  "job \<Rightarrow> int \<Rightarrow> directDownloadStats \<Rightarrow> int \<Rightarrow> bench \<Rightarrow> benchError + DirectDownloadBenchResult" where
  "benchResult j fileSize ps elapsed s =
     (case bnFirstErr s of
        Some e \<Rightarrow> Inl (BadDownload e)
      | None \<Rightarrow>
          if bnExpired s then Inl TimedOut
          else let (observed, protocols) = snapshot (bnStats s) in
            Inr \<lparr>dbBytes = jbBytes j, dbFileSize = fileSize, dbElapsed = elapsed,
                 dbConfigured = doConnections (jbOptions j), dbObserved = observed,
                 dbChunkSize = doChunkSize (jbOptions j), dbHTTPVersion = doHTTPVersion (jbOptions j),
                 dbProtocols = protocols, dbRangeRequests = dsRangeRequests (bnStats s),
                 dbRetries = dsRetries (bnStats s),
                 dbRedirects = dsRedirects ps + dsRedirects (bnStats s)\<rparr>)"

section \<open>Laws of one range\<close>

definition counted :: "directDownloadStats \<Rightarrow> int" where
  "counted s = dsRangeRequests s - dsRetries s"

lemma recordConnection_counts [simp]:
  "dsRangeRequests (fold recordConnection cs s) = dsRangeRequests s" "dsRetries (fold recordConnection cs s) = dsRetries s"
  by (induction cs arbitrary: s) (simp_all add: recordConnection_def split: option.splits)

lemma performDirectRange_counts:
  "performDirectRange wire url d offset n s = (r, s') \<Longrightarrow>
   dsRangeRequests s' = dsRangeRequests s + 1 \<and> dsRetries s' = dsRetries s"
  by (auto simp: performDirectRange_def recordProtocol_def Let_def split: doResult.splits option.splits)

text \<open>A successful answer is exactly the range asked for.\<close>

definition exact_answer :: "DirectDownloadBenchOptions \<Rightarrow> int \<Rightarrow> int \<Rightarrow> directResponse \<Rightarrow> bool" where
  "exact_answer d offset n resp \<longleftrightarrow>
     drStatus resp = 206 \<and> len (drBody resp) = n \<and>
     (\<exists>whole. parseDirectContentRange (drContentRange resp) = Some (offset, i64 (offset + n - 1), whole)) \<and>
     (doHTTPVersion d = ''2'' \<longrightarrow> drProtoMajor resp = 2) \<and>
     (doHTTPVersion d = ''1.1'' \<longrightarrow> drProtoMajor resp = 1 \<and> drProtoMinor resp = 1)"

lemma checkDirectBody_exact: "checkDirectBody n resp = Inr u \<Longrightarrow> len (drBody resp) = n"
  by (auto simp: checkDirectBody_def directErr_def split: if_splits)

lemma checkDirectResponse_exact:
  assumes "checkDirectResponse d offset n resp = Inr r"
  shows "exact_answer d offset n resp"
  using assms
  by (auto simp: checkDirectResponse_def exact_answer_def directErr_def Let_def
      split: if_splits option.splits prod.splits sum.splits dest: checkDirectBody_exact)

lemma performDirectRange_exact:
  assumes "performDirectRange wire url d offset n s = (Inr r, s')"
  shows "\<exists>resp. xcResult (wire (directRequest url d offset n)) = Answered resp \<and> exact_answer d offset n resp"
  using assms
  by (auto simp: performDirectRange_def directErr_def Let_def split: doResult.splits option.splits
      dest: checkDirectResponse_exact)

lemma checkDirectResponse_cause: "checkDirectResponse d offset n resp = Inl e \<Longrightarrow> deCause e = None"
  by (auto simp: checkDirectResponse_def checkDirectBody_def directErr_def Let_def
      split: if_splits option.splits prod.splits sum.splits)

lemma performDirectRange_cause:
  assumes "performDirectRange wire url d offset n s = (Inl e, s')"
    and "\<And>q ce. xcResult (wire q) \<noteq> DoFailed (Some ce)"
  shows "deCause e = None"
  using assms
  by (auto simp: performDirectRange_def directErr_def Let_def split: doResult.splits option.splits
      dest: checkDirectResponse_cause)

lemma retryFrom_ok:
  assumes "retryFrom w url d offset n a s = (None, s')" "0 \<le> a" "0 \<le> doRetries d"
  shows "counted s' = counted s + 1 \<and>
         (\<exists>b resp. a \<le> b \<and> (b = a \<or> b \<le> doRetries d) \<and> xcResult (rwWire w b (directRequest url d offset n)) = Answered resp \<and>
            exact_answer d offset n resp)"
  using assms
proof (induction w url d offset n a s rule: retryFrom.induct)
  case (1 w url d offset n a s)
  obtain r s1 where p: "performDirectRange (rwWire w a) url d offset n s = (r, s1)" by fastforce
  have c: "counted s1 = counted s + 1" using performDirectRange_counts [OF p] by (simp add: counted_def)
  show ?case
  proof (cases r)
    case (Inr x)
    then have "s' = s1" using "1.prems"(1) p by (simp add: retryFrom.simps [of w])
    moreover obtain resp where "xcResult (rwWire w a (directRequest url d offset n)) = Answered resp"
      "exact_answer d offset n resp" using performDirectRange_exact p Inr by blast
    ultimately show ?thesis using c by blast
  next
    case (Inl e)
    have go: "\<not> (\<not> deRetryable e \<or> doRetries d \<le> a \<or> rwCtx w a \<noteq> None)"
      using "1.prems"(1) p Inl by (auto simp: retryFrom.simps [of w] split: if_splits)
    have wt: "rwWait w a = None"
      using "1.prems"(1) p Inl go by (auto simp: retryFrom.simps [of w] Let_def split: option.splits)
    define s2 where "s2 = s1\<lparr>dsRetries := dsRetries s1 + 1\<rparr>"
    have rec: "retryFrom w url d offset n (a + 1) s2 = (None, s')"
      using "1.prems"(1) p Inl go wt by (simp add: retryFrom.simps [of w _ _ _ _ a] s2_def)
    have "counted s' = counted s2 + 1 \<and>
         (\<exists>b resp. a + 1 \<le> b \<and> (b = a + 1 \<or> b \<le> doRetries d) \<and> xcResult (rwWire w b (directRequest url d offset n)) = Answered resp \<and>
            exact_answer d offset n resp)"
      using "1.IH" [OF p [symmetric] Inl go s2_def wt] rec "1.prems"(2,3) by simp
    moreover have "counted s2 = counted s" using c by (simp add: counted_def s2_def)
    moreover have "a + 1 \<le> doRetries d" using go by simp
    ultimately show ?thesis by (smt (verit))
  qed
qed

lemma retryFrom_error:
  assumes "quiet_world w" "retryFrom w url d offset n a s = (Some e, s')"
  shows "\<exists>x. e = DownloadFailed x \<and> deCause x = None"
  using assms
proof (induction w url d offset n a s rule: retryFrom.induct)
  case (1 w url d offset n a s)
  obtain r s1 where p: "performDirectRange (rwWire w a) url d offset n s = (r, s1)" by fastforce
  obtain x where r: "r = Inl x"
    using "1.prems"(2) p by (cases r) (auto simp: retryFrom.simps [of w])
  have cause: "deCause x = None"
    using performDirectRange_cause p r "1.prems"(1) unfolding quiet_world_def by blast
  have wt: "rwWait w a = None" "rwCtx w a = None" using "1.prems"(1) by (auto simp: quiet_world_def)
  show ?case
  proof (cases "\<not> deRetryable x \<or> doRetries d \<le> a \<or> rwCtx w a \<noteq> None")
    case True
    then have "e = DownloadFailed x" using "1.prems"(2) p r by (simp add: retryFrom.simps [of w])
    then show ?thesis using cause by simp
  next
    case False
    then have "retryFrom w url d offset n (a + 1) (s1\<lparr>dsRetries := dsRetries s1 + 1\<rparr>) = (Some e, s')"
      using "1.prems"(2) p r wt by (simp add: retryFrom.simps [of w _ _ _ _ a])
    then show ?thesis using "1.IH" [OF p [symmetric] r False refl wt(1)] "1.prems"(1) by simp
  qed
qed

end
