(* ===== verification/Termination.thy ===== *)
theory Termination
  imports Transition
begin

text \<open>
  Transition systems every run of which ends: a measure that each step makes smaller. The workers of the direct download
  and the threads that end a mount interpret it.
\<close>

locale terminating_system = transition_system init step inv ext
  for init :: "'s \<Rightarrow> bool" and step :: "'s \<Rightarrow> 's \<Rightarrow> bool" and inv :: "'s \<Rightarrow> bool" and ext :: "'s \<Rightarrow> 's \<Rightarrow> bool" +
  fixes weigh :: "'s \<Rightarrow> nat"
  assumes step_less: "inv s \<Longrightarrow> step s t \<Longrightarrow> weigh t < weigh s"
begin

lemma run_weight:
  assumes "inv (f 0)" "\<And>n. step (f n) (f (Suc n))"
  shows "inv (f n) \<and> weigh (f n) + n \<le> weigh (f 0)"
proof (induction n)
  case (Suc n)
  then show ?case using step_inv [OF _ assms(2)] step_less [OF _ assms(2)] by fastforce
qed (use assms(1) in simp)

lemma no_infinite_run:
  assumes "inv s"
  shows "\<not> (\<exists>f. f 0 = s \<and> (\<forall>n. step (f n) (f (Suc n))))"
proof
  assume "\<exists>f. f 0 = s \<and> (\<forall>n. step (f n) (f (Suc n)))"
  then obtain f where f: "f 0 = s" "\<And>n. step (f n) (f (Suc n))" by blast
  from run_weight [of f "Suc (weigh (f 0))"] f assms show False by simp
qed

end

end
