(* ===== verification/DirectLaws.thy ===== *)
theory DirectLaws
  imports DirectWorkers Termination
begin

text \<open>
  Laws of the direct download benchmark: the chunks tile the bytes, every chunk is taken once whatever the order of
  the workers, a run that ends without an error has downloaded them all, the error that is reported is the one that came first and a real one, and every
  run ends.
\<close>

section \<open>The chunks\<close>

definition job_ok :: "job \<Rightarrow> bool" where
  "job_ok j \<longleftrightarrow> 0 < jbBytes j \<and> 0 < doChunkSize (jbOptions j) \<and> jbBytes j + doChunkSize (jbOptions j) + 128 \<le> 2 ^ 63 \<and>
     0 < doConnections (jbOptions j) \<and> doConnections (jbOptions j) \<le> 64 \<and> 0 \<le> doRetries (jbOptions j)"

lemma countOf_div: "job_ok j \<Longrightarrow> countOf j = (jbBytes j + doChunkSize (jbOptions j) - 1) div doChunkSize (jbOptions j)"
  by (simp add: job_ok_def directChunkCount_def i64_nonneg_id go_div_nonneg)

lemma ceil_bounds:
  fixes n c :: int
  assumes "0 < n" "0 < c" "m = (n + c - 1) div c"
  shows "0 < m" "(m - 1) * c < n" "n \<le> m * c" "m \<le> n"
proof -
  have e: "m * c + (n + c - 1) mod c = n + c - 1" using assms(3) by simp
  have r: "0 \<le> (n + c - 1) mod c" "(n + c - 1) mod c < c" using assms(2) by auto
  show lo: "(m - 1) * c < n" using e r by (simp add: algebra_simps)
  show hi: "n \<le> m * c" using e r by linarith
  show pos: "0 < m" using hi assms(1,2) by (smt (verit) mult_nonpos_nonneg)
  have "(m - 1) * 1 \<le> (m - 1) * c" using pos assms(2) by (intro mult_left_mono) auto
  then have "m - 1 \<le> (m - 1) * c" by simp
  then show "m \<le> n" using lo by linarith
qed

lemma countOf_bounds:
  assumes "job_ok j"
  shows "0 < countOf j" "(countOf j - 1) * doChunkSize (jbOptions j) < jbBytes j"
    "jbBytes j \<le> countOf j * doChunkSize (jbOptions j)" "countOf j \<le> jbBytes j"
  using ceil_bounds [OF _ _ countOf_div [OF assms]] assms by (simp_all add: job_ok_def)

lemma count_small: "job_ok j \<Longrightarrow> countOf j + 128 < 2 ^ 63"
  using countOf_bounds(4) [of j] by (auto simp: job_ok_def)

lemma chunk_range:
  assumes "job_ok j" "0 \<le> k" "k < countOf j"
  shows "directOffset j k = k * doChunkSize (jbOptions j)"
    and "directLength j k = min (doChunkSize (jbOptions j)) (jbBytes j - k * doChunkSize (jbOptions j))"
    and "0 < directLength j k"
    and "k * doChunkSize (jbOptions j) < jbBytes j"
proof -
  let ?c = "doChunkSize (jbOptions j)"
  have c: "0 < ?c" and n: "0 < jbBytes j" "jbBytes j < 2 ^ 63" using assms(1) by (auto simp: job_ok_def)
  have "k * ?c \<le> (countOf j - 1) * ?c" using assms(3) c by (intro mult_right_mono) auto
  then show lt: "k * ?c < jbBytes j" using countOf_bounds(2) [OF assms(1)] by linarith
  have nn: "0 \<le> k * ?c" using assms(2) c by simp
  show off: "directOffset j k = k * ?c"
    unfolding directOffset_def using lt n(2) nn by (intro i64_nonneg_id) auto
  have "i64 (jbBytes j - k * ?c) = jbBytes j - k * ?c" using lt n(2) nn by (intro i64_nonneg_id) auto
  then show l: "directLength j k = min ?c (jbBytes j - k * ?c)" by (simp add: directLength_def off)
  show "0 < directLength j k" using l lt c by simp
qed

lemma chunks_tile:
  assumes "job_ok j" "0 \<le> b" "b < jbBytes j"
  shows "\<exists>!k. 0 \<le> k \<and> k < countOf j \<and> directOffset j k \<le> b \<and> b < directOffset j k + directLength j k"
proof
  let ?c = "doChunkSize (jbOptions j)" and ?k = "b div doChunkSize (jbOptions j)"
  have c: "0 < ?c" and n: "0 < jbBytes j" using assms(1) by (auto simp: job_ok_def)
  have e: "?k * ?c + b mod ?c = b" by simp
  have r: "0 \<le> b mod ?c" "b mod ?c < ?c" using c by auto
  have k0: "0 \<le> ?k" using assms(2) c by (simp add: pos_imp_zdiv_nonneg_iff)
  have "?k * ?c < countOf j * ?c"
    using e r assms(3) countOf_bounds(3) [OF assms(1)] by linarith
  then have k1: "?k < countOf j" using c by (simp add: mult_less_cancel_right)
  show "0 \<le> ?k \<and> ?k < countOf j \<and> directOffset j ?k \<le> b \<and> b < directOffset j ?k + directLength j ?k"
    unfolding chunk_range(1,2) [OF assms(1) k0 k1] using k0 k1 e r assms(3) by linarith
  fix k
  assume k: "0 \<le> k \<and> k < countOf j \<and> directOffset j k \<le> b \<and> b < directOffset j k + directLength j k"
  then have "k * ?c \<le> b" "b < k * ?c + ?c"
    using chunk_range(1,2) [OF assms(1), of k] by auto
  then show "k = ?k"
    by (intro int_div_pos_eq [symmetric, of b ?c k "b - k * ?c"]) (auto simp: algebra_simps)
qed

section \<open>The workers\<close>

fun busyOne :: "workerState \<Rightarrow> int multiset" where
  "busyOne (Busy k) = {#k#}"
| "busyOne x = {#}"

definition busyOf :: "workerState multiset \<Rightarrow> int multiset" where
  "busyOf W = (\<Sum>x\<in>#W. busyOne x)"

lemma busyOf_add [simp]: "busyOf (add_mset x W) = busyOne x + busyOf W"
  by (simp add: busyOf_def)

definition upTo :: "int \<Rightarrow> int multiset" where
  "upTo n = mset [0..n - 1]"

lemma upTo_Suc: "0 \<le> n \<Longrightarrow> upTo (n + 1) = add_mset n (upTo n)"
  by (simp add: upTo_def upto_rec2)

lemma mset_at:
  assumes "i < length ws"
  obtains W where "mset ws = add_mset (ws ! i) W" "\<And>x. mset (ws[i := x]) = add_mset x W"
proof
  show "mset ws = add_mset (ws ! i) (mset ws - {#ws ! i#})" using assms by simp
  show "\<And>x. mset (ws[i := x]) = add_mset x (mset ws - {#ws ! i#})" using assms by (simp add: mset_update)
qed

definition taken :: "job \<Rightarrow> bench \<Rightarrow> int multiset" where
  "taken j s = upTo (min (bnNext s) (countOf j))"

definition held :: "bench \<Rightarrow> int multiset" where
  "held s = mset (bnFinished s) + busyOf (mset (bnWorkers s))"

definition clean_run :: "job \<Rightarrow> bench \<Rightarrow> bool" where
  "clean_run j s \<longleftrightarrow> held s = taken j s \<and> \<not> bnStopped s \<and>
     (Exited \<in># mset (bnWorkers s) \<longrightarrow> countOf j \<le> bnNext s) \<and> counted (bnStats s) = len (bnFinished s)"

definition real_error :: "downloadError \<Rightarrow> bool" where
  "real_error e \<longleftrightarrow> (\<exists>x. e = DownloadFailed x \<and> deCause x = None)"

definition bench_inv :: "job \<Rightarrow> bench \<Rightarrow> bool" where
  "bench_inv j s \<longleftrightarrow>
     0 \<le> bnNext s \<and> bnNext s \<le> countOf j + int (count (mset (bnWorkers s)) Exited) \<and>
     length (bnWorkers s) = nat (doConnections (jbOptions j)) \<and> held s \<subseteq># taken j s \<and>
     (bnFirstErr s = None \<longrightarrow> clean_run j s) \<and>
     bnFirstErr s = (case bnFailures s of [] \<Rightarrow> None | e # es \<Rightarrow> Some e) \<and>
     (\<forall>e. bnFirstErr s = Some e \<and> \<not> bnExpired s \<longrightarrow> real_error e)"

lemma bench_inv_start: "job_ok j \<Longrightarrow> bench_inv j (benchStart j)"
  using countOf_bounds(1) [of j]
  by (auto simp: bench_inv_def benchStart_def held_def taken_def upTo_def busyOf_def clean_run_def
      newDirectDownloadStats_def counted_def)

lemma next_bound:
  assumes "job_ok j" "bench_inv j s"
  shows "0 \<le> bnNext s" "bnNext s + 1 < 2 ^ 63"
proof -
  have "count (mset (bnWorkers s)) Exited \<le> size (mset (bnWorkers s))" by (rule count_le_size)
  then have "count (mset (bnWorkers s)) Exited \<le> nat (doConnections (jbOptions j))"
    using assms(2) by (simp add: bench_inv_def)
  moreover have "0 < doConnections (jbOptions j)" using assms(1) by (simp add: job_ok_def)
  ultimately have "int (count (mset (bnWorkers s)) Exited) \<le> doConnections (jbOptions j)" by linarith
  moreover have "doConnections (jbOptions j) \<le> 64" using assms(1) by (simp add: job_ok_def)
  moreover have "bnNext s \<le> countOf j + int (count (mset (bnWorkers s)) Exited)" "0 \<le> bnNext s"
    using assms(2) by (simp_all add: bench_inv_def)
  ultimately show "0 \<le> bnNext s" "bnNext s + 1 < 2 ^ 63"
    using count_small [OF assms(1)] by linarith+
qed

lemma claim_eq:
  assumes "job_ok j" "bench_inv j s"
  shows "claimChunk j i s = s\<lparr>bnNext := bnNext s + 1,
           bnWorkers := (bnWorkers s)[i := if countOf j \<le> bnNext s then Exited else Busy (bnNext s)]\<rparr>"
  using next_bound [OF assms] by (simp add: claimChunk_def Let_def i64_nonneg_id)

lemma claim_inv:
  assumes j: "job_ok j" and inv: "bench_inv j s" and i: "i < length (bnWorkers s)" "bnWorkers s ! i = Idle"
  shows "bench_inv j (claimChunk j i s)"
proof -
  obtain W where W: "mset (bnWorkers s) = add_mset Idle W" "\<And>x. mset ((bnWorkers s)[i := x]) = add_mset x W"
    using mset_at [OF i(1)] i(2) by metis
  have n: "0 \<le> bnNext s" using inv by (simp add: bench_inv_def)
  note c = claim_eq [OF j inv]
  show ?thesis
  proof (cases "countOf j \<le> bnNext s")
    case True
    then have "min (bnNext s) (countOf j) = countOf j" "min (bnNext s + 1) (countOf j) = countOf j" by auto
    then show ?thesis
      using inv n True by (auto simp: c bench_inv_def held_def taken_def clean_run_def W)
  next
    case False
    then have "upTo (bnNext s + 1) = add_mset (bnNext s) (upTo (bnNext s))" using n by (intro upTo_Suc)
    moreover have "min (bnNext s) (countOf j) = bnNext s" "min (bnNext s + 1) (countOf j) = bnNext s + 1"
      using False by auto
    ultimately show ?thesis
      using inv n False by (auto simp: c bench_inv_def held_def taken_def clean_run_def W)
  qed
qed

lemma finish_inv:
  assumes j: "job_ok j" and inv: "bench_inv j s" and i: "i < length (bnWorkers s)" "bnWorkers s ! i = Busy k"
    and w: "quiet_world w \<or> bnStopped s \<or> bnExpired s"
  shows "bench_inv j (noteFailure (fst (downloadChunk w j k s)) (finishChunk i k (downloadChunk w j k s) s))"
proof -
  obtain W where W: "mset (bnWorkers s) = add_mset (Busy k) W" "\<And>x. mset ((bnWorkers s)[i := x]) = add_mset x W"
    using mset_at [OF i(1)] i(2) by metis
  obtain r st where d: "downloadChunk w j k s = (r, st)" by fastforce
  show ?thesis
  proof (cases r)
    case None
    then have "counted st = counted (bnStats s) + 1"
      using retryFrom_ok [of w] d j by (auto simp: downloadChunk_def downloadRangeWithRetry_def job_ok_def)
    then show ?thesis
      using inv None by (auto simp: d noteFailure_def finishChunk_def bench_inv_def held_def taken_def clean_run_def W)
  next
    case (Some e)
    have "real_error e" if "bnFirstErr s = None" "\<not> bnExpired s"
    proof -
      have "quiet_world w" using that w inv by (auto simp: bench_inv_def clean_run_def)
      then show ?thesis
        using retryFrom_error d Some by (auto simp: downloadChunk_def downloadRangeWithRetry_def real_error_def)
    qed
    moreover define t where "t = noteFailure r (finishChunk i k (r, st) s)"
    have "held t \<subseteq># held s"
      using Some by (simp add: t_def noteFailure_def finishChunk_def held_def W)
    then have "held t \<subseteq># taken j s"
      using inv by (auto simp: bench_inv_def intro: subset_mset.order_trans)
    ultimately show ?thesis
      using inv Some unfolding d fst_conv t_def [symmetric]
      by (auto simp: t_def noteFailure_def finishChunk_def bench_inv_def taken_def W split: option.splits list.splits)
  qed
qed

definition bench_ext :: "bench \<Rightarrow> bench \<Rightarrow> bool" where
  "bench_ext s t \<longleftrightarrow> prefix (bnFinished s) (bnFinished t) \<and> (\<forall>e. bnFirstErr s = Some e \<longrightarrow> bnFirstErr t = Some e)"

lemma expire_inv: "bench_inv j s \<Longrightarrow> bench_inv j (s\<lparr>bnExpired := True\<rparr>)"
  by (auto simp: bench_inv_def held_def taken_def clean_run_def)

lemma bench_step_inv: "job_ok j \<Longrightarrow> bench_inv j s \<Longrightarrow> bench_step j s t \<Longrightarrow> bench_inv j t"
  by (erule bench_step.cases) (use claim_inv finish_inv expire_inv in blast)+

lemma bench_step_ext: "bench_step j s t \<Longrightarrow> bench_ext s t"
  by (erule bench_step.cases)
    (auto simp: bench_ext_def claimChunk_def noteFailure_def finishChunk_def Let_def split: option.splits)

section \<open>Every run ends\<close>

fun weight :: "workerState \<Rightarrow> nat" where
  "weight Idle = 1"
| "weight (Busy k) = 2"
| "weight Exited = 0"

definition bench_measure :: "job \<Rightarrow> bench \<Rightarrow> nat" where
  "bench_measure j s = 2 * nat (countOf j - bnNext s) + (\<Sum>x\<in>#mset (bnWorkers s). weight x) + (if bnExpired s then 0 else 1)"

lemma bench_step_less:
  assumes "job_ok j" "bench_inv j s" "bench_step j s t"
  shows "bench_measure j t < bench_measure j s"
  using assms(3)
proof cases
  case (bs_claim i)
  obtain W where W: "mset (bnWorkers s) = add_mset Idle W" "\<And>x. mset ((bnWorkers s)[i := x]) = add_mset x W"
    using mset_at [OF bs_claim(2)] bs_claim(3) by metis
  show ?thesis by (auto simp: bs_claim(1) claim_eq [OF assms(1,2)] bench_measure_def W)
next
  case (bs_finish i k w)
  obtain W where W: "mset (bnWorkers s) = add_mset (Busy k) W" "\<And>x. mset ((bnWorkers s)[i := x]) = add_mset x W"
    using mset_at [OF bs_finish(2)] bs_finish(3) by metis
  show ?thesis by (auto simp: bs_finish(1) noteFailure_def finishChunk_def bench_measure_def W split: option.splits)
next
  case bs_expire
  then show ?thesis by (simp add: bench_measure_def)
qed

lemma bench_progress:
  assumes "\<not> allExited s"
  shows "\<exists>t. bench_step j s t"
proof -
  obtain i where i: "i < length (bnWorkers s)" "bnWorkers s ! i \<noteq> Exited"
    using assms by (auto simp: allExited_def in_set_conv_nth)
  define w :: range_world where
    "w = \<lparr>rwWire = \<lambda>a q. \<lparr>xcConns = [], xcRedirects = 0, xcResult = NoRequest\<rparr>, rwCtx = \<lambda>a. None, rwWait = \<lambda>a. None\<rparr>"
  have "quiet_world w" by (simp add: quiet_world_def w_def)
  then show ?thesis using bs_claim [OF i(1)] bs_finish [OF i(1)] i(2) by (cases "bnWorkers s ! i") blast+
qed

interpretation workers: terminating_system "\<lambda>s. job_ok j \<and> s = benchStart j" "bench_step j" "\<lambda>s. job_ok j \<and> bench_inv j s"
  bench_ext "bench_measure j" for j
  by unfold_locales
    (auto intro: bench_inv_start bench_step_inv bench_step_ext bench_step_less dest: bench_step_ext
      simp: bench_ext_def intro: prefix_order.trans)

section \<open>What a run that ended has done\<close>

text \<open>A run that fails reports the failure that came first.\<close>

lemma reported_first: "bench_inv j s \<Longrightarrow> bnFirstErr s = Some e \<Longrightarrow> bnFailures s \<noteq> [] \<and> e = hd (bnFailures s)"
  by (auto simp: bench_inv_def split: list.splits)

lemma all_exited_busy: "\<forall>x \<in> set ws. x = Exited \<Longrightarrow> busyOf (mset ws) = {#}"
  by (induction ws) (auto simp: busyOf_def)

lemma ended_clean:
  assumes "job_ok j" "bench_inv j s" "allExited s" "bnFirstErr s = None"
  shows "mset (bnFinished s) = upTo (countOf j)" "dsRangeRequests (bnStats s) = countOf j + dsRetries (bnStats s)"
proof -
  have cl: "clean_run j s" using assms(2,4) by (simp add: bench_inv_def)
  have "bnWorkers s \<noteq> []" using assms(1,2) by (auto simp: bench_inv_def job_ok_def)
  then have "Exited \<in># mset (bnWorkers s)"
    using assms(3) by (cases "bnWorkers s") (auto simp: allExited_def)
  then have n: "countOf j \<le> bnNext s" using cl by (simp add: clean_run_def)
  have b: "busyOf (mset (bnWorkers s)) = {#}"
    using assms(3) by (intro all_exited_busy) (simp add: allExited_def)
  then show f: "mset (bnFinished s) = upTo (countOf j)"
    using cl n by (simp add: clean_run_def held_def taken_def min_absorb2)
  have "length (bnFinished s) = size (mset (bnFinished s))" by simp
  also have "\<dots> = nat (countOf j)" by (simp only: f upTo_def) simp
  finally have "len (bnFinished s) = countOf j" using countOf_bounds(1) [OF assms(1)] by simp
  then show "dsRangeRequests (bnStats s) = countOf j + dsRetries (bnStats s)"
    using cl by (simp add: clean_run_def counted_def)
qed

section \<open>Options and job\<close>

lemma normalize_options_ok:
  assumes "normalizeDirectDownloadOptions parseURI d = Inr e"
  shows "0 < doBytes e \<and> 0 < doConnections e \<and> doConnections e \<le> 64 \<and> 0 < doChunkSize e \<and> 0 < doTimeout e \<and>
         0 \<le> doRetries e \<and> doRetries e \<le> 10 \<and> doHTTPVersion e \<in> {''auto'', ''1.1'', ''2''} \<and> doURL e \<noteq> [] \<and>
         (\<exists>u. parseURI (doURL e) = Inr u \<and> urHost u \<noteq> [] \<and> urScheme u \<in> {''http'', ''https''})"
proof -
  have e: "e = defaultDirectOptions d"
    using assms by (auto simp: normalizeDirectDownloadOptions_def Let_def split: if_splits)
  show ?thesis
    using assms by (auto simp: normalizeDirectDownloadOptions_def Let_def e split: if_splits sum.splits)
qed

lemma probe_positive:
  "probeDirectDownload wire d s = (Inr (n, u), s') \<Longrightarrow> 0 < n"
  by (auto simp: probeDirectDownload_def split: prod.splits sum.splits if_splits)

lemma prepare_job_ok:
  assumes "prepareDirectDownload lib wire opts = Inr (j, fileSize, ps)"
    and "jbBytes j + doChunkSize (jbOptions j) + 128 \<le> 2 ^ 63"
  shows "job_ok j"
proof -
  obtain d u where d: "normalizeDirectDownloadOptions (nlParseURI lib) opts = Inr d"
    "probeDirectDownload wire d newDirectDownloadStats = (Inr (fileSize, u), ps)" "j = directJob lib d fileSize u"
    using assms(1) by (auto simp: prepareDirectDownload_def split: sum.splits prod.splits)
  show ?thesis
    using normalize_options_ok [OF d(1)] probe_positive [OF d(2)] assms(2)
    by (auto simp: d(3) job_ok_def directJob_def)
qed

text \<open>The cookie does not leave the host it was given for.\<close>

lemma directJob_cookie:
  "doCookie (jbOptions (directJob lib d n u)) \<noteq> [] \<Longrightarrow> sameDirectDownloadHost (nlParse lib) (nlEqualFold lib) (doURL d) u"
  by (auto simp: directJob_def split: if_splits)

lemma CheckRedirect_cookie:
  assumes "CheckRedirect eq d req via s = ((ok, req'), s')"
    and "\<not> eq (hpHostname req) (hpHostname (hd via)) \<or> via = []"
  shows "hpHeader req' ''Cookie'' = hpHeader req ''Cookie''"
  using assms by (auto simp: CheckRedirect_def Let_def split: if_splits)

lemma CheckRedirect_range:
  assumes "CheckRedirect eq d req via s = ((True, req'), s')" "via \<noteq> []"
  shows "hpHeader req' ''Range'' = hpHeader (List.last via) ''Range''" "length via < 10"
  using assms by (auto simp: CheckRedirect_def Let_def split: if_splits)

lemma prepare_valid:
  assumes "prepareDirectDownload lib wire opts = Inr (j, fileSize, ps)"
  shows "0 < jbBytes j \<and> jbBytes j \<le> fileSize \<and> 0 < doChunkSize (jbOptions j) \<and>
    0 < doConnections (jbOptions j) \<and> doConnections (jbOptions j) \<le> 64 \<and>
    0 \<le> doRetries (jbOptions j) \<and> doRetries (jbOptions j) \<le> 10 \<and> doHTTPVersion (jbOptions j) \<in> {''auto'', ''1.1'', ''2''} \<and>
    (doCookie (jbOptions j) = [] \<or> sameDirectDownloadHost (nlParse lib) (nlEqualFold lib) (TrimSpace (doURL opts)) (jbURL j))"
proof -
  obtain d u where d: "normalizeDirectDownloadOptions (nlParseURI lib) opts = Inr d"
    "probeDirectDownload wire d newDirectDownloadStats = (Inr (fileSize, u), ps)" "j = directJob lib d fileSize u"
    using assms by (auto simp: prepareDirectDownload_def split: sum.splits prod.splits)
  have url: "doURL d = TrimSpace (doURL opts)"
    using d(1) by (auto simp: normalizeDirectDownloadOptions_def defaultDirectOptions_def Let_def split: if_splits)
  have cookie: "doCookie (jbOptions j) = [] \<or>
      sameDirectDownloadHost (nlParse lib) (nlEqualFold lib) (TrimSpace (doURL opts)) (jbURL j)"
    using directJob_cookie [of lib d fileSize u] by (auto simp: d(3) url [symmetric] directJob_def)
  have "doChunkSize (jbOptions j) = doChunkSize d" "doConnections (jbOptions j) = doConnections d"
    "doRetries (jbOptions j) = doRetries d" "doHTTPVersion (jbOptions j) = doHTTPVersion d"
    "jbBytes j = (if fileSize < doBytes d then fileSize else doBytes d)"
    by (simp_all add: d(3) directJob_def)
  then show ?thesis using normalize_options_ok [OF d(1)] probe_positive [OF d(2)] cookie by simp
qed

section \<open>The parser and the client's parser\<close>

lemma parse_nonneg:
  assumes "ParseInt s = Some n" "CHR ''-'' \<notin> set s"
  shows "0 \<le> n"
  using assms by (cases s) (auto simp: ParseInt_def Let_def split: option.splits if_splits)

lemma SplitN2_head: "SplitN2 c s = [a, b] \<Longrightarrow> c \<notin> set a"
  by (auto simp: SplitN2_def split: if_splits dest: set_takeWhileD)

lemma parseDirect_iff:
  "parseDirectContentRange v = Some (a, b, t) \<longleftrightarrow> parseContentRange v = Inr (a, b, t) \<and> t \<noteq> - 1"
proof
  assume l: "parseDirectContentRange v = Some (a, b, t)"
  then obtain p q x y where pq: "SplitN2 CHR ''/'' (TrimPrefix v ''bytes '') = [p, q]" "SplitN2 CHR ''-'' p = [x, y]"
    and n: "ParseInt x = Some a" "a \<le> b" "b < t" and r: "parseContentRange v = Inr (a, b, t)"
    by (auto simp: parseDirectContentRange_def parseContentRange_def Let_def split: if_splits list.splits option.splits)
  then show "parseContentRange v = Inr (a, b, t) \<and> t \<noteq> - 1"
    using parse_nonneg [OF n(1) SplitN2_head [OF pq(2)]] by simp
next
  assume "parseContentRange v = Inr (a, b, t) \<and> t \<noteq> - 1"
  then show "parseDirectContentRange v = Some (a, b, t)"
    by (auto simp: parseDirectContentRange_def parseContentRange_def Let_def split: if_splits list.splits option.splits)
qed

section \<open>The text of the protocols\<close>

lemma FormatProtocols_order:
  assumes "mset xs = mset ys" "alist_ok xs"
  shows "FormatDirectDownloadProtocols xs = FormatDirectDownloadProtocols ys"
proof -
  have d: "distinct (map fst xs)" "distinct (map fst ys)"
    using assms mset_eq_imp_distinct_iff [of "map fst xs" "map fst ys"] by (auto simp: alist_ok_def)
  have "sort (map fst xs) = sort (map fst ys)"
    using assms(1) by (intro properties_for_sort) simp_all
  moreover have "map_of xs = map_of ys"
    unfolding map_of_inject_set [OF d] using assms(1) by (rule mset_eq_setD)
  moreover have "xs = [] \<longleftrightarrow> ys = []" using assms(1) by auto
  ultimately show ?thesis by (simp add: FormatDirectDownloadProtocols_def)
qed

section \<open>A chunk size near the end of the integers\<close>

definition hugeJob :: job where
  "hugeJob =
     \<lparr>jbOptions = \<lparr>doURL = ''u'', doCookie = [], doBytes = 268435456, doConnections = 1, doChunkSize = 9223372036854775807,
        doHTTPVersion = ''auto'', doTimeout = 1, doRetries = 0\<rparr>, jbURL = ''u'', jbBytes = 268435456\<rparr>"

lemma huge_chunk_count: "directChunkCount 268435456 9223372036854775807 = 0"
  by (simp add: directChunkCount_def i64_def go_div_def)

lemma huge_count: "countOf hugeJob = 0"
  by (simp add: hugeJob_def huge_chunk_count)

lemma huge_run:
  "bench_step hugeJob (benchStart hugeJob)
     (benchStart hugeJob\<lparr>bnNext := 1, bnWorkers := [Exited]\<rparr>)"
proof -
  have s: "claimChunk hugeJob 0 (benchStart hugeJob) = benchStart hugeJob\<lparr>bnNext := 1, bnWorkers := [Exited]\<rparr>"
    by (simp add: claimChunk_def huge_chunk_count benchStart_def hugeJob_def)
  show ?thesis
    unfolding s [symmetric] by (rule bs_claim) (simp_all add: benchStart_def hugeJob_def)
qed

lemma huge_result:
  "\<exists>s r. (bench_step hugeJob)\<^sup>*\<^sup>* (benchStart hugeJob) s \<and> allExited s \<and> benchResult hugeJob n ps elapsed s = Inr r \<and>
     dbBytes r = 268435456 \<and> dbRangeRequests r = 0"
proof -
  let ?s = "benchStart hugeJob\<lparr>bnNext := 1, bnWorkers := [Exited]\<rparr>"
  have "(bench_step hugeJob)\<^sup>*\<^sup>* (benchStart hugeJob) ?s" using huge_run by (rule r_into_rtranclp)
  moreover have "allExited ?s" by (simp add: allExited_def)
  moreover have "\<exists>r. benchResult hugeJob n ps elapsed ?s = Inr r \<and> dbBytes r = 268435456 \<and> dbRangeRequests r = 0"
    by (simp add: benchResult_def benchStart_def snapshot_def newDirectDownloadStats_def) (simp add: hugeJob_def)
  ultimately show ?thesis by blast
qed

end
