(* ===== verification/DirectExample.thy ===== *)
theory DirectExample
  imports DirectLaws
begin

text \<open>A direct download of one chunk from a file of five bytes, and a run of one worker that downloads it.\<close>

definition exLib :: net_lib where
  "exLib = \<lparr>nlParseURI = (\<lambda>u. Inr \<lparr>urScheme = ''http'', urHost = u, urHostname = u\<rparr>),
     nlParse = (\<lambda>u. Inr \<lparr>urScheme = ''http'', urHost = u, urHostname = u\<rparr>), nlEqualFold = (\<lambda>a b. a = b)\<rparr>"

definition exAnswer :: directResponse where
  "exAnswer = \<lparr>drProto = ''HTTP/1.1'', drProtoMajor = 1, drProtoMinor = 1, drStatus = 206,
     drContentRange = ''bytes 0-0/5'', drContentLength = 1, drBody = [7], drTail = Some ErrEOF, drURL = ''u''\<rparr>"

definition exDirectWire :: direct_wire where
  "exDirectWire = (\<lambda>_. \<lparr>xcConns = [Some 1], xcRedirects = 0, xcResult = Answered exAnswer\<rparr>)"

definition exDirectOpts :: DirectDownloadBenchOptions where
  "exDirectOpts = \<lparr>doURL = ''u'', doCookie = ''c'', doBytes = 1, doConnections = 1, doChunkSize = 4, doHTTPVersion = ''1.1'',
     doTimeout = 1, doRetries = 2\<rparr>"

definition exJob :: job where
  "exJob = \<lparr>jbOptions = exDirectOpts, jbURL = ''u'', jbBytes = 1\<rparr>"

definition exDirectStats :: directDownloadStats where
  "exDirectStats = \<lparr>dsConnections = {1}, dsProtocols = [(''HTTP/1.1'', 1)], dsRangeRequests = 1, dsRetries = 0, dsRedirects = 0\<rparr>"

lemma ex_range_text: "parseDirectContentRange ''bytes 0-0/5'' = Some (0, 0, 5)"
proof -
  have z: "ParseInt ''0'' = Some 0" and f: "ParseInt ''5'' = Some 5"
    by (simp_all add: ParseInt_def parse_nat_def digit_val_def)
  show ?thesis by (simp add: parseDirectContentRange_def HasPrefix_def TrimPrefix_def SplitN2_def z f)
qed

lemma ex_perform:
  "performDirectRange exDirectWire u exDirectOpts 0 1 newDirectDownloadStats = (Inr \<lparr>dgTotal = 5, dgFinalURL = ''u''\<rparr>, exDirectStats)"
  by (simp add: performDirectRange_def exDirectWire_def checkDirectResponse_def exAnswer_def exDirectOpts_def ex_range_text
      checkDirectBody_def recordConnection_def recordProtocol_def newDirectDownloadStats_def exDirectStats_def Let_def)

lemma ex_trim: "TrimSpace ''u'' = ''u''" "TrimSpace ''c'' = ''c''" "TrimSpace [] = []"
  by (simp_all add: TrimSpace_def go_spaces_def bytes_of_def upt_rec char_of_def)

lemma ex_prepare: "prepareDirectDownload exLib exDirectWire exDirectOpts = Inr (exJob, 5, exDirectStats)"
proof -
  have "normalizeDirectDownloadOptions (nlParseURI exLib) exDirectOpts = Inr exDirectOpts"
    by (simp add: normalizeDirectDownloadOptions_def defaultDirectOptions_def exDirectOpts_def exLib_def ex_trim)
  then show ?thesis
    using ex_perform by (simp add: prepareDirectDownload_def probeDirectDownload_def directJob_def exJob_def
        sameDirectDownloadHost_def exLib_def) (simp add: exDirectOpts_def)
qed

lemma ex_bound: "jbBytes exJob + doChunkSize (jbOptions exJob) + 128 \<le> 2 ^ 63"
  by (simp add: exJob_def exDirectOpts_def)

lemma ex_count: "countOf exJob = 1"
  by (simp add: exJob_def exDirectOpts_def directChunkCount_def i64_def go_div_def)

definition exWorld1 :: range_world where
  "exWorld1 = \<lparr>rwWire = \<lambda>_. exDirectWire, rwCtx = \<lambda>_. None, rwWait = \<lambda>_. None\<rparr>"

definition exEnded :: bench where
  "exEnded = (benchStart exJob)\<lparr>bnNext := 2, bnWorkers := [Exited], bnStats := exDirectStats, bnFinished := [0]\<rparr>"

lemma ex_offset: "directOffset exJob 0 = 0" "directLength exJob 0 = 1"
  by (simp_all add: directOffset_def directLength_def exJob_def exDirectOpts_def)

lemma ex_download: "downloadChunk exWorld1 exJob 0 (benchStart exJob\<lparr>bnNext := 1, bnWorkers := [Busy 0]\<rparr>) = (None, exDirectStats)"
proof -
  show ?thesis
    using ex_offset ex_perform [of "jbURL exJob"]
    by (simp add: downloadChunk_def downloadRangeWithRetry_def retryFrom.simps [of exWorld1] benchStart_def)
      (simp add: exJob_def exWorld1_def)
qed

lemma ex_run: "(bench_step exJob)\<^sup>*\<^sup>* (benchStart exJob) exEnded" "allExited exEnded"
proof -
  let ?s0 = "benchStart exJob" and ?s1 = "benchStart exJob\<lparr>bnNext := 1, bnWorkers := [Busy 0]\<rparr>"
  let ?s2 = "benchStart exJob\<lparr>bnNext := 1, bnWorkers := [Idle], bnStats := exDirectStats, bnFinished := [0]\<rparr>"
  have w0: "bnWorkers ?s0 = [Idle]" by (simp add: benchStart_def exJob_def exDirectOpts_def)
  have "claimChunk exJob 0 ?s0 = ?s1" by (simp add: claimChunk_def ex_count w0) (simp add: benchStart_def)
  moreover have "bench_step exJob ?s0 (claimChunk exJob 0 ?s0)" by (rule bs_claim) (simp_all add: w0)
  ultimately have 1: "bench_step exJob ?s0 ?s1" by simp
  have "noteFailure (fst (downloadChunk exWorld1 exJob 0 ?s1)) (finishChunk 0 0 (downloadChunk exWorld1 exJob 0 ?s1) ?s1) = ?s2"
    by (simp only: ex_download) (simp add: noteFailure_def finishChunk_def benchStart_def)
  moreover have "bench_step exJob ?s1
      (noteFailure (fst (downloadChunk exWorld1 exJob 0 ?s1)) (finishChunk 0 0 (downloadChunk exWorld1 exJob 0 ?s1) ?s1))"
    by (rule bs_finish) (simp_all add: quiet_world_def exWorld1_def exDirectWire_def)
  ultimately have 2: "bench_step exJob ?s1 ?s2" by simp
  have "claimChunk exJob 0 ?s2 = exEnded" by (simp add: claimChunk_def ex_count exEnded_def) (simp add: i64_def)
  moreover have "bench_step exJob ?s2 (claimChunk exJob 0 ?s2)" by (rule bs_claim) simp_all
  ultimately have 3: "bench_step exJob ?s2 exEnded" by simp
  show "(bench_step exJob)\<^sup>*\<^sup>* (benchStart exJob) exEnded"
    using 1 2 3 by (meson converse_rtranclp_into_rtranclp rtranclp.rtrancl_refl)
  show "allExited exEnded" by (simp add: allExited_def exEnded_def)
qed

lemma huge_accepted: "normalizeDirectDownloadOptions (nlParseURI exLib) (jbOptions hugeJob) = Inr (jbOptions hugeJob)"
  by (simp add: normalizeDirectDownloadOptions_def defaultDirectOptions_def hugeJob_def exLib_def ex_trim)

end
