(* ===== verification/RemotePath.thy ===== *)
theory RemotePath
  imports GoPath AppConfig
begin

text \<open>
  Paths given on the command line (\<open>internal/app/bench.go\<close>): \<open>benchmarkRemotePath\<close> places a path below the remote
  root, and \<open>resolveRemoteEntry\<close> walks the remote listings down to the entry it names. Both serve the benchmarks and
  the playback proxy. The client's answers are an argument, by the number of the call.
\<close>

section \<open>Definitions\<close>

record entryInfo =
  eiFSID :: string
  eiPath :: string
  eiName :: string
  eiSize :: int
  eiIsDir :: bool
  eiMTM :: int
  eiMD5 :: string
  eiFullPath :: string

definition joinRemotePath :: "string \<Rightarrow> string \<Rightarrow> string" where
  "joinRemotePath dir child =
     (if dir = [] \<or> dir = ''/'' then path_Join [''/'', child] else path_Join [dir, child])"

definition benchmarkRemotePath :: "string \<Rightarrow> string \<Rightarrow> string" where
  "benchmarkRemotePath root remotePath =
     (let p1 = TrimSpace remotePath;
          p2 = (if p1 = [] then ''/'' else p1);
          p3 = (if HasPrefix p2 ''/'' then p2 else ''/'' @ p2);
          p = Clean p3
      in if root = [] \<or> root = ''/'' then p
         else if p = root \<or> HasPrefix p (root @ ''/'') then p
         else if p = ''/'' then root
         else path_Join [root, TrimPrefix p ''/''])"

type_synonym lister = "nat \<Rightarrow> string \<Rightarrow> goerr + RemoteEntry list"

definition foundEntry :: "string \<Rightarrow> RemoteEntry \<Rightarrow> entryInfo" where
  "foundEntry currentPath child =
     \<lparr>eiFSID = reFSID child, eiPath = rePath child, eiName = reServerName child, eiSize = reSize child,
      eiIsDir = reIsDir child, eiMTM = reServerMTime child, eiMD5 = reMD5 child,
      eiFullPath = joinRemotePath currentPath (reServerName child)\<rparr>"

fun walkParts :: "lister \<Rightarrow> nat \<Rightarrow> string \<Rightarrow> string list \<Rightarrow> string \<Rightarrow> RemoteEntry list \<Rightarrow> goerr + entryInfo" where
  "walkParts ls n fullPath [] currentPath currentList = Inl (ErrText (''path not found: '' @ fullPath))"
| "walkParts ls n fullPath (part # parts) currentPath currentList =
     (case List.find (\<lambda>c. reServerName c = part) currentList of
        None \<Rightarrow> Inl (ErrText (''path not found: '' @ fullPath))
      | Some child \<Rightarrow>
          let found = foundEntry currentPath child in
          if eiFSID found = [] then Inl (ErrText (''path not found: '' @ fullPath))
          else if parts = [] then Inr found
          else if \<not> eiIsDir found then Inl (ErrText (''path is not a directory: '' @ fullPath))
          else (case ls n (eiFullPath found) of
                  Inl e \<Rightarrow> Inl e
                | Inr next \<Rightarrow> walkParts ls (n + 1) fullPath parts (eiFullPath found) next))"

text \<open>The elements the walk looks for. What the first part computes for a root is replaced by the second.\<close>

definition walkedParts :: "string \<Rightarrow> string \<Rightarrow> string list option" where
  "walkedParts root fullPath =
     (let parts = Split CHR ''/'' (TrimPrefix fullPath ''/'');
          current = (if root = [] then ''/'' else root);
          parts1 = (if current \<noteq> ''/'' \<and> hd parts \<noteq> Base current
                    then Split CHR ''/'' (TrimPrefix current ''/'') @ parts else parts)
      in if root = [] then Some parts1
         else let trimmed = TrimPrefix (TrimPrefix fullPath root) ''/''
              in if trimmed = [] then None else Some (Split CHR ''/'' trimmed))"

definition resolveRemoteEntry :: "lister \<Rightarrow> string \<Rightarrow> string \<Rightarrow> goerr + entryInfo" where
  "resolveRemoteEntry ls root fullPath =
     (if fullPath = [] then Inl (ErrText ''path is required'')
      else let listPath = (if root = [] then ''/'' else root) in
        case ls 0 listPath of
          Inl e \<Rightarrow> Inl e
        | Inr children \<Rightarrow>
            if children = [] then Inl (ErrText (''no entries found at '' @ listPath))
            else (case walkedParts root fullPath of
                    None \<Rightarrow> Inl (ErrText (''benchmark path must point to a file, got '' @ fullPath))
                  | Some parts \<Rightarrow> walkParts ls 1 fullPath parts listPath children))"

section \<open>Paths as lists of elements\<close>

definition rooted :: "string list \<Rightarrow> string" where
  "rooted es = path_of True (rev es)"

lemma rooted_eq: "rooted es = CHR ''/'' # JoinWith CHR ''/'' es"
  by (simp add: rooted_def path_of_def)

definition elems_ok :: "string list \<Rightarrow> bool" where
  "elems_ok es \<longleftrightarrow> (\<forall>e \<in> set es. elem_ok e)"

lemma elems_ok_simps [simp]: "elems_ok []" "elems_ok (xs @ ys) \<longleftrightarrow> elems_ok xs \<and> elems_ok ys"
  "elems_ok (x # xs) \<longleftrightarrow> elem_ok x \<and> elems_ok xs"
  by (auto simp: elems_ok_def)

lemma Split_rooted:
  assumes "elems_ok es" "es \<noteq> []"
  shows "Split CHR ''/'' (rooted es) = [] # es" "Split CHR ''/'' (JoinWith CHR ''/'' es) = es"
proof -
  have "\<forall>w \<in> set es. CHR ''/'' \<notin> set w" using assms(1) by (auto simp: elems_ok_def elem_ok_def)
  then show s: "Split CHR ''/'' (JoinWith CHR ''/'' es) = es" using assms(2) by (intro Split_JoinWith) auto
  then show "Split CHR ''/'' (rooted es) = [] # es" by (simp add: rooted_eq)
qed

lemma rooted_inj: "elems_ok es \<Longrightarrow> elems_ok fs \<Longrightarrow> rooted es = rooted fs \<Longrightarrow> es = fs"
proof -
  assume ok: "elems_ok es" "elems_ok fs" and e: "rooted es = rooted fs"
  have "rooted xs = ''/'' \<longleftrightarrow> xs = []" if "elems_ok xs" for xs
    using that by (cases xs) (auto simp: rooted_eq elem_ok_def JoinWith.simps elim!: JoinWith.elims)
  then show ?thesis using ok e Split_rooted(1) [of es] Split_rooted(1) [of fs] by (metis list.inject)
qed

lemma Clean_elems:
  assumes "HasPrefix p ''/''"
  obtains es where "Clean p = rooted es" "elems_ok es"
proof
  obtain q where p: "p = CHR ''/'' # q" using assms by (auto simp: HasPrefix_def prefix_def)
  show "Clean p = rooted (rev (clean_elems True p))" by (simp add: p Clean_rooted rooted_def)
  show "elems_ok (rev (clean_elems True p))" using clean_elems_rooted by (simp add: elems_ok_def)
qed

lemma Clean_join:
  assumes "elems_ok es" "elems_ok fs" "fs \<noteq> []"
  shows "Clean (rooted es @ CHR ''/'' # JoinWith CHR ''/'' fs) = rooted (es @ fs)"
proof -
  let ?p = "rooted es @ CHR ''/'' # JoinWith CHR ''/'' fs"
  have s: "Split CHR ''/'' ?p = Split CHR ''/'' (rooted es) @ fs"
    by (simp only: Split_append Split_rooted(2) [OF assms(2,3)])
  have "fold (clean_step True) (Split CHR ''/'' (rooted es)) [] = rev es"
  proof (cases "es = []")
    case True
    then show ?thesis by (simp add: rooted_eq clean_step_def)
  next
    case False
    then show ?thesis
      using fold_clean_ok [of es True "[]"] assms(1)
      by (simp add: Split_rooted(1) [OF assms(1)] clean_step_def elems_ok_def)
  qed
  then have "clean_elems True ?p = rev fs @ rev es"
    using fold_clean_ok [of fs True "rev es"] assms(2) by (simp add: clean_elems_def s elems_ok_def)
  then show ?thesis by (simp add: Clean_rooted rooted_eq) (simp add: path_of_def)
qed

lemma joinRemotePath_rooted:
  assumes "elems_ok es" "elem_ok c"
  shows "joinRemotePath (rooted es) c = rooted (es @ [c])"
proof -
  have c: "c \<noteq> []" using assms(2) by (simp add: elem_ok_def)
  have "joinRemotePath (rooted es) c = path_Join [rooted es, c]"
    by (auto simp: joinRemotePath_def rooted_eq)
  also have "\<dots> = Clean (rooted es @ CHR ''/'' # c)" using c by (simp add: path_Join_def rooted_eq)
  also have "\<dots> = rooted (es @ [c])" using Clean_join [of es "[c]"] assms by simp
  finally show ?thesis .
qed

section \<open>The root is never left\<close>

definition root_ok :: "string \<Rightarrow> bool" where
  "root_ok root \<longleftrightarrow> (\<exists>rs. elems_ok rs \<and> root = rooted rs)"

lemma normalizeRemoteRootPath_ok: "root_ok (normalizeRemoteRootPath v)"
proof -
  have n: "rooted [] = ''/''" by (simp add: rooted_eq)
  have c: "root_ok (Clean p)" if "HasPrefix p ''/''" for p
    using Clean_elems [OF that] unfolding root_ok_def by metis
  have "HasPrefix (if HasPrefix w ''/'' then w else ''/'' @ w) ''/''" for w by (simp add: HasPrefix_def)
  then show ?thesis
    using c by (simp add: normalizeRemoteRootPath_def Let_def) (metis n elems_ok_simps(1) root_ok_def)
qed

lemma rooted_prefix:
  assumes "elems_ok rs" "rs \<noteq> []" "elems_ok es" "prefix (rooted rs @ ''/'') (rooted es)"
  obtains ds where "es = rs @ ds" "elems_ok ds"
proof -
  obtain x where x: "rooted es = rooted rs @ CHR ''/'' # x" using assms(4) by (auto simp: prefix_def)
  have "es \<noteq> []" using x by (cases es) (auto simp: rooted_eq)
  then have "[] # es = Split CHR ''/'' (rooted rs @ CHR ''/'' # x)"
    using Split_rooted(1) [OF assms(3)] by (simp add: x)
  then have "es = rs @ Split CHR ''/'' x"
    by (simp add: Split_append Split_rooted(1) [OF assms(1,2)])
  then show thesis using that assms(3) by (metis elems_ok_simps(2))
qed

lemma benchmarkRemotePath_elems:
  assumes "elems_ok rs"
  obtains ds where "benchmarkRemotePath (rooted rs) p = rooted (rs @ ds)" "elems_ok ds"
proof -
  define q where "q = (let p1 = TrimSpace p; p2 = (if p1 = [] then ''/'' else p1) in if HasPrefix p2 ''/'' then p2 else ''/'' @ p2)"
  have "HasPrefix q ''/''" by (simp add: q_def Let_def HasPrefix_def)
  then obtain es where es: "Clean q = rooted es" "elems_ok es" by (rule Clean_elems)
  have b: "benchmarkRemotePath (rooted rs) p =
      (if rooted rs = ''/'' \<or> rooted es = rooted rs \<or> HasPrefix (rooted es) (rooted rs @ ''/'') then rooted es
       else if rooted es = ''/'' then rooted rs else path_Join [rooted rs, TrimPrefix (rooted es) ''/''])"
    by (simp add: benchmarkRemotePath_def q_def [unfolded Let_def, symmetric] es(1) Let_def) (simp add: rooted_eq)
  show thesis
  proof (cases "rs = []")
    case True
    then show thesis using that [of es] es(2) b by (simp add: rooted_eq)
  next
    case False
    have ne: "rooted rs \<noteq> ''/''" using False assms rooted_inj [of rs "[]"] by (auto simp: rooted_eq)
    consider (same) "rooted es = rooted rs" | (below) "HasPrefix (rooted es) (rooted rs @ ''/'')"
      | (top) "rooted es = ''/''" "rooted es \<noteq> rooted rs" "\<not> HasPrefix (rooted es) (rooted rs @ ''/'')"
      | (other) "rooted es \<noteq> ''/''" "rooted es \<noteq> rooted rs" "\<not> HasPrefix (rooted es) (rooted rs @ ''/'')"
      by blast
    then show thesis
    proof cases
      case same
      then show thesis using that [of "[]"] b by simp
    next
      case below
      then obtain ds where "es = rs @ ds" "elems_ok ds"
        using rooted_prefix [OF assms False es(2)] by (auto simp: HasPrefix_def)
      then show thesis using that [of ds] b below by simp
    next
      case top
      then show thesis using that [of "[]"] b ne by simp
    next
      case other
      have n: "es \<noteq> []" using other(1) by (auto simp: rooted_eq)
      have t: "TrimPrefix (rooted es) ''/'' = JoinWith CHR ''/'' es"
        by (simp add: rooted_eq TrimPrefix_def HasPrefix_def)
      have "JoinWith CHR ''/'' es \<noteq> []" using other(1) by (auto simp: rooted_eq)
      then have "path_Join [rooted rs, JoinWith CHR ''/'' es] = rooted (rs @ es)"
        using Clean_join [OF assms es(2) n] by (simp add: path_Join_def rooted_eq)
      then show thesis using that [of es] b other ne es(2) by (simp add: t)
    qed
  qed
qed

section \<open>The walk ends at the path asked for\<close>

definition listed_at :: "lister \<Rightarrow> string list \<Rightarrow> entryInfo \<Rightarrow> bool" where
  "listed_at ls es e \<longleftrightarrow>
     (\<exists>n l child. ls n (rooted (butlast es)) = Inr l \<and> child \<in> set l \<and> e = foundEntry (rooted (butlast es)) child)"

lemma find_child:
  "List.find (\<lambda>c. reServerName c = part) l = Some child \<Longrightarrow> child \<in> set l \<and> reServerName child = part"
  by (auto simp: find_Some_iff)

lemma foundEntry_full:
  "elems_ok es \<Longrightarrow> elem_ok (reServerName child) \<Longrightarrow>
   eiFullPath (foundEntry (rooted es) child) = rooted (es @ [reServerName child])"
  by (simp add: foundEntry_def joinRemotePath_rooted)

lemma walkParts_exact:
  assumes "walkParts ls n full parts (rooted es) lst = Inr e" "elems_ok es" "elems_ok parts" "ls m (rooted es) = Inr lst"
  shows "parts \<noteq> [] \<and> eiFullPath e = rooted (es @ parts) \<and> listed_at ls (es @ parts) e \<and> eiFSID e \<noteq> []"
  using assms
proof (induction parts arbitrary: n es lst m)
  case (Cons part parts)
  obtain child where f: "List.find (\<lambda>c. reServerName c = part) lst = Some child"
    using Cons.prems(1) by (auto split: option.splits)
  have c: "child \<in> set lst" "reServerName child = part" using find_child [OF f] by auto
  have full: "eiFullPath (foundEntry (rooted es) child) = rooted (es @ [part])"
    using foundEntry_full [of es child] Cons.prems(2,3) c(2) by simp
  have ne: "eiFSID (foundEntry (rooted es) child) \<noteq> []"
    using Cons.prems(1) f by (auto simp: Let_def split: if_splits)
  show ?case
  proof (cases "parts = []")
    case True
    then have "e = foundEntry (rooted es) child" using Cons.prems(1) f ne by (simp add: Let_def)
    then show ?thesis using True full ne c(1) Cons.prems(4) by (auto simp: listed_at_def)
  next
    case False
    then obtain l where l: "ls n (rooted (es @ [part])) = Inr l"
      "walkParts ls (n + 1) full parts (rooted (es @ [part])) l = Inr e"
      using Cons.prems(1) f ne full by (auto simp: Let_def split: if_splits sum.splits)
    then show ?thesis using Cons.IH [OF l(2) _ _ l(1)] Cons.prems(2,3) by simp
  qed
qed simp

lemma TrimPrefix_rooted:
  assumes "elems_ok rs" "elems_ok ds"
  shows "TrimPrefix (TrimPrefix (rooted (rs @ ds)) (rooted rs)) ''/'' = JoinWith CHR ''/'' ds"
proof (cases "ds = []")
  case True
  then show ?thesis by (simp add: TrimPrefix_def HasPrefix_def)
next
  case ds: False
  show ?thesis
  proof (cases "rs = []")
    case True
    obtain d dr where d: "ds = d # dr" using ds by (cases ds) auto
    have "d \<noteq> []" "hd d \<noteq> CHR ''/''"
      using assms(2) by (auto simp: d elem_ok_def dest: hd_in_set)
    then have "\<not> prefix ''/'' (JoinWith CHR ''/'' ds)"
      by (cases d; cases dr) (auto simp: \<open>ds = d # dr\<close>)
    then show ?thesis using True by (simp add: rooted_eq TrimPrefix_def HasPrefix_def)
  next
    case False
    have "JoinWith CHR ''/'' (rs @ ds) = JoinWith CHR ''/'' rs @ CHR ''/'' # JoinWith CHR ''/'' ds"
      using False ds
    proof (induction rs)
      case (Cons r rs)
      then show ?case by (cases "rs = []") (auto simp: JoinWith_Cons)
    qed simp
    then show ?thesis by (simp add: rooted_eq TrimPrefix_def HasPrefix_def)
  qed
qed

lemma walkedParts_rooted:
  assumes "elems_ok rs" "elems_ok ds"
  shows "walkedParts (rooted rs) (rooted (rs @ ds)) = (if ds = [] then None else Some ds)"
proof -
  have j: "JoinWith CHR ''/'' ds = [] \<longleftrightarrow> ds = []"
    using assms(2) by (cases ds; cases "tl ds") (auto simp: elem_ok_def JoinWith_Cons)
  have r: "rooted rs \<noteq> []" by (simp add: rooted_eq)
  show ?thesis
    using Split_rooted(2) [OF assms(2)] by (auto simp: walkedParts_def TrimPrefix_rooted [OF assms] j r Let_def)
qed

lemma resolve_exact:
  assumes "root_ok root" "resolveRemoteEntry ls root (benchmarkRemotePath root p) = Inr e"
  shows "\<exists>es. elems_ok es \<and> benchmarkRemotePath root p = rooted es \<and> eiFullPath e = rooted es \<and> listed_at ls es e \<and> eiFSID e \<noteq> []"
proof -
  obtain rs where rs: "elems_ok rs" "root = rooted rs" using assms(1) by (auto simp: root_ok_def)
  obtain ds where ds: "benchmarkRemotePath (rooted rs) p = rooted (rs @ ds)" "elems_ok ds"
    using benchmarkRemotePath_elems [OF rs(1), of p] by metis
  have r: "rooted rs \<noteq> []" by (simp add: rooted_eq)
  obtain l where l: "ls 0 (rooted rs) = Inr l" "ds \<noteq> []" "walkParts ls 1 (rooted (rs @ ds)) ds (rooted rs) l = Inr e"
    using assms(2) walkedParts_rooted [OF rs(1) ds(2)]
    by (auto simp: resolveRemoteEntry_def ds(1) rs(2) r Let_def split: if_splits sum.splits)
  have "elems_ok (rs @ ds)" using rs(1) ds(2) by simp
  then show ?thesis using walkParts_exact [OF l(3) rs(1) ds(2) l(1)] ds(1) rs(2) by blast
qed

end
