(* ===== verification/AppRun.thy ===== *)
theory AppRun
  imports AppConfig FileSystem RemotePath Playback StreamOpen
begin

text \<open>
  Running the application (\<open>internal/app/app.go\<close>): \<open>run\<close> up to the mount, the mount, and the threads that end it
  (the main thread behind \<open>server.Wait\<close>, the goroutine that waits for the context, and \<open>Close\<close>).

  An application that \<open>New\<close> returned has all its parts, so the tests for nil do not appear. The flow of the
  callback server between \<open>Start\<close> and the \<open>select\<close> of \<open>run\<close> is an argument: what the \<open>select\<close> saw, the outcome of
  \<open>Wait\<close> or the error of the context, the events of the server meanwhile, and the server they left. URL parsing and codecs are arguments. The errors that \<open>Close\<close>
  collects from its parts are left out.
\<close>

section \<open>Up to the mount\<close>

record run_env =
  reStat :: "(goerr \<times> bool) option"
  reHealth :: "APIClient \<Rightarrow> goerr + RemoteEntry list"
  rePort :: "string \<Rightarrow> goerr + string"
  reListen :: "string \<Rightarrow> goerr option"
  reFlow :: "OAuthServer \<Rightarrow> ((goerr + string) + goerr) \<times> oauthEvent list \<times> OAuthServer"
  reShutdown :: "goerr option"
  reWithCode :: "string \<Rightarrow> string \<Rightarrow> goerr + string"
  reCodeOf :: "string \<Rightarrow> goerr + string"
  reExchange :: "OAuthConfig \<Rightarrow> string \<Rightarrow> goerr + Token"
  reMarshal :: "Token \<Rightarrow> goerr + string"
  reUnmarshal :: "string \<Rightarrow> goerr + Token"
  reNotFound :: goerr
  reSave :: save_env

type_synonym files = "string \<rightharpoonup> string"

definition loadToken :: "run_env \<Rightarrow> App \<Rightarrow> files \<Rightarrow> goerr + Token" where
  "loadToken env a fs = LoadToken (reUnmarshal env) (reNotFound env) (Some (TokenPath (apCfg a))) fs"

definition oauthListenAddr :: "run_env \<Rightarrow> App \<Rightarrow> goerr + string" where
  "oauthListenAddr env a =
     (if OAuthListenAddr (apCfg a) \<noteq> [] then Inr (OAuthListenAddr (apCfg a))
      else case rePort env (RedirectURI (apCfg a)) of
        Inl e \<Rightarrow> Inl e
      | Inr port \<Rightarrow> Inr (''0.0.0.0:'' @ (if port = [] then ''8765'' else port)))"

definition saveOAuthToken :: "run_env \<Rightarrow> App \<Rightarrow> string \<Rightarrow> files \<Rightarrow> goerr option \<times> files" where
  "saveOAuthToken env a code fs =
     (case reWithCode env (RedirectURI (apCfg a)) code of
        Inl e \<Rightarrow> (Some e, fs)
      | Inr u \<Rightarrow>
          SaveOAuthTokenFromCallback (reCodeOf env) (reExchange env (oauthConfigOf (apCfg a)))
            (SaveToken (reMarshal env) (reSave env) (Some (TokenPath (apCfg a)))) u fs)"

text \<open>The callback of the client that saves a refreshed token.\<close>

definition saveRefreshedToken :: "run_env \<Rightarrow> App \<Rightarrow> string \<Rightarrow> string \<Rightarrow> files \<Rightarrow> goerr option \<times> files" where
  "saveRefreshedToken env a access refresh fs =
     SaveToken (reMarshal env) (reSave env) (Some (TokenPath (apCfg a))) \<lparr>tkAccess = access, tkRefresh = refresh\<rparr> fs"

definition remoteHealthCheck :: "run_env \<Rightarrow> APIClient \<Rightarrow> App \<Rightarrow> goerr option" where
  "remoteHealthCheck env c a = (case reHealth env c of Inl e \<Rightarrow> Some e | Inr _ \<Rightarrow> None)"

definition oauthFlow :: "run_env \<Rightarrow> App \<Rightarrow> files \<Rightarrow> (goerr + APIClient \<times> App) \<times> files" where
  "oauthFlow env a fs =
     (case AuthorizeURL (apOAuth a) of Inl e \<Rightarrow> (Inl e, fs) | Inr _ \<Rightarrow>
      case oauthListenAddr env a of Inl e \<Rightarrow> (Inl e, fs) | Inr addr \<Rightarrow>
      case Start (reListen env addr) (apOAuth a) of (Some e, _) \<Rightarrow> (Inl e, fs) | (None, srv) \<Rightarrow>
      case reFlow env srv of
        (Inr e, _) \<Rightarrow> (Inl e, fs)
      | (Inl (Inl e), _) \<Rightarrow> (Inl e, fs)
      | (Inl (Inr code), _, srv1) \<Rightarrow>
          let a1 = a\<lparr>apOAuth := ShutdownOAuth srv1\<rparr> in
          case reShutdown env of Some e \<Rightarrow> (Inl e, fs) | None \<Rightarrow>
          case saveOAuthToken env a1 code fs of (Some e, fs1) \<Rightarrow> (Inl e, fs1) | (None, fs1) \<Rightarrow>
          case bindRemoteClient (loadToken env a1 fs1) a1 of
            (Inl e, _) \<Rightarrow> (Inl e, fs1)
          | (Inr c, a2) \<Rightarrow> (Inr (c, a2), fs1))"

text \<open>\<open>run\<close> up to the call of \<open>mountAndWait\<close>: an error, or the client that was bound.\<close>

definition runUntilMount :: "run_env \<Rightarrow> App \<Rightarrow> files \<Rightarrow> (goerr + APIClient \<times> App) \<times> files" where
  "runUntilMount env a fs =
     (case reStat env of
        Some (e, False) \<Rightarrow> (Inl e, fs)
      | _ \<Rightarrow>
          (case bindRemoteClient (loadToken env a fs) a of
             (Inr c, a1) \<Rightarrow> if remoteHealthCheck env c a1 = None then (Inr (c, a1), fs) else oauthFlow env a1 fs
           | (Inl e, a1) \<Rightarrow> oauthFlow env a1 fs))"

section \<open>The mount\<close>

record mountOptions =
  moAllowOther :: bool
  moMaxWrite :: int
  moMaxReadAhead :: int
  moAttrTimeout :: int
  moEntryTimeout :: int
  moGID :: "int option"

definition Mount :: "string \<Rightarrow> Filesystem option \<Rightarrow> bool \<Rightarrow> int list \<Rightarrow> goerr + mountOptions" where
  "Mount mountPath root allowOther gs =
     (if mountPath = [] then Inl (ErrText ''mount path is required'')
      else if root = None then Inl (ErrText ''root filesystem is required'')
      else Inr \<lparr>moAllowOther = allowOther, moMaxWrite = 2 ^ 20, moMaxReadAhead = 2 ^ 20, moAttrTimeout = second,
                moEntryTimeout = second, moGID = (case gs of [] \<Rightarrow> None | g # _ \<Rightarrow> Some g)\<rparr>)"

definition mountedFilesystem :: "sys \<Rightarrow> App \<Rightarrow> Filesystem" where
  "mountedFilesystem engine a =
     SetDeleteEnabled (EnableDelete (apCfg a))
       (SetTraceReads (FuseTraceReads (apCfg a))
         (NewFilesystemWithStream (apStore a) (Some (apRemote a)) (Some engine) (apFuseGIDs a) (RemoteRootPath (apCfg a))))"

text \<open>The part of \<open>mountAndWait\<close> before the server runs. \<open>goFs.Mount\<close> may fail.\<close>

definition mountServer :: "world \<Rightarrow> (mountOptions \<Rightarrow> goerr option) \<Rightarrow> sys \<Rightarrow> App \<Rightarrow> goerr + Filesystem \<times> mountOptions" where
  "mountServer w goMount engine a =
     (case RefreshRootOnly w (mountedFilesystem engine a) of
        (Some e, _) \<Rightarrow> Inl (ErrWrap ''preload mount root: '' e)
      | (None, f) \<Rightarrow>
          (case Mount (MountPath (apCfg a)) (Some f) True (apFuseGIDs a) of
             Inl e \<Rightarrow> Inl e
           | Inr opts \<Rightarrow> (case goMount opts of Some e \<Rightarrow> Inl e | None \<Rightarrow> Inr (f, opts))))"

section \<open>The playback server\<close>

text \<open>\<open>ServePlayback\<close> up to \<open>http.ListenAndServe\<close>: the client, the entry and the address.\<close>

definition ServePlayback :: "run_env \<Rightarrow> lister \<Rightarrow> App \<Rightarrow> files \<Rightarrow> string \<Rightarrow> string \<Rightarrow> goerr + APIClient \<times> entryInfo \<times> string" where
  "ServePlayback env ls a fs remotePath listenAddr =
     (case bindRemoteClient (loadToken env a fs) a of
        (Inl e, _) \<Rightarrow> Inl e
      | (Inr c, _) \<Rightarrow>
          let root = RemoteRootPath (apCfg a); fullPath = benchmarkRemotePath root remotePath in
          (case resolveRemoteEntry ls root fullPath of
             Inl e \<Rightarrow> Inl e
           | Inr entry \<Rightarrow>
               if eiIsDir entry then Inl (ErrText (''playback path is a directory: '' @ fullPath))
               else Inr (c, entry, if listenAddr = [] then ''127.0.0.1:8787'' else listenAddr)))"

section \<open>The threads that end the mount\<close>

text \<open>
  Where the main thread stands in \<open>mountAndWait\<close>, the goroutine in its \<open>select\<close>, and each caller of \<open>Close\<close>, of which
  there may be any number (the deferred call of \<open>Run\<close> is one). A thread at \<open>...Call\<close> has taken the server out of the
  application and is about to call \<open>Unmount\<close>. \<open>closeOnce\<close> is a \<open>sync.Once\<close>: its first caller runs the function, callers
  that come while it runs wait, later ones return at once.
\<close>

datatype mainPC = MStart | MRefreshing | MServing | MReturned | MCall | MCleanup | MEnd
datatype watchPC = WOff | WSelect | WLock | WCall | WEnd
datatype closePC = CIdle | CLock | CUnmount | CCall | CStream | CStore | CEnd
datatype once = OnceFresh | OnceRunning | OnceDone

record life =
  lfServer :: bool
  lfRefreshCancel :: bool
  lfRefreshLoop :: bool
  lfCtxDone :: bool
  lfDone :: bool
  lfGone :: bool
  lfFailed :: bool
  lfUnmounts :: nat
  lfOAuthDown :: bool
  lfStreamCloses :: nat
  lfStoreCloses :: nat
  lfMain :: mainPC
  lfWatch :: watchPC
  lfOnce :: once
  lfClosers :: "closePC list"

definition lifeStart :: "nat \<Rightarrow> life" where
  "lifeStart n =
     \<lparr>lfServer = False, lfRefreshCancel = False, lfRefreshLoop = False, lfCtxDone = False, lfDone = False, lfGone = False,
      lfFailed = False, lfUnmounts = 0, lfOAuthDown = False, lfStreamCloses = 0, lfStoreCloses = 0, lfMain = MStart,
      lfWatch = WOff, lfOnce = OnceFresh, lfClosers = replicate n CIdle\<rparr>"

text \<open>The critical section of \<open>unmountServer\<close>: whether the caller goes on to \<open>server.Unmount()\<close>.\<close>

definition takeServer :: "life \<Rightarrow> bool \<times> life" where
  "takeServer s = (lfServer s, s\<lparr>lfServer := False\<rparr>)"

text \<open>
  \<open>server.Unmount()\<close> either detaches the mount, and then \<open>server.Wait()\<close> returns, or fails and leaves it (\<open>lfGone\<close>: the
  mount is gone; \<open>lfFailed\<close>: a call has failed). No caller looks at its error.
\<close>

definition unmountCall :: "bool \<Rightarrow> life \<Rightarrow> life" where
  "unmountCall ok s = s\<lparr>lfUnmounts := lfUnmounts s + 1, lfGone := (lfGone s \<or> ok), lfFailed := (lfFailed s \<or> \<not> ok)\<rparr>"

definition startRefreshLoop :: "life \<Rightarrow> life" where
  "startRefreshLoop s = s\<lparr>lfRefreshLoop := \<not> lfCtxDone s, lfMain := MRefreshing\<rparr>"

definition publishServer :: "life \<Rightarrow> life" where
  "publishServer s = s\<lparr>lfServer := True, lfRefreshCancel := True, lfMain := MServing, lfWatch := WSelect\<rparr>"

definition serverReturned :: "life \<Rightarrow> life" where
  "serverReturned s = s\<lparr>lfDone := True, lfRefreshLoop := False, lfMain := MReturned\<rparr>"

definition mainUnmount :: "life \<Rightarrow> life" where
  "mainUnmount s = (let (got, t) = takeServer s in t\<lparr>lfMain := if got then MCall else MCleanup\<rparr>)"

definition watchUnmount :: "life \<Rightarrow> life" where
  "watchUnmount s = (let (got, t) = takeServer s in t\<lparr>lfWatch := if got then WCall else WEnd\<rparr>)"

text \<open>
  \<open>Close\<close>: the server and the cancellation read under the lock, then \<open>unmountServer\<close> if there was a server, the engine and
  the store. Each part gives the caller's next position.
\<close>

definition closeEnter :: "life \<Rightarrow> closePC \<times> life" where
  "closeEnter s = (CLock, s\<lparr>lfOnce := OnceRunning, lfOAuthDown := True\<rparr>)"

definition closeLock :: "life \<Rightarrow> closePC \<times> life" where
  "closeLock s =
     (if lfServer s then CUnmount else CStream,
      s\<lparr>lfRefreshLoop := (lfRefreshLoop s \<and> \<not> lfRefreshCancel s), lfRefreshCancel := False\<rparr>)"

definition closeUnmount :: "life \<Rightarrow> closePC \<times> life" where
  "closeUnmount s = (let (got, t) = takeServer s in (if got then CCall else CStream, t))"

definition closeStream :: "life \<Rightarrow> closePC \<times> life" where
  "closeStream s = (CStore, s\<lparr>lfStreamCloses := lfStreamCloses s + 1\<rparr>)"

definition closeStore :: "life \<Rightarrow> closePC \<times> life" where
  "closeStore s = (CEnd, s\<lparr>lfStoreCloses := lfStoreCloses s + 1, lfOnce := OnceDone\<rparr>)"

inductive close_step :: "closePC \<Rightarrow> life \<Rightarrow> closePC \<times> life \<Rightarrow> bool" where
  cl_enter: "lfOnce s = OnceFresh \<Longrightarrow> close_step CIdle s (closeEnter s)"
| cl_skip: "lfOnce s = OnceDone \<Longrightarrow> close_step CIdle s (CEnd, s)"
| cl_lock: "close_step CLock s (closeLock s)"
| cl_unmount: "close_step CUnmount s (closeUnmount s)"
| cl_call: "close_step CCall s (CStream, unmountCall ok s)"
| cl_stream: "close_step CStream s (closeStream s)"
| cl_store: "close_step CStore s (closeStore s)"

text \<open>
  The steps, each by the main thread, the goroutine, a caller of \<open>Close\<close>, or from outside: the context is cancelled, or
  somebody unmounts the directory.
\<close>

datatype actor = Main | Watch | Closer nat | Outside

inductive life_step :: "actor \<Rightarrow> life \<Rightarrow> life \<Rightarrow> bool" where
  lf_fail: "lfMain s = MStart \<Longrightarrow> life_step Main s (s\<lparr>lfMain := MEnd\<rparr>)"
| lf_mounted: "lfMain s = MStart \<Longrightarrow> life_step Main s (startRefreshLoop s)"
| lf_publish: "lfMain s = MRefreshing \<Longrightarrow> life_step Main s (publishServer s)"
| lf_returned: "lfMain s = MServing \<Longrightarrow> lfGone s \<Longrightarrow> life_step Main s (serverReturned s)"
| lf_main_lock: "lfMain s = MReturned \<Longrightarrow> life_step Main s (mainUnmount s)"
| lf_main_call: "lfMain s = MCall \<Longrightarrow> life_step Main s ((unmountCall ok s)\<lparr>lfMain := MCleanup\<rparr>)"
| lf_main_end: "lfMain s = MCleanup \<Longrightarrow> life_step Main s (s\<lparr>lfRefreshCancel := False, lfMain := MEnd\<rparr>)"
| lf_watch_ctx: "lfWatch s = WSelect \<Longrightarrow> lfCtxDone s \<Longrightarrow> life_step Watch s (s\<lparr>lfWatch := WLock\<rparr>)"
| lf_watch_done: "lfWatch s = WSelect \<Longrightarrow> lfDone s \<Longrightarrow> life_step Watch s (s\<lparr>lfWatch := WEnd\<rparr>)"
| lf_watch_lock: "lfWatch s = WLock \<Longrightarrow> life_step Watch s (watchUnmount s)"
| lf_watch_call: "lfWatch s = WCall \<Longrightarrow> life_step Watch s ((unmountCall ok s)\<lparr>lfWatch := WEnd\<rparr>)"
| lf_close: "lfClosers s = us @ p # vs \<Longrightarrow> close_step p s (q, t) \<Longrightarrow>
    life_step (Closer (length us)) s (t\<lparr>lfClosers := us @ q # vs\<rparr>)"
| lf_cancel: "\<not> lfCtxDone s \<Longrightarrow> life_step Outside s (s\<lparr>lfCtxDone := True, lfRefreshLoop := False\<rparr>)"
| lf_umount: "lfMain s = MRefreshing \<or> lfWatch s \<noteq> WOff \<Longrightarrow> \<not> lfGone s \<Longrightarrow> life_step Outside s (s\<lparr>lfGone := True\<rparr>)"

definition life_next :: "life \<Rightarrow> life \<Rightarrow> bool" where
  "life_next s t \<longleftrightarrow> (\<exists>a. life_step a s t)"

end
