(* ===== verification/AppRunLaws.thy ===== *)
theory AppRunLaws
  imports AppRun Termination
begin

text \<open>
  Laws of the running application: it mounts only with a client whose token is in the token file, and a token it did
  not have before was exchanged for a code that the callback flow of this run accepted with its state; \<open>Unmount\<close> is called at
  most once, the components are closed once however often \<open>Close\<close> is called, the main thread returns once the context is
  done unless an \<open>Unmount\<close> fails, and every run of the threads ends.
\<close>

section \<open>The token of the mount\<close>

lemma bindRemoteClient_token:
  "bindRemoteClient r a = (Inr c, b) \<Longrightarrow> \<exists>t. r = Inr t \<and> c = clientFactory (apCfg a) t \<and> b = a\<lparr>apRemote := SetClient True (apRemote a)\<rparr>"
  by (auto simp: bindRemoteClient_def split: sum.splits)

definition flow_ok :: "run_env \<Rightarrow> bool" where
  "flow_ok env \<longleftrightarrow> (\<forall>s x es t. reFlow env s = (x, es, t) \<longrightarrow>
     oauth_run s es t \<and> (\<forall>code. x = Inl (Inr code) \<longrightarrow> Handed code \<in> set es))"

definition codec_ok :: "run_env \<Rightarrow> bool" where
  "codec_ok env \<longleftrightarrow> (\<forall>t d. reMarshal env t = Inr d \<longrightarrow> reUnmarshal env d = Inr t) \<and>
     (\<forall>uri code u. reWithCode env uri code = Inr u \<longrightarrow> reCodeOf env u = Inr code)"

lemma saveOAuthToken_ok:
  assumes "saveOAuthToken env a code fs = (None, fs')" "codec_ok env" "svTemp (reSave env) \<noteq> TokenPath (apCfg a)"
  shows "\<exists>t. reExchange env (oauthConfigOf (apCfg a)) code = Inr t \<and> loadToken env a fs' = Inr t"
proof -
  obtain u where u: "reWithCode env (RedirectURI (apCfg a)) code = Inr u"
    using assms(1) by (auto simp: saveOAuthToken_def split: sum.splits)
  then have c: "reCodeOf env u = Inr code" using assms(2) by (simp add: codec_ok_def)
  obtain t where t: "reExchange env (oauthConfigOf (apCfg a)) code = Inr t"
    and s: "SaveToken (reMarshal env) (reSave env) (Some (TokenPath (apCfg a))) t fs = (None, fs')"
    using assms(1) by (auto simp: saveOAuthToken_def u c SaveOAuthTokenFromCallback_def split: if_splits sum.splits)
  have "LoadToken (reUnmarshal env) (reNotFound env) (Some (TokenPath (apCfg a))) fs' = Inr t"
    by (rule SaveToken_LoadToken [OF _ assms(3) s]) (use assms(2) in \<open>simp add: codec_ok_def\<close>)
  then show ?thesis using t by (simp add: loadToken_def)
qed

text \<open>A token from the flow: among the events of that flow is a callback with this code and the state of the server, accepted.\<close>

definition fresh_token :: "run_env \<Rightarrow> App \<Rightarrow> Token \<Rightarrow> bool" where
  "fresh_token env a t \<longleftrightarrow>
     (\<exists>code es srv. reFlow env ((apOAuth a)\<lparr>osStarted := True\<rparr>) = (Inl (Inr code), es, srv) \<and> code \<noteq> [] \<and>
        Callback (oaState (osCfg (apOAuth a))) code 200 \<in> set es \<and> reExchange env (oauthConfigOf (apCfg a)) code = Inr t)"

lemma accepted_member: "0 < accepted st code es \<Longrightarrow> Callback st code 200 \<in> set es"
  by (auto simp: accepted_def filter_empty_conv)

lemma handed_member: "Handed code \<in> set es \<Longrightarrow> 0 < handed code es"
  by (auto simp: handed_def filter_empty_conv)

lemma oauthFlow_token:
  assumes "oauthFlow env a fs = (Inr (c, b), fs')" "flow_ok env" "codec_ok env"
    and "svTemp (reSave env) \<noteq> TokenPath (apCfg a)" "osResult (apOAuth a) = None"
  shows "\<exists>t. loadToken env b fs' = Inr t \<and> c = clientFactory (apCfg b) t \<and> apCfg b = apCfg a \<and> fresh_token env a t"
proof -
  obtain addr srv where start: "Start (reListen env addr) (apOAuth a) = (None, srv)"
    and rest: "(case reFlow env srv of
        (Inr e, _) \<Rightarrow> (Inl e, fs)
      | (Inl (Inl e), _) \<Rightarrow> (Inl e, fs)
      | (Inl (Inr code), _, srv1) \<Rightarrow>
          let a1 = a\<lparr>apOAuth := ShutdownOAuth srv1\<rparr> in
          case reShutdown env of Some e \<Rightarrow> (Inl e, fs) | None \<Rightarrow>
          case saveOAuthToken env a1 code fs of (Some e, fs1) \<Rightarrow> (Inl e, fs1) | (None, fs1) \<Rightarrow>
          case bindRemoteClient (loadToken env a1 fs1) a1 of
            (Inl e, _) \<Rightarrow> (Inl e, fs1)
          | (Inr c, a2) \<Rightarrow> (Inr (c, a2), fs1)) = (Inr (c, b), fs')"
    using assms(1) by (auto simp: oauthFlow_def split: sum.splits prod.splits option.splits)
  have srv: "srv = (apOAuth a)\<lparr>osStarted := True\<rparr>" using start by (auto simp: Start_def split: if_splits)
  obtain code es srv1 where flow: "reFlow env srv = (Inl (Inr code), es, srv1)"
    using rest by (auto simp: Let_def split: prod.splits sum.splits)
  define a1 where "a1 = a\<lparr>apOAuth := ShutdownOAuth srv1\<rparr>"
  obtain fs1 where save: "saveOAuthToken env a1 code fs = (None, fs1)"
    and bind: "(case bindRemoteClient (loadToken env a1 fs1) a1 of
            (Inl e, _) \<Rightarrow> (Inl e, fs1)
          | (Inr c, a2) \<Rightarrow> (Inr (c, a2), fs1)) = (Inr (c, b), fs')"
    using rest by (auto simp: flow Let_def a1_def [symmetric] split: prod.splits option.splits)
  have cfg: "apCfg a1 = apCfg a" by (simp add: a1_def)
  obtain t where t: "reExchange env (oauthConfigOf (apCfg a)) code = Inr t" "loadToken env a1 fs1 = Inr t"
    using saveOAuthToken_ok [OF save assms(3)] assms(4) cfg by auto
  obtain b' where b: "bindRemoteClient (loadToken env a1 fs1) a1 = (Inr c, b')" "b' = b" "fs1 = fs'"
    using bind by (auto split: prod.splits sum.splits)
  then have cb: "c = clientFactory (apCfg a1) t" "apCfg b = apCfg a"
    using bindRemoteClient_token [OF b(1)] t(2) cfg by auto
  have es: "oauth_run srv es srv1" "Handed code \<in> set es"
    using assms(2) flow unfolding flow_ok_def by blast+
  have none: "osResult srv = None" using assms(5) by (simp add: srv)
  have "0 < accepted (oaState (osCfg srv)) code es"
    using oauth_authentic(1) [OF es(1) none, of code] handed_member [OF es(2)] by linarith
  then have "Callback (oaState (osCfg (apOAuth a))) code 200 \<in> set es"
    using accepted_member by (simp add: srv)
  then have "fresh_token env a t"
    unfolding fresh_token_def using flow t(1) oauth_authentic(2) [OF es(1) none es(2)] srv by blast
  then show ?thesis
    using t(2) cb b(3) cfg by (auto simp: loadToken_def)
qed

lemma runUntilMount_token:
  assumes "runUntilMount env a fs = (Inr (c, b), fs')" "flow_ok env" "codec_ok env"
    and "svTemp (reSave env) \<noteq> TokenPath (apCfg a)" "osResult (apOAuth a) = None"
  shows "\<exists>t. loadToken env b fs' = Inr t \<and> c = clientFactory (apCfg b) t \<and> apCfg b = apCfg a \<and>
    (fs' = fs \<and> remoteHealthCheck env c a = None \<or> fresh_token env a t)"
proof -
  obtain r a1 where bind: "bindRemoteClient (loadToken env a fs) a = (r, a1)" by fastforce
  have a1: "apCfg a1 = apCfg a" "apOAuth a1 = apOAuth a"
    using bind by (auto simp: bindRemoteClient_def split: sum.splits)
  have load: "loadToken env a1 fs = loadToken env a fs" by (simp add: loadToken_def a1(1))
  have go: "(case r of Inr c' \<Rightarrow> if remoteHealthCheck env c' a1 = None then (Inr (c', a1), fs) else oauthFlow env a1 fs
      | Inl e \<Rightarrow> oauthFlow env a1 fs) = (Inr (c, b), fs')"
    using assms(1) unfolding runUntilMount_def bind by (simp split: option.splits prod.splits bool.splits)
  have "(\<exists>c'. r = Inr c' \<and> remoteHealthCheck env c' a1 = None \<and> c = c' \<and> b = a1 \<and> fs' = fs) \<or>
      oauthFlow env a1 fs = (Inr (c, b), fs')"
    using go by (cases r) (simp_all split: if_splits)
  then consider (stored) c' where "r = Inr c'" "remoteHealthCheck env c' a1 = None" "c = c'" "b = a1" "fs' = fs"
    | (flow) "oauthFlow env a1 fs = (Inr (c, b), fs')"
    by blast
  then show ?thesis
  proof cases
    case stored
    then obtain t where "loadToken env a fs = Inr t" "c = clientFactory (apCfg a) t"
      using bindRemoteClient_token [of "loadToken env a fs" a c a1] bind by auto
    then show ?thesis using stored load a1(1) by (auto simp: remoteHealthCheck_def)
  next
    case flow
    have "fresh_token env a1 t = fresh_token env a t" for t by (simp add: fresh_token_def a1)
    then show ?thesis using oauthFlow_token [OF flow assms(2,3)] assms(4,5) a1 by auto
  qed
qed

text \<open>A refreshed token that the client's callback saved is the one that is loaded next.\<close>

lemma saveRefreshedToken_loads:
  assumes "saveRefreshedToken env a access refresh fs = (None, fs')" "codec_ok env" "svTemp (reSave env) \<noteq> TokenPath (apCfg a)"
  shows "loadToken env a fs' = Inr \<lparr>tkAccess = access, tkRefresh = refresh\<rparr>"
  unfolding loadToken_def
  by (rule SaveToken_LoadToken [OF _ assms(3) assms(1) [unfolded saveRefreshedToken_def]]) (use assms(2) in \<open>simp add: codec_ok_def\<close>)

section \<open>The end of the mount\<close>

text \<open>The threads about to call \<open>Unmount\<close>, and the callers of \<open>Close\<close> inside of its function.\<close>

definition callers :: "life \<Rightarrow> nat" where
  "callers s = (if lfMain s = MCall then 1 else 0) + (if lfWatch s = WCall then 1 else 0) + count_list (lfClosers s) CCall"

definition closing :: "closePC \<Rightarrow> bool" where
  "closing p \<longleftrightarrow> p \<noteq> CIdle \<and> p \<noteq> CEnd"

definition busy :: "life \<Rightarrow> nat" where
  "busy s = length (filter closing (lfClosers s))"

definition once_inv :: "life \<Rightarrow> bool" where
  "once_inv s \<longleftrightarrow>
     (case lfOnce s of
        OnceFresh \<Rightarrow> busy s = 0 \<and> CEnd \<notin> set (lfClosers s) \<and> lfStreamCloses s = 0 \<and> lfStoreCloses s = 0 \<and> \<not> lfOAuthDown s
      | OnceRunning \<Rightarrow> busy s = 1 \<and> CEnd \<notin> set (lfClosers s) \<and> lfStreamCloses s = count_list (lfClosers s) CStore \<and>
          lfStoreCloses s = 0 \<and> lfOAuthDown s
      | OnceDone \<Rightarrow> busy s = 0 \<and> lfStreamCloses s = 1 \<and> lfStoreCloses s = 1 \<and> lfOAuthDown s)"

definition mount_inv :: "life \<Rightarrow> bool" where
  "mount_inv s \<longleftrightarrow>
     (if lfWatch s = WOff
      then \<not> lfServer s \<and> lfUnmounts s = 0 \<and> callers s = 0 \<and> lfMain s \<in> {MStart, MRefreshing, MEnd} \<and> \<not> lfDone s
      else (if lfServer s then 1 else 0) + callers s + lfUnmounts s = 1 \<and> lfMain s \<notin> {MStart, MRefreshing} \<and>
        (lfServer s \<longrightarrow> lfMain s = MServing \<or> lfMain s = MReturned) \<and> (lfDone s \<longleftrightarrow> lfMain s \<noteq> MServing) \<and>
        (lfDone s \<longrightarrow> lfGone s)) \<and>
     (lfRefreshLoop s \<longrightarrow> lfMain s = MRefreshing \<or> lfMain s = MServing) \<and>
     (lfUnmounts s = 0 \<longrightarrow> \<not> lfFailed s) \<and> (lfUnmounts s \<noteq> 0 \<longrightarrow> lfGone s \<or> lfFailed s) \<and>
     (lfWatch s = WEnd \<and> lfMain s = MServing \<longrightarrow> \<not> lfServer s) \<and>
     (lfWatch s \<noteq> WOff \<and> lfOnce s = OnceFresh \<and> lfRefreshLoop s \<longrightarrow> lfRefreshCancel s)"

definition life_inv :: "life \<Rightarrow> bool" where
  "life_inv s \<longleftrightarrow> mount_inv s \<and> once_inv s"

lemmas life_ops = startRefreshLoop_def publishServer_def serverReturned_def mainUnmount_def watchUnmount_def unmountCall_def
  closeEnter_def closeLock_def closeUnmount_def closeStream_def closeStore_def takeServer_def Let_def

lemma life_inv_start: "life_inv (lifeStart n)"
  by (simp add: life_inv_def mount_inv_def once_inv_def lifeStart_def callers_def busy_def closing_def)

inductive_cases close_stepE: "close_step p s (q, t)"

lemma close_step_mount:
  assumes "close_step p s (q, t)" "lfClosers s = us @ p # vs" "mount_inv s"
  shows "mount_inv (t\<lparr>lfClosers := us @ q # vs\<rparr>)"
  using assms(1)
  by (rule close_stepE) (use assms(2,3) in \<open>auto simp: mount_inv_def callers_def life_ops split: if_splits\<close>)

lemma close_step_once:
  assumes "close_step p s (q, t)" "lfClosers s = us @ p # vs" "once_inv s"
  shows "once_inv (t\<lparr>lfClosers := us @ q # vs\<rparr>)"
  using assms(1)
  by (rule close_stepE; cases "lfOnce s")
    (use assms(2,3) in \<open>auto simp: once_inv_def busy_def closing_def life_ops filter_empty_conv split: if_splits\<close>)

lemma step_mount:
  assumes "life_step a s t" "mount_inv s" "\<And>i. a \<noteq> Closer i"
  shows "mount_inv t"
  using assms(1)
  by cases (use assms(2,3) in \<open>auto simp: mount_inv_def callers_def life_ops split: if_splits\<close>)

lemma step_once:
  assumes "life_step a s t" "once_inv s" "\<And>i. a \<noteq> Closer i"
  shows "once_inv t"
  using assms(1)
  by cases (use assms(2,3) in \<open>auto simp: once_inv_def busy_def life_ops split: if_splits once.splits\<close>)

lemma life_step_inv:
  assumes "life_inv s" "life_step a s t"
  shows "life_inv t"
proof (cases "\<exists>i. a = Closer i")
  case True
  then obtain us p vs q u where "lfClosers s = us @ p # vs" "close_step p s (q, u)" "t = u\<lparr>lfClosers := us @ q # vs\<rparr>"
    using assms(2) by (auto elim: life_step.cases)
  then show ?thesis using close_step_mount close_step_once assms(1) by (auto simp: life_inv_def)
next
  case False
  then show ?thesis using step_mount [OF assms(2)] step_once [OF assms(2)] assms(1) by (auto simp: life_inv_def)
qed

text \<open>Every step brings a thread, the context or the mount nearer to its end.\<close>

fun mainWeight :: "mainPC \<Rightarrow> nat" where
  "mainWeight MStart = 10" | "mainWeight MRefreshing = 9" | "mainWeight MServing = 4" | "mainWeight MReturned = 3"
| "mainWeight MCall = 2" | "mainWeight MCleanup = 1" | "mainWeight MEnd = 0"

fun watchWeight :: "watchPC \<Rightarrow> nat" where
  "watchWeight WOff = 0" | "watchWeight WSelect = 3" | "watchWeight WLock = 2" | "watchWeight WCall = 1"
| "watchWeight WEnd = 0"

fun closeWeight :: "closePC \<Rightarrow> nat" where
  "closeWeight CIdle = 6" | "closeWeight CLock = 5" | "closeWeight CUnmount = 4" | "closeWeight CCall = 3"
| "closeWeight CStream = 2" | "closeWeight CStore = 1" | "closeWeight CEnd = 0"

definition life_measure :: "life \<Rightarrow> nat" where
  "life_measure s = mainWeight (lfMain s) + watchWeight (lfWatch s) + (\<Sum>p\<leftarrow>lfClosers s. closeWeight p) +
     (if lfCtxDone s then 0 else 1) + (if lfGone s then 0 else 1)"

lemma close_step_less:
  assumes "close_step p s (q, t)" "lfClosers s = us @ p # vs"
  shows "life_measure (t\<lparr>lfClosers := us @ q # vs\<rparr>) < life_measure s"
  using assms(1) by (rule close_stepE) (use assms(2) in \<open>auto simp: life_measure_def life_ops split: if_splits\<close>)

lemma life_step_less:
  assumes "life_inv s" "life_step a s t"
  shows "life_measure t < life_measure s"
  using assms(2)
proof cases
  case lf_publish
  then show ?thesis using assms(1)
    by (auto simp: life_measure_def life_ops life_inv_def mount_inv_def split: if_splits)
next
  case lf_close
  then show ?thesis using close_step_less by simp
qed (auto simp: life_measure_def life_ops split: if_splits)

definition closers_done :: "life \<Rightarrow> bool" where
  "closers_done s \<longleftrightarrow> (\<forall>p \<in> set (lfClosers s). p = CEnd)"

definition mount_ended :: "life \<Rightarrow> bool" where
  "mount_ended s \<longleftrightarrow> lfMain s = MEnd \<and> (lfWatch s = WOff \<or> lfWatch s = WEnd)"

text \<open>A caller of \<open>Close\<close> is never stuck: who waits for the one inside waits for somebody that has a step.\<close>

lemma close_step_exists: "p \<noteq> CEnd \<Longrightarrow> p = CIdle \<longrightarrow> lfOnce s \<noteq> OnceRunning \<Longrightarrow> \<exists>r. close_step p s r"
  by (cases p; cases "lfOnce s") (blast intro: close_step.intros)+

lemma closer_steps:
  assumes "i < length (lfClosers s)" "lfClosers s ! i \<noteq> CEnd" "lfClosers s ! i = CIdle \<longrightarrow> lfOnce s \<noteq> OnceRunning"
  shows "\<exists>t. life_step (Closer i) s t"
proof -
  obtain q t where st: "close_step (lfClosers s ! i) s (q, t)"
    using close_step_exists [OF assms(2,3)] by (metis surj_pair)
  have "lfClosers s = take i (lfClosers s) @ lfClosers s ! i # drop (Suc i) (lfClosers s)"
    using id_take_nth_drop [OF assms(1)] by simp
  from lf_close [OF this st] show ?thesis using assms(1) by (auto simp: min_absorb2)
qed

lemma close_progress:
  assumes "once_inv s" "\<not> closers_done s"
  shows "\<exists>i t. life_step (Closer i) s t"
proof (cases "lfOnce s = OnceRunning")
  case True
  then have "busy s = 1" using assms(1) by (simp add: once_inv_def)
  then have "filter closing (lfClosers s) \<noteq> []" by (auto simp: busy_def)
  then obtain p where p: "p \<in> set (lfClosers s)" "closing p" by (auto simp: filter_empty_conv)
  then obtain i where "i < length (lfClosers s)" "lfClosers s ! i = p" by (auto simp: in_set_conv_nth)
  then show ?thesis using closer_steps [of i s] p(2) by (auto simp: closing_def)
next
  case False
  obtain i where "i < length (lfClosers s)" "lfClosers s ! i \<noteq> CEnd"
    using assms(2) by (auto simp: closers_done_def in_set_conv_nth)
  then show ?thesis using closer_steps [of i s] False by blast
qed

text \<open>
  The mount ends: once the context is over, and unless a call of \<open>Unmount\<close> has failed, one of the main thread, the goroutine
  and a call of \<open>Close\<close> under way can go on until both of the former have returned.
\<close>

definition mount_actor :: "life \<Rightarrow> actor \<Rightarrow> bool" where
  "mount_actor s a \<longleftrightarrow> a = Main \<or> a = Watch \<or> (\<exists>i < length (lfClosers s). a = Closer i \<and> closing (lfClosers s ! i))"

lemma watch_steps: "lfWatch s \<noteq> WOff \<Longrightarrow> lfWatch s \<noteq> WEnd \<Longrightarrow> lfCtxDone s \<or> lfDone s \<Longrightarrow> \<exists>t. life_step Watch s t"
  by (cases "lfWatch s") (blast intro: life_step.intros)+

lemma main_steps: "lfMain s \<noteq> MEnd \<Longrightarrow> lfMain s = MServing \<longrightarrow> lfGone s \<Longrightarrow> \<exists>t. life_step Main s t"
  by (cases "lfMain s") (blast intro: life_step.intros)+

lemma mount_progress:
  assumes inv: "mount_inv s" and s: "lfCtxDone s" "\<not> lfFailed s" "\<not> mount_ended s"
  shows "\<exists>a t. mount_actor s a \<and> life_step a s t"
proof -
  consider (watch) "lfWatch s \<noteq> WOff" "lfWatch s \<noteq> WEnd" | (main) "lfMain s \<noteq> MEnd" "lfMain s = MServing \<longrightarrow> lfGone s"
    | (wait) "lfMain s = MServing" "\<not> lfGone s" "lfWatch s = WEnd"
    using s(3) inv by (auto simp: mount_ended_def mount_inv_def split: if_splits)
  then show ?thesis
  proof cases
    case watch
    then show ?thesis using watch_steps s(1) by (auto simp: mount_actor_def)
  next
    case main
    then show ?thesis using main_steps by (auto simp: mount_actor_def)
  next
    case wait
    then have "count_list (lfClosers s) CCall \<noteq> 0"
      using inv s(2) by (auto simp: mount_inv_def callers_def)
    then have "CCall \<in> set (lfClosers s)" by (meson count_notin)
    then obtain i where "i < length (lfClosers s)" "lfClosers s ! i = CCall" by (auto simp: in_set_conv_nth)
    then have "mount_actor s (Closer i)" "\<exists>t. life_step (Closer i) s t"
      using closer_steps [of i s] by (auto simp: mount_actor_def closing_def)
    then show ?thesis by blast
  qed
qed

lemma close_step_unmounts: "close_step p s (q, t) \<Longrightarrow> lfUnmounts s \<le> lfUnmounts t"
  by (erule close_stepE) (auto simp: life_ops)

lemma life_step_unmounts: "life_step a s t \<Longrightarrow> lfUnmounts s \<le> lfUnmounts t"
  by (erule life_step.cases) (auto simp: life_ops dest: close_step_unmounts)

interpretation lifecycle: terminating_system "\<lambda>s. \<exists>n. s = lifeStart n" life_next life_inv
  "\<lambda>s t. lfUnmounts s \<le> lfUnmounts t" life_measure
  by unfold_locales (use life_inv_start life_step_inv life_step_unmounts life_step_less in \<open>auto simp: life_next_def\<close>)

text \<open>
  What the first \<open>Close\<close> after the server was published does: past its look at the server the refresh loop is stopped,
  and it takes the server out unless somebody else has.
\<close>

definition shutting :: "life \<Rightarrow> bool" where
  "shutting s \<longleftrightarrow> lfWatch s \<noteq> WOff \<and>
     (case lfOnce s of
        OnceFresh \<Rightarrow> True
      | OnceRunning \<Rightarrow> CLock \<in> set (lfClosers s) \<and> (lfRefreshLoop s \<longrightarrow> lfRefreshCancel s) \<or>
          \<not> lfRefreshLoop s \<and> (CUnmount \<in> set (lfClosers s) \<or> \<not> lfServer s)
      | OnceDone \<Rightarrow> \<not> lfRefreshLoop s \<and> \<not> lfServer s)"

lemma close_step_shutting:
  assumes "close_step p s (q, t)" "lfClosers s = us @ p # vs" "life_inv s" "shutting s"
  shows "shutting (t\<lparr>lfClosers := us @ q # vs\<rparr>)"
proof -
  have o: "once_inv s" and m: "lfWatch s \<noteq> WOff \<and> lfOnce s = OnceFresh \<and> lfRefreshLoop s \<longrightarrow> lfRefreshCancel s"
    using assms(3) by (auto simp: life_inv_def mount_inv_def)
  show ?thesis
    using assms(1)
    by (rule close_stepE; cases "lfOnce s")
      (use assms(2,4) o m in \<open>auto simp: shutting_def once_inv_def busy_def closing_def life_ops filter_empty_conv split: if_splits\<close>)
qed

lemma step_shutting:
  assumes "life_step a s t" "life_inv s" "shutting s" "\<And>i. a \<noteq> Closer i"
  shows "shutting t"
proof -
  have m: "mount_inv s" using assms(2) by (simp add: life_inv_def)
  show ?thesis
    using assms(1)
    by cases (use m assms(3,4) in \<open>auto simp: mount_inv_def shutting_def life_ops split: if_splits once.splits\<close>)
qed

lemma life_step_shutting:
  assumes "life_inv s" "shutting s" "life_step a s t"
  shows "shutting t"
proof (cases "\<exists>i. a = Closer i")
  case True
  then obtain us p vs q u where "lfClosers s = us @ p # vs" "close_step p s (q, u)" "t = u\<lparr>lfClosers := us @ q # vs\<rparr>"
    using assms(3) by (auto elim: life_step.cases)
  then show ?thesis using close_step_shutting assms(1,2) by simp
next
  case False
  then show ?thesis using step_shutting [OF assms(3,1,2)] by blast
qed

lemma steps_shutting: "life_next\<^sup>*\<^sup>* s t \<Longrightarrow> life_inv s \<Longrightarrow> shutting s \<Longrightarrow> life_inv t \<and> shutting t"
  by (induction rule: rtranclp_induct) (auto simp: life_next_def dest: life_step_inv life_step_shutting)

text \<open>When it has returned, the refresh loop is over, and \<open>Unmount\<close> was called, or a thread that took the server is about to.\<close>

lemma close_shuts:
  assumes "life_inv s" "lfWatch s \<noteq> WOff" "lfOnce s = OnceFresh" "life_next\<^sup>*\<^sup>* s t" "lfOnce t = OnceDone"
  shows "\<not> lfServer t \<and> \<not> lfRefreshLoop t \<and> (lfUnmounts t = 1 \<or> lfMain t = MCall \<or> lfWatch t = WCall)"
proof -
  have t: "life_inv t" "shutting t" using steps_shutting [OF assms(4,1)] assms(2,3) by (auto simp: shutting_def)
  then have "CCall \<notin> set (lfClosers t)"
    using assms(5) by (auto simp: life_inv_def once_inv_def busy_def filter_empty_conv closing_def)
  then have "count_list (lfClosers t) CCall = 0" by simp
  then show ?thesis using t assms(5) by (auto simp: life_inv_def mount_inv_def shutting_def callers_def split: if_splits)
qed

text \<open>What the invariant says of the calls, and of a mount that has ended.\<close>

lemma unmounted_once:
  assumes "mount_inv s"
  shows "lfUnmounts s \<le> 1"
    and "mount_ended s \<Longrightarrow> lfWatch s \<noteq> WOff \<Longrightarrow> lfUnmounts s + count_list (lfClosers s) CCall = 1 \<and> lfGone s"
    and "mount_ended s \<Longrightarrow> \<not> lfRefreshLoop s"
    and "lfFailed s \<Longrightarrow> \<not> lfGone s \<Longrightarrow> lfMain s = MServing \<and> lfUnmounts s = 1 \<and> \<not> lfServer s"
  using assms by (auto simp: mount_inv_def mount_ended_def callers_def split: if_splits)

lemma count_closing: "closing p \<Longrightarrow> count_list ps p \<le> length (filter closing ps)"
  by (induction ps) auto

lemma closed_once:
  assumes "once_inv s"
  shows "lfStreamCloses s \<le> 1" "lfStoreCloses s \<le> 1"
    and "closers_done s \<Longrightarrow> lfClosers s \<noteq> [] \<Longrightarrow> lfStreamCloses s = 1 \<and> lfStoreCloses s = 1 \<and> lfOAuthDown s"
proof -
  have "count_list (lfClosers s) CStore \<le> busy s"
    unfolding busy_def by (rule count_closing) (simp add: closing_def)
  then show "lfStreamCloses s \<le> 1" "lfStoreCloses s \<le> 1"
    using assms by (auto simp: once_inv_def split: once.splits)
  show "lfStreamCloses s = 1 \<and> lfStoreCloses s = 1 \<and> lfOAuthDown s" if d: "closers_done s" "lfClosers s \<noteq> []"
  proof -
    have "CEnd \<in> set (lfClosers s)" using d by (cases "lfClosers s") (auto simp: closers_done_def)
    then show ?thesis using assms d by (auto simp: once_inv_def split: once.splits)
  qed
qed

end
