(* ===== verification/Bench.thy ===== *)
theory Bench
  imports RemotePath StreamManager
begin

text \<open>
  The read and stream benchmarks (\<open>internal/app/bench.go\<close>): reading a local file, one ranged read of a remote file,
  and the simulated playback with its statistics.

  A duration is in nanoseconds. What the loop of the simulated playback observes in one iteration (the clock, the
  context, what its reads return and how long they take, the buffer ahead of the cursor) is an \<open>iteration\<close>; the reads
  are functions of the offset and the length asked for. Throughputs (floating point) are left out of the results.
\<close>

section \<open>Percentiles\<close>

definition durationPercentile :: "int list \<Rightarrow> int \<Rightarrow> int" where
  "durationPercentile values percentile =
     (if values = [] then 0
      else let xs = sort values in
        if percentile \<le> 0 then xs ! 0
        else
          let p = (if 100 < percentile then 100 else percentile);
              index = (len xs * p + 99) div 100
          in xs ! nat (if 0 < index then index - 1 else index))"

definition durationP95 :: "int list \<Rightarrow> int" where
  "durationP95 values = durationPercentile values 95"

section \<open>Plain reads\<close>

record BenchResult =
  brPath :: string
  brFSID :: string
  brBytes :: int
  brElapsed :: int

definition sampleOr :: "int \<Rightarrow> int" where
  "sampleOr n = (if n \<le> 0 then 209715200 else n)"

text \<open>\<open>io.ReadFull\<close> on an opened file: the bytes it got and its error.\<close>

definition BenchmarkLocalFile ::
  "(string \<Rightarrow> goerr + (int \<Rightarrow> bytes \<times> goerr option)) \<Rightarrow> int \<Rightarrow> string \<Rightarrow> int \<Rightarrow> goerr + BenchResult" where
  "BenchmarkLocalFile openFile elapsed path sampleSize =
     (case openFile path of
        Inl e \<Rightarrow> Inl e
      | Inr readFull \<Rightarrow>
          (case readFull (sampleOr sampleSize) of
             (d, err) \<Rightarrow>
               if (case err of None \<Rightarrow> False | Some e \<Rightarrow> \<not> errors_Is e ErrEOF \<and> \<not> errors_Is e ErrUnexpectedEOF)
               then Inl (the err)
               else Inr \<lparr>brPath = path, brFSID = [], brBytes = len d, brElapsed = elapsed\<rparr>))"

text \<open>\<open>Benchmark\<close> over the reader's \<open>ReadRange\<close>.\<close>

definition Benchmark ::
  "lister \<Rightarrow> (string \<Rightarrow> int \<Rightarrow> int \<Rightarrow> goerr + bytes) \<Rightarrow> int \<Rightarrow> string \<Rightarrow> string \<Rightarrow> int \<Rightarrow> goerr + BenchResult" where
  "Benchmark ls readRange elapsed root remotePath sampleSize =
     (let fullPath = benchmarkRemotePath root remotePath; n = sampleOr sampleSize in
      case resolveRemoteEntry ls root fullPath of
        Inl e \<Rightarrow> Inl e
      | Inr entry \<Rightarrow>
          if eiIsDir entry then Inl (ErrText (''benchmark path is a directory: '' @ fullPath))
          else (case readRange (eiFSID entry) 0 (if 0 \<le> eiSize entry \<and> eiSize entry < n then eiSize entry else n) of
                  Inl e \<Rightarrow> Inl e
                | Inr d \<Rightarrow> Inr \<lparr>brPath = fullPath, brFSID = eiFSID entry, brBytes = len d, brElapsed = elapsed\<rparr>))"

section \<open>Simulated playback\<close>

record playback =
  pbSize :: int
  pbBytes :: int
  pbStep :: int
  pbSeekInterval :: int
  pbLow :: int
  pbDeadline :: int

record iteration =
  itNow :: int
  itCtx :: "goerr option"
  itSeekRead :: "int \<Rightarrow> int \<Rightarrow> goerr + bytes"
  itSeekTook :: int
  itRead :: "int \<Rightarrow> int \<Rightarrow> goerr + bytes"
  itTook :: int
  itStallAt :: int
  itAhead :: "int \<Rightarrow> int"
  itReadyAt :: int
  itWait :: "goerr option"

record measures =
  msOffset :: int
  msBytes :: int
  msStalls :: int
  msWarmup :: int
  msSteady :: int
  msSeeks :: "int list"
  msReads :: "int list"
  msStallDurations :: "int list"
  msMin :: int
  msMax :: int
  msSamples :: int
  msLow :: int
  msZero :: int
  msStartup :: int
  msReady :: int
  msFirstStall :: int
  msLastStall :: int
  msNextSeek :: "int option"

definition noMeasures :: measures where
  "noMeasures =
     \<lparr>msOffset = 0, msBytes = 0, msStalls = 0, msWarmup = 0, msSteady = 0, msSeeks = [], msReads = [],
      msStallDurations = [], msMin = 0, msMax = 0, msSamples = 0, msLow = 0, msZero = 0, msStartup = 0, msReady = 0,
      msFirstStall = 0, msLastStall = 0, msNextSeek = None\<rparr>"

definition bytesPerStep :: "int \<Rightarrow> int \<Rightarrow> int" where
  "bytesPerStep bitrateMbps step =
     (let perSecond = go_div (i64 (bitrateMbps * 1000 * 1000)) 8;
          n = go_div (i64 (perSecond * step)) 1000000000
      in if n \<le> 0 then 1 else n)"

text \<open>The optional seek at the head of an iteration.\<close>

definition seekTarget :: "playback \<Rightarrow> int \<Rightarrow> int" where
  "seekTarget p offset =
     (let o1 = i64 (offset + 67108864)
      in if pbSize p \<le> i64 (o1 + pbBytes p) then go_div (pbSize p) 3 else o1)"

definition benchSeek :: "playback \<Rightarrow> iteration \<Rightarrow> measures \<Rightarrow> goerr + measures" where
  "benchSeek p it s =
     (case msNextSeek s of
        None \<Rightarrow> Inr s
      | Some t \<Rightarrow>
          if t \<le> itNow it \<and> i64 (pbBytes p * 4) < pbSize p then
            (let offset = seekTarget p (msOffset s) in
             case itSeekRead it offset (pbBytes p) of
               Inl e \<Rightarrow> Inl e
             | Inr d \<Rightarrow> Inr (s\<lparr>msOffset := offset, msSeeks := msSeeks s @ [itSeekTook it],
                              msNextSeek := Some (itNow it + pbSeekInterval p)\<rparr>))
          else Inr s)"

text \<open>Latency and stalls of a read.\<close>

definition noteStall :: "playback \<Rightarrow> iteration \<Rightarrow> measures \<Rightarrow> measures" where
  "noteStall p it s =
     s\<lparr>msStalls := msStalls s + 1, msStallDurations := msStallDurations s @ [itTook it - pbStep p],
       msFirstStall := (if msFirstStall s = 0 then itStallAt it else msFirstStall s),
       msLastStall := itStallAt it,
       msWarmup := (if msReady s = 0 then msWarmup s + 1 else msWarmup s),
       msSteady := (if msReady s = 0 then msSteady s else msSteady s + 1)\<rparr>"

definition benchLatency :: "playback \<Rightarrow> iteration \<Rightarrow> measures \<Rightarrow> measures" where
  "benchLatency p it s =
     (let s1 = s\<lparr>msReads := msReads s @ [itTook it]\<rparr> in
      if msBytes s1 = 0 then s1\<lparr>msStartup := itTook it\<rparr>
      else if pbStep p < itTook it then noteStall p it s1
      else s1)"

text \<open>The cursor and the buffer ahead of it.\<close>

definition benchBuffer :: "playback \<Rightarrow> iteration \<Rightarrow> int \<Rightarrow> measures \<Rightarrow> measures" where
  "benchBuffer p it n s =
     (let offset = msOffset s + n; ahead = itAhead it offset in
      s\<lparr>msOffset := offset, msBytes := msBytes s + n,
        msMin := (if msSamples s = 0 \<or> ahead < msMin s then ahead else msMin s),
        msMax := (if msSamples s = 0 \<or> msMax s < ahead then ahead else msMax s),
        msSamples := msSamples s + 1,
        msLow := (if ahead < pbLow p then msLow s + 1 else msLow s),
        msZero := (if ahead \<le> 0 then msZero s + 1 else msZero s),
        msReady := (if msReady s = 0 \<and> pbLow p \<le> ahead then itReadyAt it else msReady s)\<rparr>)"

text \<open>One iteration, and whether the loop breaks.\<close>

definition benchIteration :: "playback \<Rightarrow> iteration \<Rightarrow> measures \<Rightarrow> goerr + bool \<times> measures" where
  "benchIteration p it s =
     (case itCtx it of Some e \<Rightarrow> Inl e | None \<Rightarrow>
      case benchSeek p it s of Inl e \<Rightarrow> Inl e | Inr s1 \<Rightarrow>
      case itRead it (msOffset s1) (pbBytes p) of Inl e \<Rightarrow> Inl e | Inr d \<Rightarrow>
      let s2 = benchBuffer p it (len d) (benchLatency p it s1) in
      if 0 < pbSize p \<and> pbSize p \<le> msOffset s2 then Inr (True, s2)
      else if itTook it < pbStep p then (case itWait it of Some e \<Rightarrow> Inl e | None \<Rightarrow> Inr (False, s2))
      else Inr (False, s2))"

partial_function (option) benchLoop ::
  "playback \<Rightarrow> (nat \<Rightarrow> iteration) \<Rightarrow> nat \<Rightarrow> measures \<Rightarrow> (goerr + measures) option" where
  "benchLoop p its n s =
     (if pbDeadline p \<le> itNow (its n) then Some (Inr s)
      else case benchIteration p (its n) s of
        Inl e \<Rightarrow> Some (Inl e)
      | Inr r \<Rightarrow> if fst r then Some (Inr (snd r)) else benchLoop p its (n + 1) (snd r))"

record StreamBenchResult =
  sbBitrateMbps :: int
  sbDuration :: int
  sbBytes :: int
  sbStartup :: int
  sbBufferReady :: int
  sbBufferMin :: int
  sbBufferMax :: int
  sbBufferSamples :: int
  sbBufferLowCount :: int
  sbBufferZeroCount :: int
  sbReadSamples :: int
  sbReadP50 :: int
  sbReadP95 :: int
  sbReadP99 :: int
  sbReadMax :: int
  sbStalls :: int
  sbWarmupStalls :: int
  sbSteadyStalls :: int
  sbStallTotal :: int
  sbStallP95 :: int
  sbStallMax :: int
  sbFirstStallAt :: int
  sbLastStallAt :: int
  sbSeeks :: int
  sbSeekP95 :: int
  sbRemoteDownloaded :: int
  sbRetries :: int
  sbHedges :: int
  sbLowWatermark :: int

text \<open>The counters of the engine before and after the loop; a negative difference is reported as zero.\<close>

record counters =
  cnDownloaded :: int
  cnRetries :: int
  cnHedges :: int

definition countedSince :: "int \<Rightarrow> int \<Rightarrow> int" where
  "countedSince before after = (if after - before < 0 then 0 else after - before)"

definition stallSummary :: "int list \<Rightarrow> int \<times> int" where
  "stallSummary ds = fold (\<lambda>d (t, m). (t + d, if m < d then d else m)) ds (0, 0)"

definition benchReport :: "int \<Rightarrow> playback \<Rightarrow> int \<Rightarrow> counters \<Rightarrow> counters \<Rightarrow> measures \<Rightarrow> StreamBenchResult" where
  "benchReport bitrate p elapsed c0 c1 s =
     (let (stallTotal, stallMax) = stallSummary (msStallDurations s) in
      \<lparr>sbBitrateMbps = bitrate, sbDuration = elapsed, sbBytes = msBytes s, sbStartup = msStartup s,
       sbBufferReady = msReady s, sbBufferMin = msMin s, sbBufferMax = msMax s, sbBufferSamples = msSamples s,
       sbBufferLowCount = msLow s, sbBufferZeroCount = msZero s, sbReadSamples = len (msReads s),
       sbReadP50 = durationPercentile (msReads s) 50, sbReadP95 = durationPercentile (msReads s) 95,
       sbReadP99 = durationPercentile (msReads s) 99, sbReadMax = durationPercentile (msReads s) 100,
       sbStalls = msStalls s, sbWarmupStalls = msWarmup s, sbSteadyStalls = msSteady s,
       sbStallTotal = stallTotal, sbStallP95 = durationP95 (msStallDurations s), sbStallMax = stallMax,
       sbFirstStallAt = msFirstStall s, sbLastStallAt = msLastStall s, sbSeeks = len (msSeeks s),
       sbSeekP95 = durationP95 (msSeeks s), sbRemoteDownloaded = countedSince (cnDownloaded c0) (cnDownloaded c1),
       sbRetries = countedSince (cnRetries c0) (cnRetries c1), sbHedges = countedSince (cnHedges c0) (cnHedges c1),
       sbLowWatermark = pbLow p\<rparr>)"

text \<open>\<open>benchmarkStream\<close> for a manager that hands out a handle; \<open>None\<close> while the loop has not ended.\<close>

record bench_world =
  bwStart :: int
  bwIterations :: "nat \<Rightarrow> iteration"
  bwElapsed :: int
  bwBefore :: counters
  bwAfter :: counters
  bwHandle :: bool

definition playbackOf :: "int \<Rightarrow> int \<Rightarrow> int \<Rightarrow> int \<Rightarrow> int \<Rightarrow> int \<Rightarrow> int \<Rightarrow> playback" where
  "playbackOf fsize low start bitrate duration seekInterval step =
     \<lparr>pbSize = fsize, pbBytes = bytesPerStep bitrate step, pbStep = step, pbSeekInterval = seekInterval, pbLow = low,
      pbDeadline = start + duration\<rparr>"

definition benchmarkStream ::
  "bench_world \<Rightarrow> int \<Rightarrow> int \<Rightarrow> int \<Rightarrow> int \<Rightarrow> int \<Rightarrow> int \<Rightarrow> (goerr + StreamBenchResult) option" where
  "benchmarkStream w low fsize bitrate duration seekInterval step =
     (if bitrate \<le> 0 \<or> duration \<le> 0 \<or> step \<le> 0
      then Some (Inl (ErrText ''bitrate, duration and step must be positive''))
      else if \<not> bwHandle w then Some (Inl (ErrText ''stream handle is unavailable''))
      else
        let p = playbackOf fsize low (bwStart w) bitrate duration seekInterval step;
            s0 = noMeasures\<lparr>msNextSeek := (if 0 < seekInterval then Some (bwStart w + seekInterval) else None)\<rparr>
        in case benchLoop p (bwIterations w) 0 s0 of
             None \<Rightarrow> None
           | Some (Inl e) \<Rightarrow> Some (Inl e)
           | Some (Inr s) \<Rightarrow> Some (Inr (benchReport bitrate p (bwElapsed w) (bwBefore w) (bwAfter w) s)))"

definition BenchmarkStream ::
  "lister \<Rightarrow> (entryInfo \<Rightarrow> bench_world) \<Rightarrow> int \<Rightarrow> string \<Rightarrow> string \<Rightarrow> int \<Rightarrow> int \<Rightarrow> int \<Rightarrow>
   (goerr + string \<times> StreamBenchResult) option" where
  "BenchmarkStream ls w low root remotePath bitrate duration seekInterval =
     (if bitrate \<le> 0 \<or> duration \<le> 0 then Some (Inl (ErrText ''bitrate and duration must be positive''))
      else
        let fullPath = benchmarkRemotePath root remotePath in
        case resolveRemoteEntry ls root fullPath of
          Inl e \<Rightarrow> Some (Inl e)
        | Inr entry \<Rightarrow>
            if eiIsDir entry then Some (Inl (ErrText (''benchmark path is a directory: '' @ fullPath)))
            else map_option (map_sum id (Pair fullPath))
                   (benchmarkStream (w entry) low (eiSize entry) bitrate duration seekInterval 200000000))"

end
