(* ===== verification/BenchLaws.thy ===== *)
theory BenchLaws
  imports Bench
begin

text \<open>
  Laws of the benchmarks: the percentile is the nearest-rank percentile, the simulated playback ends when the clock
  reaches its deadline, its report is consistent, and its reads start inside the file.
\<close>

section \<open>Percentiles\<close>

lemma rank_below:
  fixes xs :: "int list"
  assumes "sorted xs" "k < length xs"
  shows "Suc k \<le> length (filter (\<lambda>x. x \<le> xs ! k) xs)" "length (filter (\<lambda>x. x < xs ! k) xs) \<le> k"
proof -
  have s: "xs = take (Suc k) xs @ drop (Suc k) xs" "xs = take k xs @ drop k xs" by simp_all
  have le: "\<forall>x \<in> set (take (Suc k) xs). x \<le> xs ! k"
    using assms by (auto simp: in_set_conv_nth less_Suc_eq_le intro!: sorted_nth_mono)
  have "length (filter (\<lambda>x. x \<le> xs ! k) xs) =
      length (filter (\<lambda>x. x \<le> xs ! k) (take (Suc k) xs)) + length (filter (\<lambda>x. x \<le> xs ! k) (drop (Suc k) xs))"
    by (subst s(1)) (simp only: filter_append length_append)
  moreover have "filter (\<lambda>x. x \<le> xs ! k) (take (Suc k) xs) = take (Suc k) xs"
    by (rule filter_True) (rule le)
  ultimately show "Suc k \<le> length (filter (\<lambda>x. x \<le> xs ! k) xs)" using assms(2) by simp
  have ge: "\<forall>x \<in> set (drop k xs). \<not> x < xs ! k"
    using assms by (auto simp: in_set_conv_nth not_less intro!: sorted_nth_mono)
  have "length (filter (\<lambda>x. x < xs ! k) xs) =
      length (filter (\<lambda>x. x < xs ! k) (take k xs)) + length (filter (\<lambda>x. x < xs ! k) (drop k xs))"
    by (subst s(2)) (simp only: filter_append length_append)
  moreover have "filter (\<lambda>x. x < xs ! k) (drop k xs) = []" using ge by (simp add: filter_empty_conv)
  ultimately show "length (filter (\<lambda>x. x < xs ! k) xs) \<le> k"
    using length_filter_le [of "\<lambda>x. x < xs ! k" "take k xs"] by simp
qed

definition nearestRank :: "int \<Rightarrow> int \<Rightarrow> int" where
  "nearestRank n p = (n * p + 99) div 100 - 1"

lemma nearestRank_bounds:
  assumes "0 < n" "0 < p" "p \<le> 100"
  shows "0 \<le> nearestRank n p" "nearestRank n p < n" "n * p \<le> 100 * (nearestRank n p + 1)" "100 * nearestRank n p < n * p"
proof -
  have np: "0 < n * p" "n * p \<le> n * 100" using assms by (auto intro: mult_left_mono)
  obtain m where d: "100 * (nearestRank n p + 1) + m = n * p + 99" "0 \<le> m" "m < 100"
  proof
    show "100 * (nearestRank n p + 1) + (n * p + 99) mod 100 = n * p + 99" by (simp add: nearestRank_def)
  qed simp_all
  have "1 \<le> (n * p + 99) div 100" using zdiv_mono1 [of 100 "n * p + 99" 100] np(1) by simp
  then show "0 \<le> nearestRank n p" by (simp add: nearestRank_def)
  have "(n * p + 99) div 100 \<le> (n * 100 + 99) div 100" by (rule zdiv_mono1) (use np(2) in simp_all)
  then show "nearestRank n p < n" by (simp add: nearestRank_def)
  show "n * p \<le> 100 * (nearestRank n p + 1)" using d by linarith
  have "100 * nearestRank n p = n * p - (1 + m)" using d(1) by (simp add: algebra_simps)
  then show "100 * nearestRank n p < n * p" using d(2) by simp
qed

lemma durationPercentile_rank:
  assumes "values \<noteq> []" "0 < p" "p \<le> 100"
  shows "durationPercentile values p = sort values ! nat (nearestRank (len values) p)"
proof -
  have n: "0 < len values" using assms(1) by simp
  have "0 < (len values * p + 99) div 100" using nearestRank_bounds(1) [OF n assms(2,3)] by (simp add: nearestRank_def)
  then show ?thesis using assms by (simp add: durationPercentile_def nearestRank_def Let_def)
qed

lemma percentile_nearest_rank:
  assumes "values \<noteq> []" "0 < p" "p \<le> 100"
  shows "durationPercentile values p \<in> set values"
    and "len values * p \<le> 100 * len (filter (\<lambda>v. v \<le> durationPercentile values p) values)"
    and "100 * len (filter (\<lambda>v. v < durationPercentile values p) values) < len values * p"
proof -
  let ?k = "nat (nearestRank (len values) p)"
  have n: "0 < len values" using assms(1) by simp
  note b = nearestRank_bounds [OF n assms(2,3)]
  have k: "?k < length (sort values)" using b(1,2) by simp
  note r = rank_below [OF sorted_sort k]
  have f: "length (filter P (sort values)) = length (filter P values)" for P :: "int \<Rightarrow> bool"
    using mset_filter [of P "sort values"] by (metis mset_filter mset_sort size_mset)
  show "durationPercentile values p \<in> set values"
    using nth_mem [OF k] by (simp add: durationPercentile_rank [OF assms])
  show "len values * p \<le> 100 * len (filter (\<lambda>v. v \<le> durationPercentile values p) values)"
    using of_nat_mono [OF r(1), where 'a = int] b(1,3) unfolding durationPercentile_rank [OF assms] f by simp
  show "100 * len (filter (\<lambda>v. v < durationPercentile values p) values) < len values * p"
    using of_nat_mono [OF r(2), where 'a = int] b(1,4) unfolding durationPercentile_rank [OF assms] f by simp
qed

lemma percentile_mono:
  assumes "0 < p" "p \<le> q" "q \<le> 100"
  shows "durationPercentile values p \<le> durationPercentile values q"
proof (cases "values = []")
  case False
  then have n: "0 < len values" by simp
  have "nearestRank (len values) p \<le> nearestRank (len values) q"
    unfolding nearestRank_def using assms n by (intro diff_right_mono zdiv_mono1 add_right_mono mult_left_mono) auto
  then have "nat (nearestRank (len values) p) \<le> nat (nearestRank (len values) q)" by simp
  moreover have "nat (nearestRank (len values) q) < length (sort values)"
    using nearestRank_bounds(1,2) [OF n, of q] assms by simp
  ultimately show ?thesis
    using durationPercentile_rank [OF False, of p] durationPercentile_rank [OF False, of q] assms
    by (simp add: sorted_nth_mono)
qed (simp add: durationPercentile_def)

section \<open>The summary of the stalls\<close>

lemma stallSummary_fold:
  fixes ds :: "int list"
  assumes "\<forall>d \<in> set ds. 0 < d" "0 \<le> m" "m \<le> t" "fold (\<lambda>d (t, m). (t + d, if m < d then d else m)) ds (t, m) = (t', m')"
  shows "t' = t + sum_list ds \<and> (\<forall>d \<in> set ds. d \<le> m') \<and> m \<le> m' \<and> (m' = m \<or> m' \<in> set ds) \<and> m' \<le> t'"
  using assms
proof (induction ds arbitrary: t m)
  case (Cons d ds)
  have d: "0 < d" using Cons.prems(1) by simp
  have "fold (\<lambda>d (t, m). (t + d, if m < d then d else m)) ds (t + d, if m < d then d else m) = (t', m')"
    using Cons.prems(4) by simp
  moreover have "0 \<le> (if m < d then d else m)" "(if m < d then d else m) \<le> t + d" using Cons.prems(2,3) d by auto
  moreover have "\<forall>d \<in> set ds. 0 < d" using Cons.prems(1) by simp
  ultimately show ?case using Cons.IH [of "if m < d then d else m" "t + d"] by (auto split: if_splits)
qed simp

lemma stallSummary_laws:
  assumes "\<forall>d \<in> set ds. 0 < d"
  shows "fst (stallSummary ds) = sum_list ds" "\<forall>d \<in> set ds. d \<le> snd (stallSummary ds)"
    "snd (stallSummary ds) \<le> fst (stallSummary ds)" "0 \<le> snd (stallSummary ds)"
  using stallSummary_fold [OF assms order_refl order_refl, of "fst (stallSummary ds)" "snd (stallSummary ds)"]
  by (simp_all add: stallSummary_def)

lemma percentile_le:
  assumes "0 < p" "p \<le> 100" "\<forall>d \<in> set ds. d \<le> m" "0 \<le> m"
  shows "durationPercentile ds p \<le> m"
  using percentile_nearest_rank(1) [of ds p] assms by (cases "ds = []") (auto simp: durationPercentile_def)

section \<open>The loop\<close>

definition measures_ok :: "measures \<Rightarrow> bool" where
  "measures_ok s \<longleftrightarrow>
     msStalls s = msWarmup s + msSteady s \<and> msStalls s = len (msStallDurations s) \<and> msSamples s = len (msReads s) \<and>
     msStalls s \<le> msSamples s \<and> (\<forall>d \<in> set (msStallDurations s). 0 < d) \<and> (0 < msSamples s \<longrightarrow> msMin s \<le> msMax s) \<and>
     0 \<le> msLow s \<and> msLow s \<le> msSamples s \<and> 0 \<le> msZero s \<and> msZero s \<le> msSamples s \<and> 0 \<le> msBytes s"

lemma measures_ok_start: "measures_ok (noMeasures\<lparr>msNextSeek := t\<rparr>)"
  by (simp add: measures_ok_def noMeasures_def)

lemma benchSeek_ok: "benchSeek p it s = Inr t \<Longrightarrow> measures_ok s \<Longrightarrow> measures_ok t"
  by (auto simp: benchSeek_def Let_def measures_ok_def split: option.splits if_splits sum.splits)

lemma benchRead_ok:
  assumes "measures_ok s" "0 \<le> n"
  shows "measures_ok (benchBuffer p it n (benchLatency p it s))"
  using assms by (auto simp: measures_ok_def benchBuffer_def benchLatency_def noteStall_def Let_def)

lemma benchIteration_ok:
  assumes "benchIteration p it s = Inr r" "measures_ok s"
  shows "measures_ok (snd r) \<and> msSamples (snd r) = msSamples s + 1"
proof -
  obtain t where t: "benchSeek p it s = Inr t"
    using assms(1) by (auto simp: benchIteration_def split: option.splits sum.splits)
  then obtain d where "itRead it (msOffset t) (pbBytes p) = Inr d"
    using assms(1) by (auto simp: benchIteration_def split: option.splits sum.splits)
  then have r: "snd r = benchBuffer p it (len d) (benchLatency p it t)"
    using assms(1) t by (auto simp: benchIteration_def Let_def split: option.splits if_splits)
  have "msSamples t = msSamples s"
    using t by (auto simp: benchSeek_def Let_def split: option.splits if_splits sum.splits)
  then show ?thesis
    using benchRead_ok [OF benchSeek_ok [OF t assms(2)]]
    by (simp add: r) (simp add: benchBuffer_def benchLatency_def noteStall_def Let_def)
qed

definition loop_post :: "playback \<Rightarrow> (nat \<Rightarrow> iteration) \<Rightarrow> nat \<Rightarrow> measures \<Rightarrow> goerr + measures \<Rightarrow> bool" where
  "loop_post p its n s r \<longleftrightarrow> (\<forall>t. r = Inr t \<longrightarrow> measures_ok s \<longrightarrow>
     measures_ok t \<and> msSamples s \<le> msSamples t \<and> (itNow (its n) < pbDeadline p \<longrightarrow> msSamples s < msSamples t))"

lemma benchLoop_post:
  assumes "benchLoop p its n s = Some r"
  shows "loop_post p its n s r"
proof (rule benchLoop.raw_induct [of loop_post, OF _ assms])
  fix rec p its n s r
  assume ih: "\<And>p its n s r. rec p its n s = Some r \<Longrightarrow> loop_post p its n s r"
    and eq: "(if pbDeadline p \<le> itNow (its n) then Some (Inr s)
      else case benchIteration p (its n) s of
        Inl e \<Rightarrow> Some (Inl e)
      | Inr r \<Rightarrow> if fst r then Some (Inr (snd r)) else rec p its (n + 1) (snd r)) = Some r"
  show "loop_post p its n s r"
  proof (cases "pbDeadline p \<le> itNow (its n)")
    case True
    then show ?thesis using eq by (auto simp: loop_post_def)
  next
    case False
    show ?thesis
    proof (cases "benchIteration p (its n) s")
      case (Inl e)
      then show ?thesis using eq False by (auto simp: loop_post_def)
    next
      case (Inr u)
      then show ?thesis
        using eq False ih [of p its "n + 1" "snd u" r] benchIteration_ok [OF Inr]
        by (auto simp: loop_post_def split: if_splits)
    qed
  qed
qed

lemmas benchLoop_ok = benchLoop_post [unfolded loop_post_def, rule_format]

lemma benchLoop_returns:
  assumes "n \<le> m" "pbDeadline p \<le> itNow (its m)"
  shows "benchLoop p its n s \<noteq> None"
  using assms
proof (induction "m - n" arbitrary: n s)
  case 0
  then show ?case by (simp add: benchLoop.simps)
next
  case (Suc k)
  then have "benchLoop p its (n + 1) u \<noteq> None" for u by simp
  then show ?case by (subst benchLoop.simps) (auto split: sum.splits)
qed

section \<open>Where the reads start\<close>

lemma seekTarget_in:
  assumes "0 < pbSize p" "pbSize p < 2 ^ 62" "0 < pbBytes p" "pbBytes p < 2 ^ 61" "0 \<le> off" "off < pbSize p"
  shows "0 \<le> seekTarget p off \<and> seekTarget p off < pbSize p"
proof -
  have a: "i64 (off + 67108864) = off + 67108864" using assms by (intro i64_nonneg_id) auto
  have b: "i64 (off + 67108864 + pbBytes p) = off + 67108864 + pbBytes p"
    using assms by (intro i64_nonneg_id) auto
  have c: "go_div (pbSize p) 3 = pbSize p div 3" using assms by (intro go_div_nonneg) auto
  show ?thesis using assms a b c by (auto simp: seekTarget_def Let_def)
qed

lemma benchSeek_in:
  assumes "0 < pbSize p" "pbSize p < 2 ^ 62" "0 < pbBytes p" "pbBytes p < 2 ^ 61" "0 \<le> msOffset s" "msOffset s < pbSize p"
    and "benchSeek p it s = Inr t"
  shows "0 \<le> msOffset t \<and> msOffset t < pbSize p"
  using assms seekTarget_in [OF assms(1-6)]
  by (auto simp: benchSeek_def Let_def split: option.splits if_splits sum.splits)

lemma benchIteration_in:
  assumes "0 < pbSize p" "pbSize p < 2 ^ 62" "0 < pbBytes p" "pbBytes p < 2 ^ 61" "0 \<le> msOffset s" "msOffset s < pbSize p"
    and "benchIteration p it s = Inr (False, t)"
  shows "0 \<le> msOffset t \<and> msOffset t < pbSize p"
proof -
  obtain u where u: "benchSeek p it s = Inr u"
    using assms(7) by (auto simp: benchIteration_def split: option.splits sum.splits)
  then obtain d where "itRead it (msOffset u) (pbBytes p) = Inr d"
    using assms(7) by (auto simp: benchIteration_def split: option.splits sum.splits)
  then have t: "t = benchBuffer p it (len d) (benchLatency p it u)" "msOffset t < pbSize p"
    using assms(1,7) u by (auto simp: benchIteration_def Let_def split: option.splits if_splits)
  have "msOffset t = msOffset u + len d" by (simp add: t(1) benchBuffer_def benchLatency_def noteStall_def Let_def)
  then show ?thesis using benchSeek_in [OF assms(1-6) u] t(2) by simp
qed

section \<open>The report\<close>

definition report_ok :: "StreamBenchResult \<Rightarrow> bool" where
  "report_ok r \<longleftrightarrow>
      sbStalls r = sbWarmupStalls r + sbSteadyStalls r \<and> sbStalls r \<le> sbReadSamples r \<and>
      sbReadP50 r \<le> sbReadP95 r \<and> sbReadP95 r \<le> sbReadP99 r \<and> sbReadP99 r \<le> sbReadMax r \<and>
      sbStallP95 r \<le> sbStallMax r \<and> sbStallMax r \<le> sbStallTotal r \<and>
      sbBufferSamples r = sbReadSamples r \<and> (0 < sbBufferSamples r \<longrightarrow> sbBufferMin r \<le> sbBufferMax r) \<and>
      sbBufferLowCount r \<le> sbBufferSamples r \<and> sbBufferZeroCount r \<le> sbBufferSamples r \<and>
      0 \<le> sbBytes r \<and> 0 \<le> sbRemoteDownloaded r \<and> 0 \<le> sbRetries r \<and> 0 \<le> sbHedges r"

lemma benchReport_ok:
  assumes "measures_ok s"
  shows "report_ok (benchReport bitrate q elapsed c0 c1 s)"
proof -
  have m: "msStalls s = msWarmup s + msSteady s" "msStalls s \<le> len (msReads s)" "msSamples s = len (msReads s)"
    "0 < msSamples s \<Longrightarrow> msMin s \<le> msMax s" "msLow s \<le> msSamples s" "msZero s \<le> msSamples s" "0 \<le> msBytes s"
    and pos: "\<forall>d \<in> set (msStallDurations s). 0 < d"
    using assms by (simp_all add: measures_ok_def)
  note l = stallSummary_laws [OF pos]
  have "durationP95 (msStallDurations s) \<le> snd (stallSummary (msStallDurations s))"
    unfolding durationP95_def by (rule percentile_le) (use l in simp_all)
  moreover have "durationPercentile (msReads s) 50 \<le> durationPercentile (msReads s) 95"
    "durationPercentile (msReads s) 95 \<le> durationPercentile (msReads s) 99"
    "durationPercentile (msReads s) 99 \<le> durationPercentile (msReads s) 100"
    by (simp_all add: percentile_mono)
  moreover have "0 \<le> countedSince x y" for x y by (simp add: countedSince_def)
  ultimately show ?thesis
    using m l(3) by (simp add: report_ok_def benchReport_def case_prod_beta)
qed

definition startMeasures :: "int \<Rightarrow> int \<Rightarrow> measures" where
  "startMeasures t0 seekInterval = noMeasures\<lparr>msNextSeek := (if 0 < seekInterval then Some (t0 + seekInterval) else None)\<rparr>"

lemma benchmarkStream_loop:
  "benchmarkStream w low fsize bitrate duration seekInterval step =
     (if bitrate \<le> 0 \<or> duration \<le> 0 \<or> step \<le> 0
      then Some (Inl (ErrText ''bitrate, duration and step must be positive''))
      else if \<not> bwHandle w then Some (Inl (ErrText ''stream handle is unavailable''))
      else case benchLoop (playbackOf fsize low (bwStart w) bitrate duration seekInterval step) (bwIterations w) 0
                  (startMeasures (bwStart w) seekInterval) of
             None \<Rightarrow> None
           | Some (Inl e) \<Rightarrow> Some (Inl e)
           | Some (Inr s) \<Rightarrow> Some (Inr (benchReport bitrate (playbackOf fsize low (bwStart w) bitrate duration seekInterval step)
               (bwElapsed w) (bwBefore w) (bwAfter w) s)))"
  by (simp only: benchmarkStream_def startMeasures_def Let_def)

lemma benchmarkStream_returns:
  assumes "bwStart w + duration \<le> itNow (bwIterations w n)"
  shows "benchmarkStream w low fsize bitrate duration seekInterval step \<noteq> None"
proof -
  have "benchLoop (playbackOf fsize low (bwStart w) bitrate duration seekInterval step) (bwIterations w) 0
      (startMeasures (bwStart w) seekInterval) \<noteq> None"
    by (rule benchLoop_returns [of 0 n]) (use assms in \<open>simp_all add: playbackOf_def\<close>)
  then show ?thesis by (auto simp: benchmarkStream_loop split: option.splits sum.splits)
qed

lemma benchmarkStream_report:
  assumes "benchmarkStream w low fsize bitrate duration seekInterval step = Some (Inr r)"
  shows "report_ok r"
proof -
  obtain s where s: "benchLoop (playbackOf fsize low (bwStart w) bitrate duration seekInterval step) (bwIterations w) 0
      (startMeasures (bwStart w) seekInterval) = Some (Inr s)"
    and r: "r = benchReport bitrate (playbackOf fsize low (bwStart w) bitrate duration seekInterval step)
      (bwElapsed w) (bwBefore w) (bwAfter w) s"
    using assms by (auto simp: benchmarkStream_loop split: option.splits sum.splits if_splits)
  have "measures_ok s" using benchLoop_ok [OF s refl] measures_ok_start by (simp add: startMeasures_def)
  then show ?thesis unfolding r by (rule benchReport_ok)
qed

end
