(* ===== verification/AppRunExample.thy ===== *)
theory AppRunExample
  imports AppRunLaws AppStart BenchLaws
begin

text \<open>
  Examples: an application without a stored token that gets one from its callback server and reaches the mount, a mount
  that ends, a remote file named on the command line, and a short simulated playback.
\<close>

section \<open>A first start\<close>

definition exQuery :: "OAuthServer \<Rightarrow> string \<Rightarrow> string" where
  "exQuery s k = (if k = ''state'' then oaState (osCfg s) else ''c'')"

definition exFlow :: "OAuthServer \<Rightarrow> ((goerr + string) + goerr) \<times> oauthEvent list \<times> OAuthServer" where
  "exFlow s = (let ((status, body), s1) = handleCallback False (exQuery s) s;
       ev = Callback (exQuery s ''state'') (exQuery s ''code'') status in
     case Wait False s1 of
       None \<Rightarrow> (Inr ErrCanceled, [ev], s1)
     | Some (Inl e, s2) \<Rightarrow> (Inl (Inl e), [ev, Quiet], s2)
     | Some (Inr code, s2) \<Rightarrow> (Inl (Inr code), [ev, Handed code], s2))"

definition exRun :: run_env where
  "exRun =
     \<lparr>reStat = None, reHealth = (\<lambda>_. Inr []), rePort = (\<lambda>_. Inr []), reListen = (\<lambda>_. None), reFlow = exFlow,
      reShutdown = None, reWithCode = (\<lambda>uri code. Inr code), reCodeOf = Inr,
      reExchange = (\<lambda>cfg code. Inr \<lparr>tkAccess = code, tkRefresh = []\<rparr>),
      reMarshal = (\<lambda>t. if tkRefresh t = [] then Inr (tkAccess t) else Inl ErrEOF),
      reUnmarshal = (\<lambda>d. Inr \<lparr>tkAccess = d, tkRefresh = []\<rparr>), reNotFound = ErrText ''not found'',
      reSave = \<lparr>svMkdir = None, svCreate = None, svTemp = ''tmp'', svChmod = None, svWrite = None, svWritten = 0,
        svSync = None, svClose = None, svRename = None, svRemove = None\<rparr>\<rparr>"

lemma exFlow_ok: "flow_ok exRun"
proof -
  have "oauth_run s es t \<and> (\<forall>code. x = Inl (Inr code) \<longrightarrow> Handed code \<in> set es)" if "exFlow s = (x, es, t)" for s x es t
  proof -
    obtain status body s1 where cb: "handleCallback False (exQuery s) s = ((status, body), s1)"
      by (metis surj_pair)
    let ?ev = "Callback (exQuery s ''state'') (exQuery s ''code'') status"
    have r1: "oauth_run s [?ev] s1"
      using or_step [OF or_done os_callback [OF cb]] by simp
    consider (none) "Wait False s1 = None" | (fails) e s2 where "Wait False s1 = Some (Inl e, s2)"
      | (hands) code s2 where "Wait False s1 = Some (Inr code, s2)"
      by (metis option.exhaust surj_pair sum.exhaust)
    then show ?thesis
    proof cases
      case none
      then show ?thesis using that r1 by (auto simp: exFlow_def cb)
    next
      case fails
      then show ?thesis using that or_step [OF r1 os_fail [OF fails]] by (auto simp: exFlow_def cb)
    next
      case hands
      then show ?thesis using that or_step [OF r1 os_wait [OF hands]] by (auto simp: exFlow_def cb)
    qed
  qed
  then show ?thesis by (simp add: flow_ok_def exRun_def)
qed

lemma ex_codec: "codec_ok exRun"
  by (auto simp: codec_ok_def exRun_def split: if_splits)

definition exApp :: "mgr \<Rightarrow> App" where
  "exApp m = \<lparr>apCfg = exAppCfg, apFuseGIDs = [], apStore = None, apRemote = NewReader True, apStream = m,
     apOAuth = NewOAuthServer ''r'' (oauthConfigOf exAppCfg) True\<rparr>"

lemma ex_token_path: "svTemp (reSave exRun) \<noteq> TokenPath (apCfg (exApp m))"
  by (simp add: exRun_def exApp_def exAppCfg_def)

lemma ex_first_start: "\<exists>c b fs'. runUntilMount exRun (exApp m) Map.empty = (Inr (c, b), fs') \<and> fs' ''/t'' = Some ''c''"
proof -
  let ?a = "exApp m"
  have cfg: "TokenPath exAppCfg = ''/t''" "OAuthListenAddr exAppCfg = []" "ClientID exAppCfg = ''i''" "RedirectURI exAppCfg = ''u''"
    by (simp_all add: exAppCfg_def Load_def)
  have load: "loadToken exRun ?a Map.empty = Inl (ErrText ''not found'')"
    by (simp add: loadToken_def LoadToken_def fileLoad_def exRun_def)
  have url: "\<exists>u. AuthorizeURL (apOAuth ?a) = Inr u"
    by (simp add: AuthorizeURL_def BuildAuthorizeURL_def exApp_def NewOAuthServer_def oauthConfigOf_def cfg)
  have start: "Start None (apOAuth ?a) = (None, apOAuth ?a\<lparr>osStarted := True\<rparr>)"
    by (simp add: Start_def exApp_def NewOAuthServer_def)
  have flow: "reFlow exRun (apOAuth ?a\<lparr>osStarted := True\<rparr>) =
      (Inl (Inr ''c''), [Callback (oaState (osCfg (apOAuth ?a))) ''c'' 200, Handed ''c''], apOAuth ?a\<lparr>osStarted := True\<rparr>)"
    by (simp add: exRun_def exFlow_def handleCallback_def exQuery_def exApp_def NewOAuthServer_def sendResult_def Wait_def)
  define a1 where "a1 = ?a\<lparr>apOAuth := ShutdownOAuth (apOAuth ?a\<lparr>osStarted := True\<rparr>)\<rparr>"
  have a1: "apCfg a1 = exAppCfg" by (simp add: a1_def exApp_def)
  define fs1 where "fs1 = snd (saveOAuthToken exRun a1 ''c'' Map.empty)"
  have save: "saveOAuthToken exRun a1 ''c'' Map.empty = (None, fs1)" and written: "fs1 ''/t'' = Some ''c''"
    by (simp_all add: fs1_def saveOAuthToken_def exRun_def SaveOAuthTokenFromCallback_def SaveToken_def fileSave_def
        removeTemp_def a1 cfg Let_def)
  have load1: "loadToken exRun a1 fs1 = Inr \<lparr>tkAccess = ''c'', tkRefresh = []\<rparr>"
    by (simp add: loadToken_def LoadToken_def fileLoad_def a1 cfg written) (simp add: exRun_def)
  obtain c b where bind: "bindRemoteClient (loadToken exRun a1 fs1) a1 = (Inr c, b)"
    by (simp add: load1 bindRemoteClient_def)
  have sel: "reStat exRun = None" "reListen exRun addr = None" "reShutdown exRun = None" "rePort exRun x = Inr []" for addr x
    by (simp_all add: exRun_def)
  have "oauthFlow exRun ?a Map.empty = (Inr (c, b), fs1)"
    using url start flow save bind
    by (auto simp: oauthFlow_def oauthListenAddr_def sel cfg a1_def [symmetric] exApp_def [of m, THEN arg_cong, of apCfg])
  then have "runUntilMount exRun ?a Map.empty = (Inr (c, b), fs1)"
    by (simp add: runUntilMount_def sel load bindRemoteClient_def)
  then show ?thesis using written by blast
qed

section \<open>A mount that ends\<close>

definition exLifeEnd :: life where
  "exLifeEnd =
     \<lparr>lfServer = False, lfRefreshCancel = False, lfRefreshLoop = False, lfCtxDone = True, lfDone = True, lfGone = True,
      lfFailed = False, lfUnmounts = 1, lfOAuthDown = True, lfStreamCloses = 1, lfStoreCloses = 1, lfMain = MEnd,
      lfWatch = WEnd, lfOnce = OnceDone, lfClosers = [CEnd]\<rparr>"

lemma life_one:
  assumes "life_next\<^sup>*\<^sup>* u s" "life_step a s t"
  shows "life_next\<^sup>*\<^sup>* u t"
  by (rule rtranclp.rtrancl_into_rtrancl [OF assms(1)]) (use assms(2) in \<open>auto simp: life_next_def\<close>)

lemma close_one:
  assumes "life_next\<^sup>*\<^sup>* u s" "lfClosers s = [p]" "close_step p s (q, t)"
  shows "life_next\<^sup>*\<^sup>* u (t\<lparr>lfClosers := [q]\<rparr>)"
  using lf_close [of s "[]" p "[]" q t] assms(2,3) by (intro life_one [OF assms(1)]) simp

text \<open>The context is cancelled, the goroutine unmounts, the main thread returns, and the deferred \<open>Close\<close> runs.\<close>

lemma ex_life: "life_next\<^sup>*\<^sup>* (lifeStart 1) exLifeEnd" "mount_ended exLifeEnd" "closers_done exLifeEnd"
proof -
  let ?s1 = "publishServer (startRefreshLoop (lifeStart 1))"
  let ?s2 = "?s1\<lparr>lfCtxDone := True, lfRefreshLoop := False\<rparr>\<lparr>lfWatch := WLock\<rparr>"
  let ?s3 = "(unmountCall True (watchUnmount ?s2))\<lparr>lfWatch := WEnd\<rparr>"
  let ?s4 = "mainUnmount (serverReturned ?s3)\<lparr>lfRefreshCancel := False, lfMain := MEnd\<rparr>"
  have "life_next\<^sup>*\<^sup>* (lifeStart 1) ?s1"
    by (rule life_one [OF life_one [OF _ lf_mounted] lf_publish]) (simp_all add: life_ops lifeStart_def)
  then have "life_next\<^sup>*\<^sup>* (lifeStart 1) ?s2"
    by (rule life_one [OF life_one [OF _ lf_cancel] lf_watch_ctx]) (simp_all add: life_ops lifeStart_def)
  then have "life_next\<^sup>*\<^sup>* (lifeStart 1) ?s3"
    by (rule life_one [OF life_one [OF _ lf_watch_lock] lf_watch_call]) (simp_all add: life_ops lifeStart_def)
  then have "life_next\<^sup>*\<^sup>* (lifeStart 1) ?s4"
    by (rule life_one [OF life_one [OF life_one [OF _ lf_returned] lf_main_lock] lf_main_end])
      (simp_all add: life_ops lifeStart_def)
  moreover have "lfClosers ?s4 = [CIdle]" "lfOnce ?s4 = OnceFresh" by (simp_all add: life_ops lifeStart_def)
  ultimately have "life_next\<^sup>*\<^sup>* (lifeStart 1) ((snd (closeEnter ?s4))\<lparr>lfClosers := [CLock]\<rparr>)"
    using cl_enter [of ?s4] by (intro close_one) (simp_all add: closeEnter_def)
  from close_one [OF this _ cl_lock [unfolded closeLock_def]]
  have "life_next\<^sup>*\<^sup>* (lifeStart 1) (exLifeEnd\<lparr>lfStreamCloses := 0, lfStoreCloses := 0, lfOnce := OnceRunning, lfClosers := [CStream]\<rparr>)"
    by (simp add: life_ops lifeStart_def exLifeEnd_def)
  from close_one [OF this _ cl_stream [unfolded closeStream_def]]
  have "life_next\<^sup>*\<^sup>* (lifeStart 1) (exLifeEnd\<lparr>lfStoreCloses := 0, lfOnce := OnceRunning, lfClosers := [CStore]\<rparr>)"
    by (simp add: exLifeEnd_def)
  from close_one [OF this _ cl_store [unfolded closeStore_def]]
  show "life_next\<^sup>*\<^sup>* (lifeStart 1) exLifeEnd" by (simp add: exLifeEnd_def)
  show "mount_ended exLifeEnd" "closers_done exLifeEnd" by (simp_all add: mount_ended_def closers_done_def exLifeEnd_def)
qed

section \<open>A remote file, and a playback of one read\<close>

definition exEntry :: RemoteEntry where
  "exEntry = \<lparr>reFSID = ''7'', reServerName = ''a'', rePath = ''/V/a'', reSize = 5, reIsDir = False, reServerMTime = 0,
     reLocalMTime = 0, reMD5 = []\<rparr>"

definition exLister :: lister where
  "exLister n p = (if p = ''/V'' then Inr [exEntry] else Inr [])"

lemma ex_resolve:
  "normalizeRemoteRootPath ''V'' = ''/V''" "benchmarkRemotePath ''/V'' ''a'' = ''/V/a''"
  "resolveRemoteEntry exLister ''/V'' ''/V/a'' = Inr (foundEntry ''/V'' exEntry)"
proof -
  have trim: "TrimSpace ''V'' = ''V''" "TrimSpace ''a'' = ''a''" by (simp_all add: trim_simps)
  have clean: "Clean ''/V'' = ''/V''" "Clean ''/a'' = ''/a''" "path_Join [''/V'', ''a''] = ''/V/a''" by code_simp+
  show "normalizeRemoteRootPath ''V'' = ''/V''" by (simp add: normalizeRemoteRootPath_def HasPrefix_def trim clean)
  show "benchmarkRemotePath ''/V'' ''a'' = ''/V/a''"
    by (simp add: benchmarkRemotePath_def HasPrefix_def TrimPrefix_def trim clean)
  have "walkedParts ''/V'' ''/V/a'' = Some [''a'']" by code_simp
  then show "resolveRemoteEntry exLister ''/V'' ''/V/a'' = Inr (foundEntry ''/V'' exEntry)"
    by (simp add: resolveRemoteEntry_def exLister_def exEntry_def foundEntry_def Let_def)
qed

definition exIteration :: "nat \<Rightarrow> iteration" where
  "exIteration n =
     \<lparr>itNow = int n * 1000, itCtx = None, itSeekRead = (\<lambda>_ _. Inr []), itSeekTook = 0, itRead = (\<lambda>_ _. Inr [1, 2]), itTook = 3,
      itStallAt = 0, itAhead = (\<lambda>_. 9), itReadyAt = 1, itWait = None\<rparr>"

definition exBench :: bench_world where
  "exBench =
     \<lparr>bwStart = 0, bwIterations = exIteration, bwElapsed = 1000, bwBefore = \<lparr>cnDownloaded = 0, cnRetries = 0, cnHedges = 0\<rparr>,
      bwAfter = \<lparr>cnDownloaded = 2, cnRetries = 0, cnHedges = 0\<rparr>, bwHandle = True\<rparr>"

lemma ex_bench: "\<exists>r. benchmarkStream exBench 4 5 100 1000 0 10 = Some (Inr r) \<and> sbBytes r = 2 \<and> sbReadSamples r = 1"
  by (simp add: benchmarkStream_def exBench_def playbackOf_def benchLoop.simps [of _ _ 0] benchLoop.simps [of _ _ 1]
      benchLoop.simps [of _ _ "Suc 0"] benchIteration_def
      benchSeek_def benchLatency_def benchBuffer_def exIteration_def noMeasures_def benchReport_def Let_def split: prod.splits)

end
