(* ===== verification/CommandLine.thy ===== *)
theory CommandLine
  imports AppRun Bench DirectWorkers
begin

text \<open>
  The command line (\<open>cmd/baidudisklink/main.go\<close>): which command runs, the options each takes from its flags, the
  environment and the configuration, and in which order it starts the application, binds the client and works.

  \<open>flag.FlagSet.Parse\<close> is an argument, a function from the rest of the command line and the defaults to the values
  (\<open>None\<close> is its error). A command ends with exit status 1, an error text on the standard error output, or prints its
  result; the layout of the printed text is left out.
\<close>

datatype command = CmdBenchDownload | CmdBench | CmdBenchFuse | CmdBenchStream | CmdPlayback | CmdMount

definition dispatch :: "string list \<Rightarrow> command \<times> string list" where
  "dispatch args =
     (if 1 < length args \<and> args ! 1 = ''bench-download'' then (CmdBenchDownload, drop 2 args)
      else if 1 < length args \<and> args ! 1 = ''bench'' then (CmdBench, drop 2 args)
      else if 1 < length args \<and> args ! 1 = ''bench-fuse'' then (CmdBenchFuse, drop 2 args)
      else if 1 < length args \<and> args ! 1 = ''bench-stream'' then (CmdBenchStream, drop 2 args)
      else if 1 < length args \<and> args ! 1 = ''playback'' then (CmdPlayback, drop 2 args)
      else (CmdMount, []))"

datatype ('e, 'r) exit = UsageError | Failed 'e | Printed 'r

section \<open>bench-download\<close>

record downloadFlags =
  flURL :: string
  flCookie :: string
  flBytes :: int
  flConnections :: int
  flChunkSize :: int
  flHTTPVersion :: string
  flTimeout :: int
  flRetries :: int

definition downloadDefaults :: downloadFlags where
  "downloadDefaults =
     \<lparr>flURL = [], flCookie = [], flBytes = 256 * 2 ^ 20, flConnections = 8, flChunkSize = 2 ^ 20, flHTTPVersion = ''auto'',
      flTimeout = 600000000000, flRetries = 0\<rparr>"

definition downloadOptions :: "(string \<Rightarrow> string) \<Rightarrow> downloadFlags \<Rightarrow> DirectDownloadBenchOptions" where
  "downloadOptions getenv f =
     \<lparr>doURL = (if flURL f = [] then getenv ''BAIDUDISKLINK_BENCH_URL'' else flURL f),
      doCookie = (if flCookie f = [] then getenv ''BAIDUDISKLINK_BENCH_COOKIE'' else flCookie f),
      doBytes = flBytes f, doConnections = flConnections f, doChunkSize = flChunkSize f,
      doHTTPVersion = flHTTPVersion f, doTimeout = flTimeout f, doRetries = flRetries f\<rparr>"

type_synonym 'f parser = "string list \<Rightarrow> 'f \<Rightarrow> 'f option"

definition runBenchDownload ::
  "downloadFlags parser \<Rightarrow> (string \<Rightarrow> string) \<Rightarrow> (DirectDownloadBenchOptions \<Rightarrow> benchError + DirectDownloadBenchResult) \<Rightarrow>
   string list \<Rightarrow> (benchError, DirectDownloadBenchResult \<times> string) exit" where
  "runBenchDownload parse getenv bench args =
     (case parse args downloadDefaults of
        None \<Rightarrow> UsageError
      | Some f \<Rightarrow>
          (case bench (downloadOptions getenv f) of
             Inl e \<Rightarrow> Failed e
           | Inr r \<Rightarrow> Printed (r, FormatDirectDownloadProtocols (dbProtocols r))))"

section \<open>bench-stream\<close>

record streamFlags =
  fsPath :: string
  fsBitrate :: int
  fsDuration :: int
  fsSeekInterval :: int
  fsDiskCache :: int

definition streamDefaults :: "AppConfig \<Rightarrow> streamFlags" where
  "streamDefaults cfg =
     \<lparr>fsPath = ''/Videos/test.zip'', fsBitrate = 100, fsDuration = 300 * second, fsSeekInterval = 0,
      fsDiskCache = StreamDiskCache cfg\<rparr>"

text \<open>The application with its client bound, as the commands that read remote files start it.\<close>

definition boundApp :: "app_env \<Rightarrow> run_env \<Rightarrow> files \<Rightarrow> AppConfig \<Rightarrow> goerr + App" where
  "boundApp env renv fs cfg =
     (case AppNew env cfg of
        Inl e \<Rightarrow> Inl e
      | Inr a \<Rightarrow> (case bindRemoteClient (loadToken renv a fs) a of (Inl e, _) \<Rightarrow> Inl e | (Inr _, a1) \<Rightarrow> Inr a1))"

definition runBenchStream ::
  "streamFlags parser \<Rightarrow> app_env \<Rightarrow> run_env \<Rightarrow> files \<Rightarrow> lister \<Rightarrow> (App \<Rightarrow> entryInfo \<Rightarrow> bench_world) \<Rightarrow>
   AppConfig \<Rightarrow> string list \<Rightarrow> (goerr, string \<times> StreamBenchResult) exit option" where
  "runBenchStream parse env renv fs ls w cfg args =
     (case parse args (streamDefaults cfg) of
        None \<Rightarrow> Some UsageError
      | Some f \<Rightarrow>
          if fsDiskCache f < 0 then Some (Failed (ErrText ''disk-cache must be non-negative''))
          else (case boundApp env renv fs (cfg\<lparr>StreamDiskCache := fsDiskCache f\<rparr>) of
                  Inl e \<Rightarrow> Some (Failed e)
                | Inr a \<Rightarrow>
                    map_option (\<lambda>r. case r of Inl e \<Rightarrow> Failed e | Inr x \<Rightarrow> Printed x)
                      (BenchmarkStream ls (w a) (LowWatermark (mCfg (apStream a))) (RemoteRootPath (apCfg a)) (fsPath f)
                         (fsBitrate f) (fsDuration f) (fsSeekInterval f))))"

section \<open>bench, bench-fuse\<close>

record benchFlags =
  fbPath :: string
  fbBytes :: int
  fbConcurrency :: int
  fbChunkSize :: int

definition benchDefaults :: "AppConfig \<Rightarrow> benchFlags" where
  "benchDefaults cfg =
     \<lparr>fbPath = ''/Videos/test.zip'', fbBytes = 209715200, fbConcurrency = DownloadConcurrency cfg,
      fbChunkSize = DownloadChunkSize cfg\<rparr>"

definition runBench ::
  "benchFlags parser \<Rightarrow> app_env \<Rightarrow> run_env \<Rightarrow> files \<Rightarrow> lister \<Rightarrow> (Reader \<Rightarrow> string \<Rightarrow> int \<Rightarrow> int \<Rightarrow> goerr + bytes) \<Rightarrow> int \<Rightarrow>
   AppConfig \<Rightarrow> string list \<Rightarrow> (goerr, BenchResult) exit" where
  "runBench parse env renv fs ls rd elapsed cfg args =
     (case parse args (benchDefaults cfg) of
        None \<Rightarrow> UsageError
      | Some f \<Rightarrow>
          (case AppNew env cfg of Inl e \<Rightarrow> Failed e | Inr a \<Rightarrow>
           let a1 = a\<lparr>apRemote := SetDownloadOptions (fbConcurrency f) (fbChunkSize f) (apRemote a)\<rparr> in
           case bindRemoteClient (loadToken renv a1 fs) a1 of (Inl e, _) \<Rightarrow> Failed e | (Inr _, a2) \<Rightarrow>
           case Benchmark ls (rd (apRemote a2)) elapsed (RemoteRootPath (apCfg a2)) (fbPath f) (fbBytes f) of
             Inl e \<Rightarrow> Failed e | Inr r \<Rightarrow> Printed r))"

record fuseFlags =
  ffPath :: string
  ffBytes :: int

definition fuseDefaults :: "AppConfig \<Rightarrow> fuseFlags" where
  "fuseDefaults cfg = \<lparr>ffPath = MountPath cfg @ ''/test.zip'', ffBytes = 209715200\<rparr>"

definition runBenchFuse ::
  "fuseFlags parser \<Rightarrow> (string \<Rightarrow> goerr + (int \<Rightarrow> bytes \<times> goerr option)) \<Rightarrow> int \<Rightarrow> AppConfig \<Rightarrow> string list \<Rightarrow>
   (goerr, BenchResult) exit" where
  "runBenchFuse parse openFile elapsed cfg args =
     (case parse args (fuseDefaults cfg) of
        None \<Rightarrow> UsageError
      | Some f \<Rightarrow> (case BenchmarkLocalFile openFile elapsed (ffPath f) (ffBytes f) of Inl e \<Rightarrow> Failed e | Inr r \<Rightarrow> Printed r))"

section \<open>playback\<close>

record playbackFlags =
  fpPath :: string
  fpListen :: string

definition playbackDefaults :: playbackFlags where
  "playbackDefaults = \<lparr>fpPath = ''/Videos/test.zip'', fpListen = ''127.0.0.1:8787''\<rparr>"

text \<open>Up to the server: what it serves and where.\<close>

definition runPlayback ::
  "playbackFlags parser \<Rightarrow> app_env \<Rightarrow> run_env \<Rightarrow> files \<Rightarrow> lister \<Rightarrow> AppConfig \<Rightarrow> string list \<Rightarrow>
   (goerr, APIClient \<times> entryInfo \<times> string) exit" where
  "runPlayback parse env renv fs ls cfg args =
     (case parse args playbackDefaults of
        None \<Rightarrow> UsageError
      | Some f \<Rightarrow>
          (case AppNew env cfg of Inl e \<Rightarrow> Failed e | Inr a \<Rightarrow>
           case ServePlayback renv ls a fs (fpPath f) (fpListen f) of Inl e \<Rightarrow> Failed e | Inr r \<Rightarrow> Printed r))"

section \<open>Laws\<close>

text \<open>The defaults of the flags are those of the benchmark: with them normalisation changes only the texts.\<close>

lemma downloadDefaults_normal:
  "defaultDirectOptions (downloadOptions getenv (downloadDefaults\<lparr>flURL := u, flCookie := k\<rparr>)) =
     (downloadOptions getenv (downloadDefaults\<lparr>flURL := u, flCookie := k\<rparr>))
       \<lparr>doURL := TrimSpace (if u = [] then getenv ''BAIDUDISKLINK_BENCH_URL'' else u),
        doCookie := TrimSpace (if k = [] then getenv ''BAIDUDISKLINK_BENCH_COOKIE'' else k)\<rparr>"
  by (simp add: defaultDirectOptions_def downloadOptions_def downloadDefaults_def)

text \<open>The stream benchmark runs on the cache size it was told.\<close>

lemma normalizeConfig_disk:
  assumes "normalizeConfig s = Inr c"
  shows "DiskCache c = DiskCache s"
proof -
  have "0 \<le> MemoryCache s" "0 \<le> DiskCache s" using assms normalizeConfig_refuses [of s] by auto
  moreover have "c = (case normalizeConfig s of Inr x \<Rightarrow> x)" using assms by simp
  ultimately show "DiskCache c = DiskCache s" by (simp add: normalizeConfig_def Let_def)
qed

lemma boundApp_disk:
  assumes "boundApp env renv fs (cfg\<lparr>StreamDiskCache := n\<rparr>) = Inr a"
  shows "DiskCache (mCfg (apStream a)) = n"
proof -
  obtain b where b: "AppNew env (cfg\<lparr>StreamDiskCache := n\<rparr>) = Inr b" "apStream a = apStream b"
    using assms by (auto simp: boundApp_def bindRemoteClient_def split: sum.splits prod.splits)
  obtain cfg1 where c: "checkConfig (cfg\<lparr>StreamDiskCache := n\<rparr>) = Inr cfg1" "buildApp env cfg1 = Inr b"
    using b(1) by (auto simp: AppNew_def split: sum.splits option.splits)
  have d: "StreamDiskCache cfg1 = n"
    using c(1) by (auto simp: checkConfig_def Let_def split: if_splits)
  obtain m where m: "NewManager (aeOS env) (aeCacheMkdir env) (aeCacheDir1 env) (aeCacheDir2 env) (aeFiles env) True
      (streamConfigOf cfg1) = Inr m" "apStream b = m"
    using c(2) by (auto simp: buildApp_def split: sum.splits)
  obtain c' where "normalizeConfig (streamConfigOf cfg1) = Inr c'" "mCfg m = c'"
    using m(1) by (auto simp: NewManager_def newMgr_def split: sum.splits)
  then show ?thesis using normalizeConfig_disk d m(2) b(2) by (auto simp: streamConfigOf_def)
qed

end
