(* ===== verification/Spec2Isabelle.thy ===== *)
theory Spec2Isabelle
  imports StreamExample RemoteExample RemoteErrors FsExample Playback AppStart DirectExample AppRunExample CommandLine
begin

text \<open>
  BaiduDiskLink mounts a directory of Baidu's network disk as a file system. A reader of a mounted file goes
  through four layers, which the theories follow from the bottom up: the web API client (\<open>internal/baidu\<close>)
  fetches listings, download links and byte ranges; the remote reader (\<open>internal/remote\<close>) adds a read cache and
  retries on top of any client; the stream engine (\<open>internal/stream\<close>) downloads fixed-size chunks ahead of a
  player with a pool of workers and keeps them in memory and on disk; the file system (\<open>internal/fs\<close>) shows the
  directory tree from a metadata store (\<open>internal/store\<close>) that it refreshes from the remote side. Beside them stand
  a playback proxy over HTTP (\<open>internal/app/playback.go\<close>), configuration, start, run and shutdown (\<open>internal/config\<close>,
  \<open>internal/app/app.go\<close>), the OAuth flow (\<open>internal/auth\<close>), two benchmarks (\<open>internal/app/bench.go\<close>,
  \<open>internal/app/download_bench.go\<close>) and the command line (\<open>cmd/baidudisklink\<close>).

  Theories and sources.

    \<^item> \<open>Prelude\<close>, \<open>GoStrings\<close>, \<open>GoPath\<close>: 64-bit wrap-around and truncated division, slices, Go errors with \<open>errors.Is\<close>,
      ranged maps as association lists; the parts of \<open>strings\<close>, \<open>strconv\<close> and \<open>path\<close> the program calls.
    \<^item> \<open>Transition\<close>, \<open>Termination\<close>, \<open>LruSpec\<close>: the interfaces. \<open>transition_system\<close> is interpreted by the stream engine
      (\<open>engine\<close>) and the remote reader (\<open>remote\<close>), its extension \<open>terminating_system\<close> by the workers of a direct download
      (\<open>workers\<close>) and the threads that end a mount (\<open>lifecycle\<close>), \<open>sized_lru\<close> by the chunk store and the read cache;
      \<open>keyed_store\<close> in \<open>MetaLaws\<close> by the SQL table (\<open>metadata\<close>).
    \<^item> \<open>ChunkStore\<close>, \<open>ChunkStoreLaws\<close> (\<open>stream/store.go\<close>): \<open>chunkStore\<close> has the maps, lists and byte counters of
      the source, and the files of the cache directory; system calls fail as the argument \<open>os_env\<close> says.
    \<^item> \<open>TaskHeap\<close>, \<open>StreamConfig\<close>, \<open>AccessMode\<close>, \<open>StreamManager\<close> (\<open>stream/manager.go\<close>): the queue over \<open>container/heap\<close>,
      the defaulting of the configuration, the detection of the access pattern, and \<open>mgr\<close> with one definition per
      method. A \<open>*chunkTask\<close> is an address of \<open>mObjs\<close>, because workers, hedges and readers share tasks.
    \<^item> \<open>StreamTasks\<close>, \<open>StreamDispatch\<close>, \<open>StreamInvariant\<close>, \<open>StreamSystem\<close>: laws of the methods, the invariant of the
      manager, and the engine as the step relation \<open>sys_step\<close>, one critical section of a goroutine per step.
    \<^item> \<open>StreamRead\<close>, \<open>StreamPolicy\<close>, \<open>StreamOpen\<close>, \<open>StreamExample\<close>: \<open>readAt\<close> over the running engine, scheduling decisions,
      start-up, and a concrete engine for the witnesses.
    \<^item> \<open>BaiduClient\<close>, \<open>BaiduLaws\<close> (\<open>baidu/client.go\<close>, \<open>types.go\<close>, \<open>adapter.go\<close>): requests and checks of the client, the wire
      a function from requests to replies.
    \<^item> \<open>RemoteReader\<close>, \<open>RemoteCache\<close>, \<open>RemoteSystem\<close>, \<open>RemoteRead\<close>, \<open>RemoteErrors\<close>, \<open>RemoteExample\<close> (\<open>remote/remote.go\<close>):
      the read cache, reads in flight, the other goroutines as \<open>rd_step\<close>, and all ways of reading.
    \<^item> \<open>MetaStore\<close>, \<open>MetaLaws\<close> (\<open>store/store.go\<close>), \<open>NegCache\<close> (\<open>cache/negative.go\<close>), \<open>FileSystem\<close>, \<open>FileSystemLaws\<close>,
      \<open>FsExample\<close> (\<open>fs/filesystem.go\<close>): the table and its statements, the marks of missing paths, and the operations of the
      file system. A \<open>world\<close> gives the clock, the failures of the driver and the answers of the client at each call.
    \<^item> \<open>Playback\<close> (\<open>app/playback.go\<close>), \<open>Auth\<close> (\<open>auth/*.go\<close>, the callback server as \<open>oauth_step\<close>), \<open>AppConfig\<close>, \<open>AppStart\<close>
      (\<open>config/config.go\<close>, \<open>app/app.go\<close>).
    \<^item> \<open>AppRun\<close>, \<open>AppRunLaws\<close>, \<open>AppRunExample\<close> (\<open>app/app.go\<close>, \<open>Mount\<close> of \<open>fs/filesystem.go\<close>): \<open>run\<close> up to the mount over an
      environment \<open>run_env\<close>, and \<open>life_step\<close>, the main thread, the goroutine that waits for the context, any number of callers
      of \<open>Close\<close> behind the \<open>sync.Once\<close>, and the world outside, one critical section per step, labelled by who takes it.
    \<^item> \<open>RemotePath\<close>, \<open>Bench\<close>, \<open>BenchLaws\<close> (\<open>app/bench.go\<close>): paths from the command line and the walk of the remote listings;
      the read benchmarks and the simulated playback. What one iteration of its loop observes is an \<open>iteration\<close>.
    \<^item> \<open>DownloadBench\<close>, \<open>DirectWorkers\<close>, \<open>DirectLaws\<close>, \<open>DirectExample\<close> (\<open>app/download_bench.go\<close>): options, one ranged request
      and its checks, retries; the workers with their shared counter as \<open>bench_step\<close>.
    \<^item> \<open>CommandLine\<close> (\<open>cmd/baidudisklink/main.go\<close>): the commands, their defaults and the order of their steps.

  What is shown. C1 to C8 are about the running engine under every interleaving: exact reads, no
  panic, bounds, exclusive tasks, best task first, final results. C9 to C14 are about its store and
  queue: refinement of the bounded LRU and of a priority queue, atomic files, round trips of names. C15 and C16 are about
  configuration and start, C17 and C18 about access patterns and the buffer ahead. C19 to C22 are about the client, C23 to C27
  about the remote reader and its fit with the layers on both sides. C28 to C32 are about the metadata store and the file
  system: refinement of a map, exact listings, deletion, termination of a refresh, and exact reads through all layers. C33 is
  about the proxy. C34 and C35 are about the running application: the token behind a mount, and its end. C36 and C37 are
  about paths and measurements, C38 to C40 about direct downloads: every byte once, termination, and what the options ensure.

  Bounds and fuel. Only \<open>refreshKnownDirectories\<close> runs on fuel, the depth of its recursion; C31 proves
  that one more than the number of paths is enough. \<open>bufferLoop\<close>, the pages of a listing and the loop of the stream
  benchmark, which have no bound in the source, are partial functions whose termination is C18, C21 and C37; other loops are
  total functions with a measure. Offsets and lengths are integers; the sums the code computes in 64 bits are wrapped by
  \<open>i64\<close> where they may overflow, and theorems about reads ask for offsets below \<open>2 ^ 62\<close>. C38 and C39 ask that bytes and chunk size
  add up to less than \<open>2 ^ 63 - 128\<close>; C40 shows what happens beyond.

  Hypotheses about code outside of the repository. The server writes honest ranges (\<open>honest\<close>: a reply with status 206
  holds the bytes its header names); a reader given to the engine returns a prefix of the range and reports
  short data as an error (\<open>reader_ok\<close>, which C26 derives from the client and the remote reader); a remote file does not change under
  one id, size and time; the JSON of a token and the query of a URL read back as they were written (\<open>codec_ok\<close>); what
  happens between start and end of the OAuth flow are events of its callback server (\<open>flow_ok\<close>). The download concurrency is
  one in C24, C33 and, for reads that bypass the stream manager, C32; C25 shows what more of it does. \<open>Unmount\<close> of go-fuse may
  fail, and \<open>Wait\<close> returns once the mount is gone (C35).

  Not modelled. go-fuse's inodes and its loop, signals, the ticks of the refresh timer, HTTP listeners and transport, JSON, XML,
  URL and flag parsers (parameters; so is the redirect of an unclean path by \<open>http.ServeMux\<close>), the SQLite engine beyond the meaning of the statements used, log and printed output, and
  throughputs, which are floating point. The statements of one operation of the metadata store see one table: other
  goroutines do not interleave with it.
\<close>

section \<open>The stream engine as a whole\<close>

text \<open>
  C1. Reading through a handle. In every reachable state of the engine, with any interleaving of the other
  goroutines, a \<open>ReadAt\<close> that succeeds returns exactly the bytes of the remote file in the requested
  range, clipped at the size of the file.
\<close>

theorem read_exact:
  assumes "reachable (sys_init c) (sys_step c) s" "known c (hFile h)" "offset + n < 2 ^ 62"
    and "read_at c h offset n s (Inr d) h' s'"
  shows "d = expected c (hFile h) offset n"
  using read_at_sound [OF assms(4) engine.reachable_inv [OF assms(1)] assms(2,3)] by simp

theorem read_exact_witness: "expected exContent exFile 1 2 = [1, 2]"
proof -
  obtain h' s' where r: "read_at exContent exHandle 1 2 exSys (Inr [1, 2]) h' s'" using ex_read by blast
  have "hFile exHandle = exFile" by (simp add: exHandle_def newHandle_def)
  with read_exact [OF ex_reachable _ _ r] ex_known show ?thesis by simp
qed

text \<open>
  C2. No run-time panic. In every reachable state no \<open>done\<close> channel was closed twice, \<open>heap.Fix\<close> was
  never called outside of the queue, nothing was sent on the closed disk queue, and the channel of a
  task is closed exactly when the task is finished.
\<close>

theorem engine_never_panics:
  assumes "reachable (sys_init c) (sys_step c) s"
  shows "\<not> mPanic (sMgr s) \<and> \<not> sBadSend s \<and>
    (\<forall>t<mNext (sMgr s). tDone (mObjs (sMgr s) t) = tFinished (mObjs (sMgr s) t))"
  using engine.reachable_inv [OF assms] sys_invD tasks_invD(3,8) [OF mgr_inv_tasks] by blast

theorem engine_never_panics_witness: "\<not> mPanic (sMgr exSys1) \<and> \<not> sBadSend exSys1"
  using engine_never_panics [OF ex_reachable1] by blast

text \<open>
  C3. Resources stay within their limits: the memory cache within its byte limit, the disk queue within
  its capacity, at most 32 latency samples, and the downloads a session counts are never negative
  and never more than there are workers.
\<close>

theorem engine_bounds:
  assumes "reachable (sys_init c) (sys_step c) s"
  shows "memoryBytes (mStore (sMgr s)) \<le> memoryLimit (mStore (sMgr s)) \<and>
    len (mDiskWrites (sMgr s)) \<le> Workers (mCfg (sMgr s)) * 8 \<and> length (mLatencies (sMgr s)) \<le> 32 \<and>
    (\<forall>v x. getSession v (sMgr s) = Some x \<longrightarrow> 0 \<le> inflight x \<and> inflight x \<le> len (sWorkers s))"
proof -
  note i = engine.reachable_inv [OF assms]
  note m = sys_invD(1) [OF i, unfolded mgr_inv_def]
  have "inflight x \<le> len (sWorkers s)" if "getSession v (sMgr s) = Some x" for v x
    using workers_inv_infl [OF sys_invD(2) [OF i], of v] held_le [of "sMgr s" "sWorkers s" v] infl_get [OF that]
    by simp
  with m session_inv_get cache_inv_mem_ok show ?thesis unfolding mem_ok_def latency_inv_def by blast
qed

theorem engine_bounds_witness:
  "memoryBytes exStore \<le> 100 \<and> length (mLatencies (sMgr exSys1)) \<le> 32"
  using engine_bounds [OF ex_reachable1] engine_bounds [OF ex_reachable]
  by (simp add: exSys_def startSystem_def exStore_def emptyStore_def)

text \<open>
  C4. A task is worked on by one worker only.
\<close>

theorem task_exclusive:
  assumes "reachable (sys_init c) (sys_step c) s" "i < length (sWorkers s)" "j < length (sWorkers s)"
    and "wtask (sWorkers s ! i) = Some t" "wtask (sWorkers s ! j) = Some t"
  shows "i = j"
  using workers_invD(5) [OF sys_invD(2) [OF engine.reachable_inv [OF assms(1)]]] assms(2-) by metis

theorem task_exclusive_witness:
  "wtask (sWorkers exSys3 ! 0) = Some 0 \<and> wtask (sWorkers exSys3 ! 5) \<noteq> Some 0"
proof -
  have "length (sWorkers exSys3) = 8" "wtask (sWorkers exSys3 ! 0) = Some 0"
    by (simp_all add: ex_workers3)
  then show ?thesis using task_exclusive [OF ex_reachable3, of 0 5 0] by auto
qed

text \<open>
  C5. Which task a worker gets. \<open>nextTask\<close> hands out a queued, unfinished, uncanceled task whose session has a
  worker left (foreground tasks need none), of the best priority and then the oldest; and it
  waits only if there is no such task.
\<close>

theorem next_task_best:
  assumes "reachable (sys_init c) (sys_step c) s" "\<not> mClosed (sMgr s)"
  shows "case fst (nextTask now (sMgr s)) of
      NextTask t \<Rightarrow> eligible (sMgr s) t \<and>
        (\<forall>u. eligible (sMgr s) u \<longrightarrow> rankLe (rankOf (sMgr s) t) (rankOf (sMgr s) u))
    | NextWait \<Rightarrow> \<forall>u. \<not> eligible (sMgr s) u
    | NextClosed \<Rightarrow> False"
proof -
  note m = sys_invD(1) [OF engine.reachable_inv [OF assms(1)]]
  have "dispatched (sMgr s) (fst (nextTask now (sMgr s)))"
    using nextTask_dispatched [OF mgr_inv_tasks [OF m]] m
    by (simp add: mgr_inv_def cfg_ok_def limits_ok_def session_inv_def)
  with assms(2) show ?thesis by (simp add: dispatched_def split: nextOutcome.splits)
qed

theorem next_task_best_witness: "fst (nextTask 5 (sMgr exSys1)) = NextTask 0 \<and> eligible (sMgr exSys1) 0"
  using next_task_best [OF ex_reachable1, of 5] ex_next [of 5] ex_queued(2) by (simp add: exSys1_def)

text \<open>
  C6. Results are final: once the \<open>done\<close> channel of a task is closed, its bytes and its error never
  change, whatever the engine does afterwards.
\<close>

theorem results_final:
  assumes "reachable (sys_init c) (sys_step c) s" "(sys_step c)\<^sup>*\<^sup>* s s'"
    and "t < mNext (sMgr s)" "tDone (mObjs (sMgr s) t)"
  shows "tDone (mObjs (sMgr s') t) \<and> taskResult (sMgr s') t = taskResult (sMgr s) t"
proof -
  note i = engine.reachable_inv [OF assms(1)]
  have k: "keeps (sMgr s) (sMgr s')" by (rule engine.steps_ext [OF assms(2) i])
  note t = tasks_invD(8) [OF mgr_inv_tasks [OF sys_invD(1) [OF i]] assms(3)]
    tasks_invD(8) [OF mgr_inv_tasks [OF sys_invD(1) [OF engine.steps_inv [OF assms(2) i]]] keepsD(1) [OF k assms(3)]]
  have "task_keeps (mObjs (sMgr s) t) (mObjs (sMgr s') t)" using k assms(3) by (simp add: keeps_def)
  with t assms(4) show ?thesis by (auto simp: task_keeps_def taskResult_def split: option.split)
qed

theorem results_final_witness: "taskResult (sMgr exSys2) 0 = Inr exChunk \<and> tDone (mObjs (sMgr exSys2) 0)"
  using results_final [OF ex_reachable2 rtranclp.rtrancl_refl, of 0] ex_done by simp

text \<open>
  C7. Requests for one chunk share one download: after \<open>ensureTask\<close> on an open manager the task
  returned is the registered live one, and every further request for the chunk returns it, at
  whatever epoch and priority.
\<close>

theorem one_task_per_chunk:
  assumes "\<not> mClosed m" "0 < taskLength (mCfg m) f i" "fst (ensureTaskLocked f i e p m) = Some t"
  shows "liveTask (snd (ensureTaskLocked f i e p m)) (keyOf m f i) = Some t \<and>
    fst (ensureTaskLocked f i e' p' (snd (ensureTaskLocked f i e p m))) = Some t"
  using assms by (rule ensureTaskLocked_shared)

theorem one_task_per_chunk_witness:
  "liveTask exMgr1 (ChunkKey (chunkVersion exFile 4) 1) = Some 0 \<and>
   fst (ensureTaskLocked exFile 1 9 PriorityBack exMgr1) = Some 0"
  using one_task_per_chunk [of "newMgr exCfg exStore" exFile 1 0 PriorityForeground 0 9 PriorityBack] ex_first
  by (simp add: ex_taskLength exMgr1_def)

text \<open>
  C8. The cache never serves wrong bytes: in every reachable state a cache hit, in memory or on disk, is the
  chunk of the remote file it stands for.
\<close>

theorem cache_hit_exact:
  assumes "reachable (sys_init c) (sys_step c) s" "known c f" "idx_ok (mCfg (sMgr s)) i"
    and "fst (cacheLookup os touch (keyOf (sMgr s) f i) (sMgr s)) = Some d"
  shows "d = bslice (i * ChunkSize (mCfg (sMgr s)))
    (i * ChunkSize (mCfg (sMgr s)) + taskLength (mCfg (sMgr s)) f i) (c (flFSID f))"
proof -
  note inv = engine.reachable_inv [OF assms(1)]
  have cs: "0 < ChunkSize (mCfg (sMgr s))" by (rule mgr_inv_chunk [OF sys_invD(1) [OF inv]])
  have "chunk_is c (mCfg (sMgr s)) (keyOf (sMgr s) f i) d"
    using lookup_steps(3) [OF inv known_key_ok [OF assms(2,3) cs], of os touch "Some d"] assms(4)
    by (metis prod.collapse)
  then show ?thesis by (simp add: chunk_is_key [OF assms(2,3) cs])
qed

theorem cache_hit_exact_witness: "exChunk = bslice 0 4 (exContent ''7'')"
  using cache_hit_exact [OF ex_reachable ex_known, of 0 quiet_os True exChunk] ex_hit
  by (simp add: exSys_def startSystem_def cacheLookup_def ex_taskLength)

section \<open>The chunk store\<close>

text \<open>
  C9. The memory cache is a byte-bounded LRU cache: storing a chunk that fits behaves as the abstract
  \<open>lru_put\<close> on the list of entries, keeps the books of map, list and byte counter, and never
  exceeds the limit.
\<close>

theorem put_memory_lru:
  assumes "mem_ok s" "0 < memoryLimit s" "len d \<le> memoryLimit s"
  shows "lru (putMemory k d s) = lru_put len (memoryLimit s) k d (lru s) \<and> mem_ok (putMemory k d s) \<and>
    memoryBytes (putMemory k d s) \<le> memoryLimit s \<and> memory (putMemory k d s) k = Some d"
  using assms mem.put_ok [OF assms(1)] mem.put_used_bound [OF assms(1)] mem.put_find_same [OF assms(1), of d k]
  by (simp add: putMemory_lru mem_ok_def)

theorem put_memory_lru_witness:
  "lru (putMemory (ChunkKey ''b'' 0) [3, 4] \<lparr>memoryLimit = 3, memoryBytes = 2, memory = [ChunkKey ''a'' 0 \<mapsto> [1, 2]],
      lru = [(ChunkKey ''a'' 0, [1, 2])], diskPath = [], diskLimit = 0, diskBytes = 0, diskReady = Map.empty,
      diskLRU = [], diskEntries = Map.empty, files = Map.empty\<rparr>) = [(ChunkKey ''b'' 0, [3, 4])]"
  by (subst put_memory_lru [THEN conjunct1])
    (auto simp: mem_ok_def mem_sync_def lru_put_def fun_eq_iff)

text \<open>
  C10. A chunk written to disk is served from disk: with no failing system call, \<open>get\<close> after
  \<open>putDisk\<close> of a chunk that fits returns the chunk.
\<close>

theorem disk_round_trip:
  assumes "disk_sync s" "disk_paths s" "key_ok k" "\<not> diskOff s" "temp_ok os s"
    and "d \<noteq> []" "len d \<le> diskLimit s" "memory s k = None"
    and "createErr os = None" "writeErr os = None" "closeErr os = None" "renameErr os = None"
    and "\<And>p. removeErr os p = None" "\<not> readErr os (chunkPath s k)"
  shows "fst (putDisk os k d s) = None \<and> fst (getWithTouch os k touch (snd (putDisk os k d s))) = Some d"
  using assms by (rule putDisk_get)

theorem disk_round_trip_witness:
  "fst (getWithTouch (quiet_os\<lparr>tempName := ''/c/1.part''\<rparr>) (ChunkKey ''v'' 3) True
     (snd (putDisk (quiet_os\<lparr>tempName := ''/c/1.part''\<rparr>) (ChunkKey ''v'' 3) [1, 2]
       (emptyStore 0 ''/c'' 10 Map.empty)))) = Some [1, 2]"
proof (rule conjunct2, rule disk_round_trip)
  show "temp_ok (quiet_os\<lparr>tempName := ''/c/1.part''\<rparr>) (emptyStore 0 ''/c'' 10 Map.empty)"
    unfolding temp_ok_def
    by (rule exI [of _ "''1''"]) (simp add: emptyStore_def quiet_os_def path_Join_def Clean_def clean_elems_def clean_step_def path_of_def)
qed (simp_all add: disk_sync_def disk_paths_def emptyStore_def key_ok_def plainv_def diskOff_def quiet_os_def)

text \<open>
  C11. Writes to disk are atomic: whichever system call of \<open>putDisk\<close> fails, a chunk file found afterwards
  was there before or is the whole new chunk.
\<close>

theorem disk_write_atomic:
  assumes "putDisk os k d s = (e, t)" "temp_ok os s" "diskPath s \<noteq> []" "files t (chunkPath s j) = Some x"
  shows "files s (chunkPath s j) = Some x \<or> chunkPath s j = chunkPath s k \<and> x = d"
  using assms by (rule putDisk_atomic)

theorem disk_write_atomic_witness:
  "files (snd (putDisk (quiet_os\<lparr>tempName := ''/c/1.part'', writeErr := Some ErrUnexpectedEOF, writeN := 1\<rparr>)
     (ChunkKey ''v'' 3) [1, 2] (emptyStore 0 ''/c'' 10 Map.empty))) (chunkPath (emptyStore 0 ''/c'' 10 Map.empty) (ChunkKey ''v'' 3))
   \<noteq> Some [1]"
proof
  let ?os = "quiet_os\<lparr>tempName := ''/c/1.part'', writeErr := Some ErrUnexpectedEOF, writeN := 1\<rparr>"
  let ?s = "emptyStore 0 ''/c'' 10 Map.empty"
  have t: "temp_ok ?os ?s" unfolding temp_ok_def
    by (rule exI [of _ "''1''"]) (simp add: emptyStore_def quiet_os_def path_Join_def Clean_def clean_elems_def clean_step_def path_of_def)
  assume "files (snd (putDisk ?os (ChunkKey ''v'' 3) [1, 2] ?s)) (chunkPath ?s (ChunkKey ''v'' 3)) = Some [1]"
  from disk_write_atomic [OF prod.collapse [symmetric] t _ this] show False by (simp add: emptyStore_def)
qed

text \<open>
  C12. Restarting finds what was cached, and no two versions share cached chunks: the key of every chunk file the store
  wrote is parsed back from its path, and the version text determines the file's id, size and time and the chunk size.
\<close>

theorem chunk_path_round_trip:
  assumes "diskPath s \<noteq> []" "valid_file f" "0 \<le> i" "i < 2 ^ 63" "0 \<le> n"
  shows "parseChunkFileName (Base (chunkPath s (ChunkKey (chunkVersion f n) i))) = Some (ChunkKey (chunkVersion f n) i) \<and>
    (\<forall>g m. valid_file g \<and> 0 \<le> m \<and> chunkVersion f n = chunkVersion g m \<longrightarrow> f = g \<and> n = m)"
  using assms chunkVersion_inj [of f _ n] parse_Base_chunkPath [OF assms(1) key_ok_chunk [OF assms(2-4)]]
  by (auto simp: valid_file_def)

theorem chunk_path_round_trip_witness:
  "parseChunkFileName (Base (chunkPath (emptyStore 0 ''/c'' 10 Map.empty) (ChunkKey (chunkVersion exFile 4) 5))) =
     Some (ChunkKey (chunkVersion exFile 4) 5)"
  by (rule conjunct1 [OF chunk_path_round_trip]) (simp_all add: emptyStore_def valid_file_def plainv_def)

text \<open>
  C13. Pruning a playback window drops exactly the chunks of that version outside of it, in whatever
  order the map is walked.
\<close>

theorem prune_exact:
  assumes "mem_ok s" "set ks = dom (memory s)"
  shows "pruneKeys v a b ks s = pruneMemoryWindow v a b s \<and> mem_ok (pruneMemoryWindow v a b s) \<and>
    memory (pruneMemoryWindow v a b s) k =
      (if ckVersion k = v \<and> (ckIndex k < a \<or> b < ckIndex k) then None else memory s k)"
  using assms pruneMemoryWindow_memory [OF assms(1), of v a b k]
  by (simp add: prune_any_order pruneMemoryWindow_ok outsideWindow_def)

theorem prune_exact_witness:
  "memory (pruneMemoryWindow (chunkVersion exFile 4) 1 2 exStore) (ChunkKey (chunkVersion exFile 4) 0) = None \<and>
   memory (pruneMemoryWindow (chunkVersion exFile 4) 0 2 exStore) (ChunkKey (chunkVersion exFile 4) 0) = Some exChunk"
proof -
  have ok: "mem_ok exStore" using ex_cache by (simp add: cache_inv_mem_ok)
  then have "set (map fst (lru exStore)) = dom (memory exStore)"
    by (simp add: mem_ok_def mem_sync_def dom_map_of_conv_image_fst)
  from prune_exact [OF ok this] ex_memory show ?thesis by simp
qed

section \<open>The task queue\<close>

text \<open>
  C14. The queue of the manager is a priority queue: pushing and popping keep the heap order and every
  task's index field, change the contents by exactly the one task, and a pop returns a task that no
  other precedes in priority, then age. After the rank of one queued task changed, \<open>heap.Fix\<close> restores the order.
\<close>

theorem heap_is_priority_queue:
  assumes "heap_ok r q"
  shows "(t \<notin> set (hItems q) \<longrightarrow> heap_ok r (heapPush r t q) \<and>
      mset (hItems (heapPush r t q)) = add_mset t (mset (hItems q))) \<and>
    (hItems q \<noteq> [] \<longrightarrow> heap_ok r (snd (heapPop r q)) \<and>
      mset (hItems q) = add_mset (fst (heapPop r q)) (mset (hItems (snd (heapPop r q)))) \<and>
      (\<forall>u\<in>set (hItems q). rankLe (r (fst (heapPop r q))) (r u))) \<and>
    (\<forall>i r'. i < length (hItems q) \<and> (\<forall>t. t \<noteq> hItems q ! i \<longrightarrow> r' t = r t) \<longrightarrow>
      heap_ok r' (heapFix r' i q) \<and> mset (hItems (heapFix r' i q)) = mset (hItems q))"
  using assms heapFix_props [of r q] task_heap.push_ok task_heap.push_mset task_heap.pop_ok task_heap.pop_mset task_heap.pop_least by blast

theorem heap_is_priority_queue_witness:
  "mset (hItems (heapPush (rankOf exMgr1) 4 (mQueue exMgr1))) = {#0, 4#}"
proof -
  have "heap_ok (rankOf exMgr1) (mQueue exMgr1)"
    using tasks_invD(1) [OF mgr_inv_tasks [OF sys_invD(1) [OF engine.reachable_inv [OF ex_reachable1]]]]
    by (simp add: exSys1_def)
  from heap_is_priority_queue [OF this, of 4] show ?thesis by (simp add: ex_queued add_mset_commute)
qed

section \<open>Policy\<close>

text \<open>
  C15. The configuration \<open>NewManager\<close> runs with has no zero divisor and no empty worker pool, and it is refused
  exactly when a cache limit is negative. The lower thresholds are the ones given where positive, else the defaults. Each
  of the three upper thresholds (seek, target buffer, longest hedge delay) is the one given unless that lies below its
  lower threshold, and then the default: the pair is out of order exactly when the default lies below the lower threshold
  too, and in no other case. What the program loads from any environment is accepted, with its chunk size and number of
  workers.
\<close>

theorem config_normalized:
  "(case normalizeConfig c of
     Inl e \<Rightarrow> MemoryCache c < 0 \<or> DiskCache c < 0
   | Inr c' \<Rightarrow> config_ok c' \<and> 0 \<le> MemoryCache c \<and> 0 \<le> DiskCache c \<and>
       ForwardGap c' = (if ForwardGap c \<le> 0 then 8 * MiB else ForwardGap c) \<and>
       LowWatermark c' = (if LowWatermark c \<le> 0 then 128 * MiB else LowWatermark c) \<and>
       HedgeMinDelay c' = (if HedgeMinDelay c \<le> 0 then 300 * milliseconds else HedgeMinDelay c) \<and>
       threshold_pair (16 * MiB) (SeekThreshold c) (ForwardGap c') (SeekThreshold c') \<and>
       threshold_pair (256 * MiB) (TargetBuffer c) (LowWatermark c') (TargetBuffer c') \<and>
       threshold_pair (800 * milliseconds) (HedgeMaxDelay c) (HedgeMinDelay c') (HedgeMaxDelay c')) \<and>
   (\<exists>c'. normalizeConfig (streamConfigOf (Load env)) = Inr c' \<and> config_ok c' \<and>
      Workers c' = StreamWorkers (Load env) \<and> ChunkSize c' = StreamChunkSize (Load env))"
proof
  show "case normalizeConfig c of
     Inl e \<Rightarrow> MemoryCache c < 0 \<or> DiskCache c < 0
   | Inr c' \<Rightarrow> config_ok c' \<and> 0 \<le> MemoryCache c \<and> 0 \<le> DiskCache c \<and>
       ForwardGap c' = (if ForwardGap c \<le> 0 then 8 * MiB else ForwardGap c) \<and>
       LowWatermark c' = (if LowWatermark c \<le> 0 then 128 * MiB else LowWatermark c) \<and>
       HedgeMinDelay c' = (if HedgeMinDelay c \<le> 0 then 300 * milliseconds else HedgeMinDelay c) \<and>
       threshold_pair (16 * MiB) (SeekThreshold c) (ForwardGap c') (SeekThreshold c') \<and>
       threshold_pair (256 * MiB) (TargetBuffer c) (LowWatermark c') (TargetBuffer c') \<and>
       threshold_pair (800 * milliseconds) (HedgeMaxDelay c) (HedgeMinDelay c') (HedgeMaxDelay c')"
  proof (cases "normalizeConfig c")
    case (Inl e)
    then show ?thesis using normalizeConfig_refuses [of c] by simp
  next
    case (Inr c')
    then have "\<not> (MemoryCache c < 0 \<or> DiskCache c < 0)" using normalizeConfig_refuses [of c] by simp
    then show ?thesis using Inr normalizeConfig_config_ok [OF Inr] normalizeConfig_lower [OF Inr]
        normalizeConfig_thresholds [OF Inr] by simp
  qed
  show "\<exists>c'. normalizeConfig (streamConfigOf (Load env)) = Inr c' \<and> config_ok c' \<and>
      Workers c' = StreamWorkers (Load env) \<and> ChunkSize c' = StreamChunkSize (Load env)"
    by (rule Load_runs [of env]) blast
qed

text \<open>
  C16. Start of the program. Once \<open>New\<close> returns, the metadata store is well formed and has an expired root, so that the first
  listing asks the remote side; the engine runs with a configuration that is in order, the reader starts from an
  initial state with a client, and the group ids are distinct 32-bit numbers. If every chunk file in the cache directory
  holds the bytes its name stands for, the engine starts in an initial state: what holds of all reachable states holds
  from there on.
\<close>

theorem app_starts:
  assumes "AppNew env cfg = Inr a" "aeDB env = Inr (Some t)" "table_ok t"
  shows "store_ok (apStore a) \<and> (\<exists>e. fileAt (apStore a) ''/'' = Some e \<and> eExpiresAt e = 0) \<and>
    (\<forall>e. fileAt (apStore a) (RemoteRootPath (apCfg a)) = Some e \<longrightarrow> eExpiresAt e = 0) \<and>
    config_ok (mCfg (apStream a)) \<and> gids_ok (apFuseGIDs a) \<and> rd_init (apRemote a) \<and> rHasClient (apRemote a) \<and>
    (\<forall>c. ChunkSize (mCfg (apStream a)) < 2 ^ 62 \<and>
      files_coherent (chunk_is c (mCfg (apStream a))) (emptyStore (MemoryCache (mCfg (apStream a)))
        (CachePath (mCfg (apStream a))) (DiskCache (mCfg (apStream a))) (aeFiles env)) \<longrightarrow>
      reachable (sys_init c) (sys_step c) (startSystem (apStream a)))"
  using AppNew_parts [OF assms] AppNew_engine [OF assms(1)] by blast

theorem app_starts_witness:
  "\<exists>a. AppNew exAppEnv exAppCfg = Inr a \<and> (\<exists>e. fileAt (apStore a) ''/'' = Some e \<and> eExpiresAt e = 0)"
proof -
  obtain a where a: "AppNew exAppEnv exAppCfg = Inr a" using ex_app by blast
  moreover have "aeDB exAppEnv = Inr (Some \<lparr>tRows = [], tNextId = 1\<rparr>)" by (simp add: exAppEnv_def)
  ultimately show ?thesis using app_starts [OF a, of "\<lparr>tRows = [], tNextId = 1\<rparr>"] by auto
qed

text \<open>
  C17. Access patterns. In stream mode a read larger than a probe that continues the last one, or lands within the
  buffered distance ahead of it, stays in stream mode and is no event. Handles do not disturb each other: a seek of one handle outside of the scheduled window, while another
  handle plays the same file, changes no task, epoch, cursor or active handle.
\<close>

theorem seek_leaves_others:
  assumes "\<not> released h" "\<not> mClosed m" "getSession (versionOf m (hFile h)) m = Some s"
    and "activeHandle s \<noteq> 0" "activeHandle s \<noteq> hId h"
  shows "(hMode h = ModeStream \<and> \<not> tailProbe h \<and> 0 \<le> lastOffset h \<and> 0 \<le> lastLength h \<and>
      lastOffset h + lastLength h \<le> off \<and> off < 2 ^ 63 \<and> probeThreshold (mCfg m) h < n \<and>
      off - (lastOffset h + lastLength h) \<le> max (SeekThreshold (mCfg m)) (TargetBuffer (mCfg m)) \<longrightarrow>
      snd (observeHandleLocked (mCfg m) h off n) = \<lparr>obMode = ModeStream, obEvent = EventNone, obStream = True\<rparr>) \<and>
    (obEvent (snd (observeHandleLocked (mCfg m) h off n)) = EventSeek \<and> \<not> inScheduledWindowLocked (mCfg m) s off \<longrightarrow>
      (\<exists>pr h' m' s'. prepareRead now h off n m = (Inr pr, h', m') \<and> mObjs m' = mObjs m \<and>
        getSession (versionOf m (hFile h)) m' = Some s' \<and> ssEpoch s' = ssEpoch s \<and> activeHandle s' = activeHandle s \<and>
        cursor s' = cursor s \<and> \<not> prStream pr \<and> prEpoch pr = ssEpoch s))"
proof (intro conjI impI)
  show "snd (observeHandleLocked (mCfg m) h off n) = \<lparr>obMode = ModeStream, obEvent = EventNone, obStream = True\<rparr>"
    if "hMode h = ModeStream \<and> \<not> tailProbe h \<and> 0 \<le> lastOffset h \<and> 0 \<le> lastLength h \<and>
      lastOffset h + lastLength h \<le> off \<and> off < 2 ^ 63 \<and> probeThreshold (mCfg m) h < n \<and>
      off - (lastOffset h + lastLength h) \<le> max (SeekThreshold (mCfg m)) (TargetBuffer (mCfg m))"
    using observe_sequential [of h off "mCfg m" n] that by auto
qed (use prepareRead_independent [OF assms, of off n now] in blast)

theorem seek_leaves_others_witness:
  "\<exists>pr h' m' s'. prepareRead 5 (exHandle\<lparr>hMode := ModeStream, lastOffset := 9 * MiB, lastLength := 1\<rparr>) 0 (2 * MiB)
     (setSession (chunkVersion exFile 4) ((newSession 0 exFile)\<lparr>activeHandle := 2, cursor := 77\<rparr>) (newMgr exCfg exStore)) =
       (Inr pr, h', m') \<and>
     getSession (chunkVersion exFile 4) m' = Some s' \<and> cursor s' = 77 \<and> activeHandle s' = 2"
proof -
  let ?h = "exHandle\<lparr>hMode := ModeStream, lastOffset := 9 * MiB, lastLength := 1\<rparr>"
  let ?s = "(newSession 0 exFile)\<lparr>activeHandle := 2, cursor := 77\<rparr>"
  let ?m = "setSession (chunkVersion exFile 4) ?s (newMgr exCfg exStore)"
  have ev: "obEvent (snd (observeHandleLocked exCfg ?h 0 (2 * MiB))) = EventSeek"
    by (simp add: exHandle_def newHandle_def observeHandleLocked_def isTailProbe_def probeThreshold_def
        go_div_def i64_def observeSequence_def headProbeEdge_def Let_def)
  have ses: "getSession (chunkVersion exFile 4) ?m = Some ?s" "mCfg ?m = exCfg" "\<not> mClosed ?m"
    by (simp_all add: getSession_def setSession_def)
  have h: "\<not> released ?h" "hFile ?h = exFile" "hId ?h = 1" by (simp_all add: exHandle_def newHandle_def)
  have "versionOf ?m (hFile ?h) = chunkVersion exFile 4" using ses(2) h(2) by simp
  then have "getSession (versionOf ?m (hFile ?h)) ?m = Some ?s" using ses(1) by simp
  from conjunct2 [OF seek_leaves_others [OF h(1) ses(3) this, of 0 "2 * MiB" 5]]
  have "\<exists>pr h' m' s'. prepareRead 5 ?h 0 (2 * MiB) ?m = (Inr pr, h', m') \<and>
    getSession (versionOf ?m (hFile ?h)) m' = Some s' \<and> activeHandle s' = activeHandle ?s \<and> cursor s' = cursor ?s"
    using ev ses(2) h(3) by (simp add: inScheduledWindowLocked_def newSession_def) blast
  then show ?thesis using ses(2) h(2) by auto
qed

text \<open>
  C18. \<open>BufferAhead\<close> ends, although its loop has no bound of its own, for every store whose books are in order and whose
  chunks have numbers a 64-bit integer can hold; and it counts the bytes that can be played from the cursor without a
  download: with \<open>k\<close> full chunks cached from the one under the cursor on, none included, and then a missing chunk or a
  short one, it returns the length of the full chunks and of the short one, less the part before the cursor, and zero
  where the cursor is past the end of a short first chunk.
\<close>

theorem buffer_ahead_counts:
  assumes "mem_ok (mStore m)" "disk_sync (mStore m)" "0 < ChunkSize (mCfg m)" "0 \<le> cur"
    and "\<forall>k \<in> dom (memory (mStore m)) \<union> dom (diskReady (mStore m)). 0 \<le> ckIndex k \<and> ckIndex k < 2 ^ 63"
  shows "\<exists>n m'. BufferAhead f cur m = Some (n, m') \<and>
    (\<forall>k l. cur + (int k + 1) * ChunkSize (mCfg m) < 2 ^ 63 \<and>
       (\<forall>i<k. lengthOf (mStore m) (keyOf m f (cur div ChunkSize (mCfg m) + int i)) = Some (ChunkSize (mCfg m))) \<and>
       (lengthOf (mStore m) (keyOf m f (cur div ChunkSize (mCfg m) + int k)) = None \<and> l = 0 \<or>
        lengthOf (mStore m) (keyOf m f (cur div ChunkSize (mCfg m) + int k)) = Some l \<and> 0 \<le> l \<and> l < ChunkSize (mCfg m)) \<longrightarrow>
       n = max 0 (int k * ChunkSize (mCfg m) + l - cur mod ChunkSize (mCfg m)))"
proof -
  let ?cs = "ChunkSize (mCfg m)"
  obtain n m' where b: "BufferAhead f cur m = Some (n, m')" using BufferAhead_returns [OF assms(1,2,5)] by fastforce
  have "n = max 0 (int k * ?cs + l - cur mod ?cs)"
    if "cur + (int k + 1) * ?cs < 2 ^ 63"
      "\<forall>i<k. lengthOf (mStore m) (keyOf m f (cur div ?cs + int i)) = Some ?cs"
      "run_ends (mStore m) (keyOf m f (cur div ?cs + int k)) ?cs l" for k l
    using BufferAhead_counts [OF assms(3) refl assms(4) that(2,3,1)] b by auto
  then show ?thesis using b unfolding run_ends_def by blast
qed

theorem buffer_ahead_counts_witness: "\<exists>m'. BufferAhead exFile 5 (newMgr exCfg exTailStore) = Some (5, m')"
proof -
  let ?m = "newMgr exCfg exTailStore"
  obtain n m' where ahead: "BufferAhead exFile 5 ?m = Some (n, m')"
    and n: "\<forall>k l. 5 + (int k + 1) * ChunkSize (mCfg ?m) < 2 ^ 63 \<and>
       (\<forall>i<k. lengthOf (mStore ?m) (keyOf ?m exFile (5 div ChunkSize (mCfg ?m) + int i)) = Some (ChunkSize (mCfg ?m))) \<and>
       (lengthOf (mStore ?m) (keyOf ?m exFile (5 div ChunkSize (mCfg ?m) + int k)) = None \<and> l = 0 \<or>
        lengthOf (mStore ?m) (keyOf ?m exFile (5 div ChunkSize (mCfg ?m) + int k)) = Some l \<and> 0 \<le> l \<and> l < ChunkSize (mCfg ?m)) \<longrightarrow>
       n = max 0 (int k * ChunkSize (mCfg ?m) + l - 5 mod ChunkSize (mCfg ?m))"
    using buffer_ahead_counts [of ?m 5 exFile] by (auto simp: ex_tail_store)
  have "n = 5" using n [rule_format, of 1 2] by (simp add: ex_tail_store)
  then show ?thesis using ahead by blast
qed

section \<open>The client of the web API\<close>

text \<open>
  C19. A range download is exact: if the server sends the bytes its \<open>Content-Range\<close> header announces, a
  \<open>ReadRange\<close> of the client that reports no error has written exactly the requested bytes of the file, clipped at its end.
\<close>

theorem range_download_exact:
  assumes "\<And>req resp. rangeWire req = Inr resp \<Longrightarrow> honest X resp"
    and "BaiduClient.ReadRange metaWire headWire rangeWire now fsid offset n c = ((d, None), c')" "0 < n" "offset + n < 2 ^ 63"
  shows "0 \<le> offset \<and> d = bslice offset (min (offset + n) (len X)) X"
  using assms by (rule ReadRange_exact)

text \<open>A server with the file \<open>[10, 20, 30]\<close> that answers every request with its last two bytes.\<close>

definition exResponse :: rangeResponse where
  "exResponse = \<lparr>rrStatus = 206, rrHead = [], rrContentRange = contentRange 1 2 3,
     rrReads = (\<lambda>i. if i = 0 then ([20, 30], None) else ([], Some ErrEOF)), rrCtx = (\<lambda>_. None)\<rparr>"

definition exClient :: APIClient where
  "exClient = (NewAPIClient ''t'' ''r'' ''i'' ''s'' [] [])\<lparr>links := [''7'' \<mapsto> \<lparr>dlURL = ''u'', dlExpiresAt = None\<rparr>]\<rparr>"

lemma exResponse_range: "parseContentRange (rrContentRange exResponse) = Inr (1, 2, 3)"
  using parseContentRange_format [of 1 2 3] by (simp add: exResponse_def)

lemma exResponse_stream: "BaiduLaws.stream exResponse (Suc i) = [20, 30]"
  by (induction i) (simp_all add: exResponse_def BaiduLaws.stream_def)

lemma exResponse_honest: "honest [10, 20, 30] exResponse"
proof -
  have "body_contract exResponse 2"
    unfolding body_contract_def by (simp only: exResponse_stream) simp
  moreover have "prefix (BaiduLaws.stream exResponse i) (bslice 1 3 [10, 20, 30])" for i
    by (cases i) (simp_all only: exResponse_stream stream_Suc(2), simp_all add: bslice_def)
  ultimately show ?thesis by (simp add: honest_def exResponse_range)
qed

lemma exResponse_read:
  "BaiduClient.ReadRange mw hw (\<lambda>_. Inr exResponse) 0 ''7'' 1 5 exClient = (([20, 30], None), exClient)"
proof -
  have "checkRange 1 5 exResponse = Inr 2"
    by (simp add: checkRange_def exResponse_range) (simp add: exResponse_def i64_def)
  moreover have "readBody exResponse 2 = ([20, 30], None)"
    by (simp add: readBody_def bodyLoop.simps exResponse_def)
  moreover have "GetDownloadLink mw hw 0 ''7'' exClient = (Inr \<lparr>dlURL = ''u'', dlExpiresAt = None\<rparr>, exClient)"
    by (rule cached_fresh) (simp_all add: exClient_def fresh_def)
  ultimately show ?thesis by (simp add: BaiduClient.ReadRange_def Let_def i64_def)
qed

theorem range_download_exact_witness: "[20, 30] = bslice 1 (min (1 + 5) (len [10, 20, 30])) [10, 20, 30 :: byte]"
  using range_download_exact [OF _ exResponse_read, of "[10, 20, 30]"] exResponse_honest by simp

text \<open>
  C20. \<open>parseContentRange\<close> reads back what a server writes, and whatever it accepts is a proper range; the second parser, of the
  direct download, accepts the same texts with the same numbers, but for those of unknown length.
\<close>

theorem content_range_round_trip:
  "(0 \<le> s \<and> s \<le> e \<and> e < t \<and> t < 2 ^ 63 \<longrightarrow> parseContentRange (contentRange s e t) = Inr (s, e, t)) \<and>
   (parseContentRange v = Inr (a, b, whole) \<longrightarrow> 0 \<le> a \<and> a \<le> b \<and> b < 2 ^ 63 \<and> (whole = - 1 \<or> b < whole)) \<and>
   (parseDirectContentRange v = Some (a, b, whole) \<longleftrightarrow> parseContentRange v = Inr (a, b, whole) \<and> whole \<noteq> - 1)"
  using parseContentRange_format [of s e t] parseContentRange_sound [of v a b whole] parseDirect_iff [of v a b whole] by blast

theorem content_range_round_trip_witness: "parseContentRange ''bytes 5-9/100'' = Inr (5, 9, 100)"
proof -
  have "contentRange 5 9 100 = ''bytes 5-9/100''" by code_simp
  with content_range_round_trip [of 5 9 100] show ?thesis by simp
qed

text \<open>
  C21. A listing ends, whatever the server answers, since the marks grow and are 64-bit integers; and it
  is the concatenation of the pages of one chain of marks, in order.
\<close>

theorem listing_complete:
  assumes "\<And>mark resp. listPage wire c path mark = Inr resp \<Longrightarrow> arNext resp < 2 ^ 63"
  shows "\<exists>r. List wire c path = Some r \<and>
    (\<forall>out. r = Inr out \<longleftrightarrow> (\<exists>rs. pages wire c path 0 rs \<and> out = listed rs))"
proof -
  obtain r where r: "List wire c path = Some r"
    using listLoop_terminates [of wire c path 0 "[]"] assms unfolding List_def by blast
  moreover have "r = Inr out \<longleftrightarrow> (\<exists>rs. pages wire c path 0 rs \<and> out = listed rs)" for out
    using r listLoop_is_pages [of wire c path 0 "[]" out] assms listLoop_pages [of wire c path 0 _ "[]"] by (auto simp: List_def)
  ultimately show ?thesis by blast
qed

theorem listing_complete_witness:
  "\<exists>r. List (\<lambda>_. Inr \<lparr>rpStatus = 200, rpBody = Inr [], rpJSON = Inr \<lparr>arEntries = [], arHasMore = 1, arNext = 7,
     arErrorCode = 0, arErrorMsg = []\<rparr>\<rparr>) exClient ''/'' = Some r"
proof -
  let ?w = "\<lambda>_. Inr \<lparr>rpStatus = 200, rpBody = Inr [], rpJSON = Inr \<lparr>arEntries = [], arHasMore = 1, arNext = 7,
     arErrorCode = 0, arErrorMsg = []\<rparr>\<rparr>"
  have "arNext resp < 2 ^ 63" if "listPage ?w exClient ''/'' mark = Inr resp" for mark resp
    using that by (auto simp: listPage_def getJSON_def doJSON_def)
  then show ?thesis using listing_complete [of ?w exClient "''/''"] by blast
qed

text \<open>
  C22. Tokens and links: a refresh whose exchange with the server fails leaves the client as it was; one whose exchange
  succeeds, whatever the callback that saves the token then returns, installs the new token, keeps
  the refresh token if the server sends none, and drops every cached link, so that the next
  \<open>GetDownloadLink\<close> asks the server with the new token; a link just obtained is returned again, without a request,
  until it expires.
\<close>

theorem token_and_links:
  "(case refreshExchange w c of
      Inl e \<Rightarrow> RefreshAuth w cb c = (Some e, c)
    | Inr out \<Rightarrow> accessToken (snd (RefreshAuth w cb c)) = trAccessToken out \<and> trAccessToken out \<noteq> [] \<and>
        refreshToken (snd (RefreshAuth w cb c)) = (if trRefreshToken out = [] then refreshToken c else trRefreshToken out) \<and>
        links (snd (RefreshAuth w cb c)) = Map.empty) \<and>
   (GetDownloadLink mw hw now f c = (Inr l, c') \<and> fresh later l \<longrightarrow> GetDownloadLink mw' hw' later f c' = (Inr l, c'))"
proof (rule conjI)
  show "case refreshExchange w c of
      Inl e \<Rightarrow> RefreshAuth w cb c = (Some e, c)
    | Inr out \<Rightarrow> accessToken (snd (RefreshAuth w cb c)) = trAccessToken out \<and> trAccessToken out \<noteq> [] \<and>
        refreshToken (snd (RefreshAuth w cb c)) = (if trRefreshToken out = [] then refreshToken c else trRefreshToken out) \<and>
        links (snd (RefreshAuth w cb c)) = Map.empty"
    using RefreshAuth_state [where w = w and c = c and cb = cb] refreshExchange_token [where w = w and c = c] by (simp split: sum.splits)
qed (use GetDownloadLink_caches(1) cached_fresh in blast)

theorem token_and_links_witness:
  "GetDownloadLink (\<lambda>_. Inl ErrEOF) (\<lambda>_. Inl ErrEOF) 9 ''7'' exClient = (Inr \<lparr>dlURL = ''u'', dlExpiresAt = None\<rparr>, exClient)"
proof -
  have "GetDownloadLink mw hw 0 ''7'' exClient = (Inr \<lparr>dlURL = ''u'', dlExpiresAt = None\<rparr>, exClient)" for mw hw
    by (rule cached_fresh) (simp_all add: exClient_def fresh_def)
  then show ?thesis
    using conjunct2 [OF token_and_links [where mw = "\<lambda>_. Inl ErrEOF" and hw = "\<lambda>_. Inl ErrEOF" and now = 0 and f = "''7''" and c = exClient
        and l = "\<lparr>dlURL = ''u'', dlExpiresAt = None\<rparr>" and c' = exClient and later = 9 and mw' = "\<lambda>_. Inl ErrEOF" and hw' = "\<lambda>_. Inl ErrEOF"]]
    by (simp add: fresh_def)
qed

section \<open>The remote reader\<close>

text \<open>
  C23. The read cache is a byte-bounded LRU cache as well: storing a window refines \<open>lru_put\<close>, keeps map, buckets,
  order and counter in step and stays within the limit; and in every state the reader can reach, a hit is the
  requested range of the file, in whatever order the bucket is searched.
\<close>

theorem read_cache:
  assumes "reachable rd_init (rd_step c) r" "sized c"
  shows "(d \<noteq> [] \<and> len d \<le> cacheLimit r \<longrightarrow>
      reads (storeCachedLocked f w d r) = lru_put len (cacheLimit r) (f, w) d (reads r)) \<and>
    rc_ok (storeCachedLocked f w d r) \<and> cacheBytes (storeCachedLocked f w d r) \<le> cacheLimit r \<and>
    ((\<forall>ks. set (rng ks) = set ks) \<and> 0 \<le> off \<and> 0 \<le> n \<and> off + n < 2 ^ 62 \<and> fst (readCachedLocked rng f off n r) = Some x \<longrightarrow>
      x = bslice off (off + n) (c f))"
proof -
  note inv = remote.reachable_inv [OF assms(1)]
  note ok = rd_invD(1) [OF inv]
  show ?thesis
    using storeCached_spec(1) [OF ok, of d "(f, w)"] windows.put_ok [OF ok, of "(f, w)" d]
      windows.put_used_bound [OF ok, of "(f, w)" d] readCached_exact(1) [OF inv assms(2), of rng off n f x]
    by auto
qed

lemma exBytes_sized: "sized exBytes"
  by (simp add: sized_def exBytes_def)

theorem read_cache_witness: "reads (storeCachedLocked ''f'' 2 [3, 4] exR) = [((''f'', 2), [3, 4])]"
  using read_cache [OF exR_reachable exBytes_sized, of "[3, 4]" "''f''" 2]
  by (simp add: exR_simps lru_put_def reads_def)

text \<open>
  C24. With a concurrency of one, a \<open>ReadRange\<close> that succeeds returns exactly the requested bytes of the file, whatever
  other goroutines do in between and however short the window was that it found in the cache or in flight.
\<close>

theorem remote_read_exact:
  assumes "reachable rd_init (rd_step c) r" "sized c" "\<And>ks. set (rng ks) = set ks"
    and "rHasClient r" "concurrency r \<le> 1" "0 \<le> off" "off + n < 2 ^ 62"
    and "RemoteRead.ReadRange c rng f off n r (Inr d) r'"
  shows "d = bslice off (off + n) (c f) \<and> len d = n"
  using ReadRange_sound [OF assms(8) remote.reachable_inv [OF assms(1)] assms(2-7)] .

theorem remote_read_exact_witness: "[1, 2] = bslice 0 2 (exBytes ''f'')"
proof -
  obtain r' where "RemoteRead.ReadRange exBytes id ''f'' 0 2 exR2 (Inr [1, 2]) r'" using ex_hit_read by blast
  from remote_read_exact [OF exR2_reachable exBytes_sized _ _ _ _ _ this] exR2_more show ?thesis by simp
qed

text \<open>
  C25. With more than one worker the same does not hold. While one reader has a shorter read of the last chunk in flight, another
  that needs the whole chunk takes the short data over without a check of its length, and returns, without an
  error, a buffer whose end is zero.
\<close>

theorem concurrent_read_pads:
  "\<exists>r r' d. reachable rd_init (rd_step exBytes) r \<and> sized exBytes \<and> readConcurrent exBytes id ''f'' 0 4 2 r (Inr d) r' \<and>
     d = [1, 2, 3, 0] \<and> bslice 0 4 (exBytes ''f'') = [1, 2, 3, 4]"
proof -
  have "bslice 0 4 (exBytes ''f'') = [1, 2, 3, 4]" by (simp add: bslice_def exBytes_def)
  then show ?thesis using exR_reachable exBytes_sized ex_concurrent by blast
qed

text \<open>
  C26. The layers fit together: what \<open>ReadStreamRange\<close> of the remote reader returns on top of the client's \<open>ReadRange\<close>
  and an honest server is what the stream engine assumes of its reader.
\<close>

theorem stream_reader_contract:
  assumes "\<And>req resp. rangeWire req = Inr resp \<Longrightarrow> honest (content (flFSID (tFile k))) resp"
    and "0 < tLength k" "tOffset k + tLength k < 2 ^ 63" "rHasClient r"
  shows "reader_ok content k (fst (ReadStreamRange
     (fst (BaiduClient.ReadRange metaWire headWire rangeWire now (flFSID (tFile k)) (tOffset k) (tLength k) c))
     (flFSID (tFile k)) (tOffset k) (tLength k) r))"
proof -
  let ?f = "flFSID (tFile k)" and ?off = "tOffset k" and ?n = "tLength k"
  let ?ans = "fst (BaiduClient.ReadRange metaWire headWire rangeWire now ?f ?off ?n c)"
  have "prefix (fst ?ans) (bslice ?off (?off + ?n) (content ?f))" if "snd ?ans = None"
  proof -
    have "BaiduClient.ReadRange metaWire headWire rangeWire now ?f ?off ?n c =
        ((fst ?ans, None), snd (BaiduClient.ReadRange metaWire headWire rangeWire now ?f ?off ?n c))"
      using that by (simp add: prod_eq_iff)
    from ReadRange_exact [OF assms(1) this assms(2,3)]
    have "fst ?ans = bslice ?off (min (?off + ?n) (len (content ?f))) (content ?f)" by simp
    moreover have "bslice ?off (min (?off + ?n) (len (content ?f))) (content ?f) =
        take (nat (min (?off + ?n) (len (content ?f)) - ?off)) (bslice ?off (?off + ?n) (content ?f))"
      by (simp add: bslice_def min_def)
    ultimately show ?thesis by (metis take_is_prefix)
  qed
  then have ok: "answer_ok content ?f ?off ?n ?ans" by (simp add: answer_ok_def)
  show ?thesis
    unfolding reader_ok_def using ReadStreamRange_sound(1) [OF ok assms(4)] by (metis prefix_order.refl prod.collapse)
qed

theorem stream_reader_contract_witness:
  "reader_ok (\<lambda>_. [10, 20, 30]) (emptyTask\<lparr>tFile := exFile, tOffset := 1, tLength := 5\<rparr>) (fst (ReadStreamRange
     (fst (BaiduClient.ReadRange (\<lambda>_. Inl ErrEOF) (\<lambda>_. Inl ErrEOF) (\<lambda>_. Inr exResponse) 0 ''7'' 1 5 exClient)) ''7'' 1 5 (NewReader True)))"
  using stream_reader_contract [of "\<lambda>_. Inr exResponse" "\<lambda>_. [10, 20, 30]" "emptyTask\<lparr>tFile := exFile, tOffset := 1, tLength := 5\<rparr>"
      "NewReader True" "\<lambda>_. Inl ErrEOF" "\<lambda>_. Inl ErrEOF" 0 exClient] exResponse_honest
  by (simp add: NewReader_def)

text \<open>
  C27. A refused request refreshes the token: if the server answers the range request of a streaming read with status 401 or 403,
  the read fails with an error that is classified as an authorisation error, and the reader refreshes the
  token once.
\<close>

theorem refused_read_refreshes:
  assumes "rrStatus resp = 401 \<or> rrStatus resp = 403" "rHasClient r" "f \<noteq> []" "0 < n" "0 \<le> off"
    and "GetDownloadLink metaWire headWire now f c = (Inr l, c')"
  shows "\<exists>e. ReadStreamRange (fst (BaiduClient.ReadRange metaWire headWire (\<lambda>_. Inr resp) now f off n c)) f off n r =
    (([], Some e), r\<lparr>rRefreshes := rRefreshes r + 1\<rparr>) \<and> ClassifyDownloadError (Some e) = DownloadErrorAuth"
proof -
  from refused_is_auth [OF assms(1), of off "i64 (off + n - 1)"] obtain e where
    e: "checkRange off (i64 (off + n - 1)) resp = Inl e" "ClassifyDownloadError (Some e) = DownloadErrorAuth" by blast
  have "fst (BaiduClient.ReadRange metaWire headWire (\<lambda>_. Inr resp) now f off n c) = ([], Some e)"
    using assms(4-6) e(1) by (simp add: BaiduClient.ReadRange_def Let_def)
  with stream_refused_refreshes [OF assms(2) _ e(2), of f n off] assms(3,4) e(2) show ?thesis by (auto simp: checkArgs_def)
qed

theorem refused_read_refreshes_witness:
  "\<exists>e. ReadStreamRange (fst (BaiduClient.ReadRange (\<lambda>_. Inl ErrEOF) (\<lambda>_. Inl ErrEOF) (\<lambda>_. Inr (exResponse\<lparr>rrStatus := 401\<rparr>)) 0 ''7'' 1 5 exClient))
     ''7'' 1 5 (NewReader True) = (([], Some e), (NewReader True)\<lparr>rRefreshes := 1\<rparr>)"
proof -
  have "GetDownloadLink (\<lambda>_. Inl ErrEOF) (\<lambda>_. Inl ErrEOF) 0 ''7'' exClient = (Inr \<lparr>dlURL = ''u'', dlExpiresAt = None\<rparr>, exClient)"
    by (rule cached_fresh) (simp_all add: exClient_def fresh_def)
  from refused_read_refreshes [OF _ _ _ _ _ this, of "exResponse\<lparr>rrStatus := 401\<rparr>" "NewReader True" 5 1] show ?thesis
    by (auto simp: NewReader_def)
qed

section \<open>The metadata store and the file system\<close>

text \<open>
  C28. The metadata store is a map from paths to entries. An upsert, the replacement of the children of a directory and a
  deletion that succeed change it as the map would be changed, one that fails, at whichever call of the driver,
  changes nothing, and \<open>GetByPath\<close> reads the map.
\<close>

theorem metadata_is_map:
  assumes "store_ok s"
  shows "(fst (UpsertEntry env e s) = None \<longrightarrow> fileAt (snd (UpsertEntry env e s)) = (fileAt s)(ePath e \<mapsto> erase e)) \<and>
    (fst (ReplaceChildren env pid es s) = None \<longrightarrow> fileAt (snd (ReplaceChildren env pid es s)) =
       (\<lambda>p. Option.bind (fileAt s p) (\<lambda>e. if eParent e = pid then None else Some e))
         ++ map_of (rev (map (\<lambda>e. (ePath e, erase e)) es))) \<and>
    (fst (DeletePath env p s) = None \<longrightarrow> fileAt (snd (DeletePath env p s)) =
       (\<lambda>q. if q = p \<or> like (childPattern p) q then None else fileAt s q)) \<and>
    (fst (UpsertEntry env e s) \<noteq> None \<longrightarrow> snd (UpsertEntry env e s) = s) \<and>
    (fst (ReplaceChildren env pid es s) \<noteq> None \<longrightarrow> snd (ReplaceChildren env pid es s) = s) \<and>
    (fst (DeletePath env p s) \<noteq> None \<longrightarrow> snd (DeletePath env p s) = s) \<and>
    (snd (GetByPath env p s) = None \<longrightarrow> map_option erase (fst (GetByPath env p s)) = fileAt s p)"
proof (intro conjI impI)
  assume "snd (GetByPath env p s) = None"
  then show "map_option erase (fst (GetByPath env p s)) = fileAt s p"
    using openDB_cases [of "''store is nil''" s]
    by (auto simp: GetByPath_def fileAt_table entryAt_def option.map_comp comp_def split: option.splits)
qed (use assms in \<open>simp_all add: UpsertEntry_map ReplaceChildren_map DeletePath_gone fun_eq_iff
      changes_fail [OF UpsertEntry_changes] changes_fail [OF ReplaceChildren_changes] changes_fail [OF DeletePath_changes]\<close>)

theorem metadata_is_map_witness:
  "fileAt (snd (UpsertEntry quietDB exChild exDB)) ''/a'' = Some (erase exChild)"
proof -
  have "fst (UpsertEntry quietDB exChild exDB) = None"
    by (simp add: UpsertEntry_def execOne_def)
  with metadata_is_map [OF exDB_ok(1), of quietDB exChild] show ?thesis by simp
qed

text \<open>
  C29. After a refresh of the root that succeeded, a listing of the root shows exactly what the remote side listed,
  one entry per remote entry, in the order of the names, provided that the paths it listed are distinct and none is the root.
\<close>

theorem refresh_shows_remote:
  assumes "store_ok (fsStore f)" "fsStore f \<noteq> None" "fsRemote f = Some r" "refreshRoot w f = (None, g)"
    and "fst (remoteList w r (rootPath f) f) = Inr es"
    and "distinct (map ePath (map (rootChild (clock w (tick f)) f) es))"
    and "rootPath f \<notin> ePath ` rootChild (clock w (tick f)) f ` set es"
    and "ListChildren env (rootPath f) (fsStore g) = (cs, None)"
  shows "mset (map erase cs) = mset (map (rootChild (clock w (tick f)) f) es) \<and> sorted (map eName cs)"
  by (rule refreshRoot_shows [OF assms])

theorem refresh_shows_remote_witness:
  "mset (map erase [exChild\<lparr>eID := 1\<rparr>]) = mset (map (rootChild 0 exFs) [exRemote])"
proof -
  have l: "fst (remoteList exWorld (NewReader True) (rootPath exFs) exFs) = Inr [exRemote]"
    by (simp add: remoteList_def NewReader_def)
  have c: "rootChild (clock exWorld (tick exFs)) exFs exRemote = exChild" by (simp add: exChild_def)
  show ?thesis
    using refresh_shows_remote [OF _ _ _ ex_refresh(1) l _ _ ex_listing [folded exFs_sel(4)]] c by (simp add: exDB_def store_ok_def tableOf_def)
qed

text \<open>
  C30. Deleting through the mount. Whatever a deletion does to the remote side or the metadata, it was enabled, and the one path
  passed to the client is that of a listed child with the given name and the kind asked for, never the root. After
  success no entry at or below that path is left in the store, and every entry is as before that its pattern, the path
  with \<open>/%\<close> under SQL \<open>like\<close>, does not match: where the path has no wildcard of its own, these are all entries but those
  at the path and those below it up to the case of ASCII letters. (With a wildcard, or with letters that differ in case,
  the pattern does reach entries elsewhere.) After a failure the store is as before.
\<close>

theorem delete_exact_child:
  assumes "store_ok (fsStore f)" "fsRemote f = Some r" "rHasClient r" "deleteChild w p name wantDir f = (res, g)"
    and "fsDeleted g \<noteq> fsDeleted f \<or> fsStore g \<noteq> fsStore f \<or> res = EOK"
  shows "\<exists>t cs. enableDelete f \<and> ListChildren (atDB (w (fsTick f))) p (fsStore f) = (cs, None) \<and> t \<in> set cs \<and>
    eName t = name \<and> eIsDir t = wantDir \<and> ePath t \<notin> {[], ''/'', rootPath f} \<and> fsDeleted g = fsDeleted f @ [ePath t] \<and>
    (res = EOK \<and> (\<forall>q. q = ePath t \<or> prefix (TrimRight (ePath t) CHR ''/'' @ ''/'') q \<longrightarrow> fileAt (fsStore g) q = None) \<and>
       (\<forall>q. q \<noteq> ePath t \<and> \<not> like (childPattern (ePath t)) q \<longrightarrow> fileAt (fsStore g) q = fileAt (fsStore f) q) \<and>
       (CHR ''%'' \<notin> set (ePath t) \<and> CHR ''_'' \<notin> set (ePath t) \<longrightarrow>
          (\<forall>q. q \<noteq> ePath t \<and> \<not> prefix (map asciiFold (TrimRight (ePath t) CHR ''/'' @ ''/'')) (map asciiFold q) \<longrightarrow>
               fileAt (fsStore g) q = fileAt (fsStore f) q)) \<or>
     res = EIO \<and> fsStore g = fsStore f)"
  unfolding subtree_deleted_def [symmetric] by (rule deleteChild_effect [OF assms]) blast

theorem delete_exact_child_witness:
  "\<exists>g. deleteChild exWorld ''/'' ''a'' False exFs1 = (EOK, g) \<and> fsDeleted g = [''/a''] \<and>
     (\<exists>t :: MetaStore.Entry. ePath t = ''/a'' \<and> fileAt (fsStore g) (ePath t) = None) \<and>
     fileAt (fsStore g) ''/'' = fileAt (fsStore exFs1) ''/''"
proof -
  obtain g where g: "deleteChild exWorld ''/'' ''a'' False exFs1 = (EOK, g)" "fsDeleted g = [''/a'']"
    using ex_delete by (auto simp: Unlink_def)
  have "rHasClient (NewReader True)" by (simp add: NewReader_def)
  from delete_exact_child [OF exFs1_sel(6,1) this g(1) disjI2 [OF disjI2 [OF refl]]]
  obtain t :: MetaStore.Entry where t: "fsDeleted g = fsDeleted exFs1 @ [ePath t]"
    and "EOK = EOK \<and> subtree_deleted (ePath t) (fsStore exFs1) (fsStore g) \<or> EOK = EIO \<and> fsStore g = fsStore exFs1"
    unfolding subtree_deleted_def [symmetric] by (elim exE conjE) (rule that)
  then have gone: "subtree_deleted (ePath t) (fsStore exFs1) (fsStore g)" by simp
  have p: "ePath t = ''/a''" using g(2) t by simp
  have "\<not> like (childPattern ''/a'') ''/''" by code_simp
  then have "fileAt (fsStore g) (ePath t) = None" "fileAt (fsStore g) ''/'' = fileAt (fsStore exFs1) ''/''"
    using gone unfolding subtree_deleted_def p by simp_all
  then show ?thesis using g p by blast
qed

text \<open>
  C31. A full refresh ends. If the store and the listings only name paths of a finite set, a recursion depth of one more than
  its size is enough, although the recursion follows what the remote side answers, cycles included.
\<close>

theorem refresh_terminates:
  assumes "store_ok (fsStore f)" "dom (fileAt (fsStore f)) \<subseteq> U" "listed_in U (rootPath f) w" "finite U" "card U < fuel"
  shows "\<exists>e g. RefreshAll w fuel f = Some (e, g)"
  by (rule RefreshAll_total [OF assms]) blast

theorem refresh_terminates_witness: "\<exists>e g. RefreshAll exWorld 3 exFs = Some (e, g)"
proof (rule refresh_terminates [where U = "{''/'', ''/a''}"])
  show "dom (fileAt (fsStore exFs)) \<subseteq> {''/'', ''/a''}" by (auto simp: fileAt_def entryAt_def selectByPath_def)
  show "listed_in {''/'', ''/a''} (rootPath exFs) exWorld" by (auto simp: listed_in_def exPath) (simp add: exRemote_def)
qed simp_all

text \<open>
  C32. Reading through the mount. In reachable states of the engine and of the reader, a \<open>Read\<close> that succeeds returns exactly the
  bytes of the remote file in the range, clipped at its size. Through a handle that was opened while there is a stream
  manager, and every such handle reads through the manager, this holds whatever the download concurrency is. A read
  through a handle without one, or through none, goes to the remote reader directly; for these the download
  concurrency is assumed to be one, since with more than one worker that reader does pad short data (C25).
\<close>

theorem file_read_exact:
  assumes "entryRead c rng e h off n f (Inr d) h' g" "fsRemote f = Some r" "reachable rd_init (rd_step c) r"
    and "rHasClient r" "\<not> streamed h \<Longrightarrow> concurrency r \<le> 1"
    and "sized c" "\<And>ks. set (rng ks) = set ks" "known c (streamFile e)" "0 \<le> off" "0 \<le> n" "off + n < 2 ^ 62"
    and "\<And>s. fsStream f = Some s \<Longrightarrow> reachable (sys_init c) (sys_step c) s"
    and "\<And>h0 sh. h = Some h0 \<Longrightarrow> streamHandle h0 = Some sh \<Longrightarrow> hFile sh = streamFile e"
  shows "d = expected c (streamFile e) off n \<and>
    (\<forall>now e0 f0 h0 flags g0. fsStream f0 \<noteq> None \<and> entryOpen now e0 f0 = (Inr (h0, flags), g0) \<longrightarrow> streamed (Some h0))"
proof
  show "d = expected c (streamFile e) off n"
    by (rule entryRead_exact [OF assms(1,2) remote.reachable_inv [OF assms(3)] assms(4-11) engine.reachable_inv [OF assms(12)] assms(13)])
qed (use entryOpen_streamed in blast)

theorem file_read_exact_witness: "expected exContent (streamFile exChild) 1 2 = [1, 2]"
proof -
  let ?h = "\<lparr>lastStrategy = [], streamHandle = Some exHandle\<rparr>"
  have fl: "streamFile exChild = exFile" by (simp add: streamFile_def exFile_def)
  have r: "reachable rd_init (rd_step exContent) (NewReader True)" "rHasClient (NewReader True)"
    by (auto intro!: reach_init simp: rd_init_def NewReader_def)
  have s: "streamed (Some ?h)" by (simp add: streamed_def)
  have hf: "hFile sh = streamFile exChild" if "Some ?h = Some h0" "streamHandle h0 = Some sh" for h0 sh
    using that by (auto simp: fl exHandle_def newHandle_def)
  have st: "reachable (sys_init exContent) (sys_step exContent) s" if "fsStream exFs = Some s" for s
    using that ex_reachable by simp
  obtain h g where "entryRead exContent id exChild (Some ?h) 1 2 exFs (Inr [1, 2]) h g"
    using ex_fs_read by blast
  from file_read_exact [OF this exFs_sel(2) r _ ex_sized _ _ _ _ _ st hf] s ex_known
  show ?thesis by (simp add: fl)
qed

section \<open>The playback proxy\<close>

text \<open>
  C33. Serving a file over HTTP. The range served is the one asked for: no header asks for the whole file, \<open>bytes=a-b\<close> for
  the bytes from \<open>a\<close> to \<open>b\<close>, \<open>bytes=a-\<close> for those from \<open>a\<close> on and \<open>bytes=-n\<close> for the last \<open>n\<close>; a start past the end is
  answered with status 416, a reversed or empty range with 400. For an accepted range, of these forms or another, the
  bytes sent are the bytes of the file in that range, or a beginning of them after an error, the range lies in the file,
  and the headers state the length and the range of the body. The bytes come from the remote reader, each answer from a
  \<open>ReadRange\<close> in a reachable state with a download concurrency of one (with more, see C25).
\<close>

theorem playback_exact:
  fixes c :: content and f :: string and req :: playRequest and name :: string and typeOf :: "string \<Rightarrow> string"
    and rd :: "nat \<Rightarrow> int \<Rightarrow> int \<Rightarrow> goerr + bytes" and wr :: "nat \<Rightarrow> goerr option"
  defines "X \<equiv> c f"
  defines "resp \<equiv> servePlaybackFile True typeOf rd wr req name (len X)"
  assumes "remoteAnswers c rng f rd" "sized c" "\<And>ks. set (rng ks) = set ks" "prMethod req = ''GET''"
  shows "(\<forall>q. ask_ok q \<and> prRange req = askHeader q \<longrightarrow>
      parseHTTPRange (prRange req) (len X) = askAnswer (len X) q \<and>
      (askAnswer (len X) q = Inl NotSatisfiable \<longrightarrow> rsStatus resp = 416) \<and>
      (\<forall>msg. askAnswer (len X) q = Inl (BadRange msg) \<longrightarrow> rsStatus resp = 400)) \<and>
    (\<forall>a b p. parseHTTPRange (prRange req) (len X) = Inr (a, b, p) \<longrightarrow>
      0 \<le> a \<and> b < len X \<and> a \<le> b + 1 \<and> (b < a \<longrightarrow> X = []) \<and> prefix (rsBody resp) (bslice a (b + 1) X) \<and>
      rsStatus resp = (if p then 206 else 200) \<and> rsHeader resp ''Content-Length'' = Some (FormatInt (b - a + 1)) \<and>
      (p \<longrightarrow> rsHeader resp ''Content-Range'' = Some (''bytes '' @ FormatInt a @ ''-'' @ FormatInt b @ ''/'' @ FormatInt (len X))) \<and>
      (snd (writePlaybackRange rd wr (len X) a b) = None \<longrightarrow> rsBody resp = bslice a (b + 1) X \<and> len (rsBody resp) = b - a + 1))"
proof -
  have rd: "exactReader X rd" unfolding X_def by (rule remoteAnswers_exact [OF assms(3-5)])
  have "len X < 2 ^ 62" using assms(4) by (simp add: X_def sized_def)
  then have served: "served typeOf rd wr req name X a b p" if "parseHTTPRange (prRange req) (len X) = Inr (a, b, p)" for a b p
    by (rule servePlaybackFile_exact [OF rd _ assms(6) that])
  have refused: "rsStatus resp = (if e = NotSatisfiable then 416 else 400)" if "parseHTTPRange (prRange req) (len X) = Inl e" for e
    unfolding resp_def by (rule servePlaybackFile_refused [OF assms(6) that])
  have asked: "parseHTTPRange (prRange req) (len X) = askAnswer (len X) q" if "ask_ok q \<and> prRange req = askHeader q" for q
    using parseHTTPRange_ask [of q "len X"] that by simp
  show ?thesis using served asked refused unfolding served_def resp_def [symmetric] by force
qed

theorem playback_exact_witness:
  "rsBody (servePlaybackFile True (\<lambda>_. []) (\<lambda>i off n. if off = 0 \<and> n = 2 then Inr [1, 2] else Inl ErrEOF) (\<lambda>_. None)
     \<lparr>prMethod = ''GET'', prPath = ''/'', prRange = ''bytes=0-1''\<rparr> ''a'' (len (exBytes ''f''))) = [1, 2]"
proof -
  let ?rd = "\<lambda>(i :: nat) (off :: int) (n :: int). if off = 0 \<and> n = 2 then Inr [1, 2 :: byte] else Inl ErrEOF"
  let ?req = "\<lparr>prMethod = ''GET'', prPath = ''/'', prRange = ''bytes=0-1''\<rparr>"
  have r: "remoteAnswers exBytes id ''f'' ?rd"
    using ex_hit_read exR2_reachable exR2_more by (fastforce simp: remoteAnswers_def split: if_splits)
  have x: "len (exBytes ''f'') = 4" "bslice 0 2 (exBytes ''f'') = [1, 2]" by (simp_all add: exBytes_def bslice_def)
  have q: "ask_ok (AskSlice 0 1) \<and> prRange ?req = askHeader (AskSlice 0 1)"
    by (simp only: askHeader.simps) code_simp
  have w: "snd (writePlaybackRange ?rd (\<lambda>_. None) 4 0 1) = None"
    by (simp add: writePlaybackRange_def playLoop.simps [of _ _ _ _ 0] playLoop.simps [of _ _ _ _ "Suc 0"] i64_def)
  have g: "prMethod ?req = ''GET''" by simp
  have rng: "set (id ks) = set ks" for ks :: "cacheKey list" by simp
  note exact = playback_exact [OF r exBytes_sized rng g, of "\<lambda>_. []" "\<lambda>_. None" "''a''", unfolded x(1)]
  have "parseHTTPRange (prRange ?req) 4 = askAnswer 4 (AskSlice 0 1)" using conjunct1 [OF exact] q by blast
  then have p: "parseHTTPRange (prRange ?req) 4 = Inr (0, 1, True)" by simp
  show ?thesis using conjunct2 [OF exact, rule_format, OF p] w x by simp
qed

section \<open>The running application\<close>

text \<open>
  C34. Nothing is mounted without a token of the user. When \<open>run\<close> reaches the mount, the client it bound uses the token that the token
  file now holds. Either that token was there before and listed the remote root, or it was exchanged for a code that the
  callback flow of this run handed out; and among the events of that very flow is a request to the callback with this code
  and the state of this run, answered with status 200. A token that a client refreshes later and saves through its
  callback is the one the next start loads.
\<close>

theorem run_mounts_with_token:
  assumes "runUntilMount env a fs = (Inr (c, b), fs')" "flow_ok env" "codec_ok env"
    and "svTemp (reSave env) \<noteq> TokenPath (apCfg a)" "osResult (apOAuth a) = None"
  shows "(\<exists>t. loadToken env b fs' = Inr t \<and> c = clientFactory (apCfg b) t \<and> apCfg b = apCfg a \<and>
    (fs' = fs \<and> remoteHealthCheck env c a = None \<or>
     (\<exists>code es srv. reFlow env ((apOAuth a)\<lparr>osStarted := True\<rparr>) = (Inl (Inr code), es, srv) \<and> code \<noteq> [] \<and>
        Callback (oaState (osCfg (apOAuth a))) code 200 \<in> set es \<and> reExchange env (oauthConfigOf (apCfg a)) code = Inr t))) \<and>
    (\<forall>access refresh fs1 fs2. saveRefreshedToken env b access refresh fs1 = (None, fs2) \<longrightarrow>
      loadToken env b fs2 = Inr \<lparr>tkAccess = access, tkRefresh = refresh\<rparr>)"
proof -
  have "svTemp (reSave env) \<noteq> TokenPath (apCfg b)" using runUntilMount_token [OF assms] assms(4) by auto
  from saveRefreshedToken_loads [OF _ assms(3) this] show ?thesis
    using runUntilMount_token [OF assms] by (simp add: fresh_token_def)
qed

theorem run_mounts_with_token_witness:
  "\<exists>c b fs' t. runUntilMount exRun (exApp (newMgr exCfg exStore)) Map.empty = (Inr (c, b), fs') \<and> fs' ''/t'' = Some ''c'' \<and>
     loadToken exRun b fs' = Inr t"
proof -
  obtain c b fs' where r: "runUntilMount exRun (exApp (newMgr exCfg exStore)) Map.empty = (Inr (c, b), fs')" "fs' ''/t'' = Some ''c''"
    using ex_first_start by blast
  have "osResult (apOAuth (exApp (newMgr exCfg exStore))) = None" by (simp add: exApp_def NewOAuthServer_def)
  from run_mounts_with_token [OF r(1) exFlow_ok ex_codec ex_token_path this] r show ?thesis by blast
qed

text \<open>
  C35. The end of a mount. However the main thread, the goroutine that waits for the context, and any number of calls of \<open>Close\<close>
  interleave, with each other, with a cancelled context and with somebody who unmounts from outside, \<open>Unmount\<close> is called at most
  once and engine and store are closed at most once; when all calls of \<open>Close\<close> have returned they have been closed. A
  \<open>Close\<close> that begins after the server was published has, when it is done, stopped the refresh loop, and \<open>Unmount\<close> was
  called, by it or another, or a thread that took the server before it is about to. The main thread returns only when the mount is gone and the refresh loop over. It does return: once the context is
  done, and unless a call of \<open>Unmount\<close> has failed, the main thread, the goroutine or a \<open>Close\<close> under way has a step until
  main thread and goroutine have returned; a call of \<open>Close\<close> that has not returned never waits for nothing; and no
  run goes on for ever. A call of \<open>Unmount\<close> that fails is not tried again: from then on, until somebody unmounts
  from outside, the main thread waits for the server, which the application has forgotten.
\<close>

theorem unmounted_and_closed_once:
  assumes "life_next\<^sup>*\<^sup>* (lifeStart n) s"
  shows "lfUnmounts s \<le> 1 \<and> lfStreamCloses s \<le> 1 \<and> lfStoreCloses s \<le> 1 \<and>
    (closers_done s \<and> lfClosers s \<noteq> [] \<longrightarrow> lfStreamCloses s = 1 \<and> lfStoreCloses s = 1 \<and> lfOAuthDown s) \<and>
    (\<forall>t. lfWatch s \<noteq> WOff \<and> lfOnce s = OnceFresh \<and> life_next\<^sup>*\<^sup>* s t \<and> lfOnce t = OnceDone \<longrightarrow>
       \<not> lfServer t \<and> \<not> lfRefreshLoop t \<and> (lfUnmounts t = 1 \<or> lfMain t = MCall \<or> lfWatch t = WCall)) \<and>
    (mount_ended s \<and> lfWatch s \<noteq> WOff \<longrightarrow> lfGone s \<and> \<not> lfRefreshLoop s \<and> (closers_done s \<longrightarrow> lfUnmounts s = 1)) \<and>
    (lfCtxDone s \<and> \<not> lfFailed s \<and> \<not> mount_ended s \<longrightarrow> (\<exists>a t. mount_actor s a \<and> life_step a s t)) \<and>
    (\<not> closers_done s \<longrightarrow> (\<exists>i t. life_step (Closer i) s t)) \<and>
    (lfFailed s \<and> \<not> lfGone s \<longrightarrow> lfMain s = MServing \<and> \<not> lfServer s \<and> lfUnmounts s = 1) \<and>
    \<not> (\<exists>f. f 0 = s \<and> (\<forall>n. life_next (f n) (f (Suc n))))"
proof -
  have inv: "life_inv s" using lifecycle.steps_inv [OF assms life_inv_start] .
  then have m: "mount_inv s" and o: "once_inv s" by (simp_all add: life_inv_def)
  have "count_list (lfClosers s) CCall = 0" if "closers_done s"
    using that by (auto simp: closers_done_def intro: count_notin)
  then have ended: "mount_ended s \<and> lfWatch s \<noteq> WOff \<longrightarrow> lfGone s \<and> \<not> lfRefreshLoop s \<and> (closers_done s \<longrightarrow> lfUnmounts s = 1)"
    using unmounted_once(2,3) [OF m] by auto
  have failed: "lfFailed s \<and> \<not> lfGone s \<longrightarrow> lfMain s = MServing \<and> \<not> lfServer s \<and> lfUnmounts s = 1"
    using unmounted_once(4) [OF m] by blast
  show ?thesis
    using unmounted_once(1) [OF m] closed_once [OF o] ended failed mount_progress [OF m] close_progress [OF o]
      close_shuts [OF inv] lifecycle.no_infinite_run [OF inv]
    by (intro conjI) (assumption | simp only: | blast)+
qed

theorem unmounted_and_closed_once_witness: "lfUnmounts exLifeEnd = 1 \<and> lfStreamCloses exLifeEnd = 1 \<and> lfGone exLifeEnd"
proof -
  have "lfWatch exLifeEnd \<noteq> WOff" "lfClosers exLifeEnd \<noteq> []" by (simp_all add: exLifeEnd_def)
  then show ?thesis using unmounted_and_closed_once [OF ex_life(1)] ex_life(2,3) by blast
qed

section \<open>Paths and measurements\<close>

text \<open>
  C36. A path from the command line never leaves the remote root: whatever text is given, with dots, without a slash or already
  below the root, the path that is used is the root extended by proper elements. The entry it is resolved to is the one at
  this path: it was listed in the directory above, under this name, and has an id.
\<close>

theorem path_stays_in_root:
  fixes r p ls
  defines "root \<equiv> normalizeRemoteRootPath r"
  shows "\<exists>rs ds. elems_ok (rs @ ds) \<and> root = rooted rs \<and> benchmarkRemotePath root p = rooted (rs @ ds) \<and>
    (\<forall>e. resolveRemoteEntry ls root (benchmarkRemotePath root p) = Inr e \<longrightarrow>
       eiFullPath e = rooted (rs @ ds) \<and> listed_at ls (rs @ ds) e \<and> eiFSID e \<noteq> [])"
proof -
  have ok: "root_ok root" unfolding root_def by (rule normalizeRemoteRootPath_ok)
  then obtain rs where rs: "elems_ok rs" "root = rooted rs" by (auto simp: root_ok_def)
  obtain ds where ds: "benchmarkRemotePath root p = rooted (rs @ ds)" "elems_ok ds"
    using benchmarkRemotePath_elems [OF rs(1), of p] rs(2) by metis
  have "eiFullPath e = rooted (rs @ ds) \<and> listed_at ls (rs @ ds) e \<and> eiFSID e \<noteq> []"
    if "resolveRemoteEntry ls root (benchmarkRemotePath root p) = Inr e" for e
    using resolve_exact [OF ok that] rooted_inj [of _ "rs @ ds"] rs(1) ds by (metis elems_ok_simps(2))
  then show ?thesis using rs ds by (intro exI [of _ rs] exI [of _ ds]) simp
qed

theorem path_stays_in_root_witness:
  "resolveRemoteEntry exLister ''/V'' (benchmarkRemotePath ''/V'' ''a'') = Inr (foundEntry ''/V'' exEntry) \<and>
   eiFullPath (foundEntry ''/V'' exEntry) = ''/V/a''"
proof -
  have "resolveRemoteEntry exLister ''/V'' (benchmarkRemotePath ''/V'' ''a'') = Inr (foundEntry ''/V'' exEntry)"
    by (simp only: ex_resolve)
  then show ?thesis using path_stays_in_root [where r = "''V''" and p = "''a''" and ls = exLister] by (auto simp only: ex_resolve)
qed

text \<open>
  C37. The stream benchmark returns once the clock passes its deadline, and its report is consistent: warm-up and steady stalls add up to
  the stalls, of which there are no more than reads; the percentiles of the latencies are in order, the longest stall
  lies between their 95th percentile and their sum; each read took one sample of the buffer, whose least is at most its
  greatest; counters are not negative. A percentile is a sample that so many per cent of the samples do not exceed, and
  fewer are less.
\<close>

theorem bench_report:
  "(bwStart w + duration \<le> itNow (bwIterations w n) \<longrightarrow> benchmarkStream w low fsize bitrate duration seekInterval step \<noteq> None) \<and>
   (benchmarkStream w low fsize bitrate duration seekInterval step = Some (Inr r) \<longrightarrow>
      sbStalls r = sbWarmupStalls r + sbSteadyStalls r \<and> sbStalls r \<le> sbReadSamples r \<and>
      sbReadP50 r \<le> sbReadP95 r \<and> sbReadP95 r \<le> sbReadP99 r \<and> sbReadP99 r \<le> sbReadMax r \<and>
      sbStallP95 r \<le> sbStallMax r \<and> sbStallMax r \<le> sbStallTotal r \<and>
      sbBufferSamples r = sbReadSamples r \<and> (0 < sbBufferSamples r \<longrightarrow> sbBufferMin r \<le> sbBufferMax r) \<and>
      sbBufferLowCount r \<le> sbBufferSamples r \<and> sbBufferZeroCount r \<le> sbBufferSamples r \<and>
      0 \<le> sbBytes r \<and> 0 \<le> sbRemoteDownloaded r \<and> 0 \<le> sbRetries r \<and> 0 \<le> sbHedges r) \<and>
   (vs \<noteq> [] \<and> 0 < p \<and> p \<le> 100 \<longrightarrow>
      durationPercentile vs p \<in> set vs \<and> len vs * p \<le> 100 * len (filter (\<lambda>v. v \<le> durationPercentile vs p) vs) \<and>
      100 * len (filter (\<lambda>v. v < durationPercentile vs p) vs) < len vs * p)"
  using benchmarkStream_returns benchmarkStream_report percentile_nearest_rank [of vs p] unfolding report_ok_def by blast

theorem bench_report_witness:
  "\<exists>r. benchmarkStream exBench 4 5 100 1000 0 10 = Some (Inr r) \<and> sbBytes r = 2 \<and> sbStalls r \<le> 1 \<and> sbBufferMin r \<le> sbBufferMax r"
proof -
  obtain r where r: "benchmarkStream exBench 4 5 100 1000 0 10 = Some (Inr r)" "sbBytes r = 2" "sbReadSamples r = 1"
    using ex_bench by blast
  then show ?thesis
    using bench_report [of exBench 1000 0 4 5 100 0 10 r "[1]" 50] by auto
qed

section \<open>Direct downloads\<close>

text \<open>
  C38. A direct download that succeeds has read every byte it reports, once. However the workers interleave, a run without an error has
  downloaded each chunk exactly once, the chunks tile the bytes of the result, and each download that returned no error got, within the
  allowed retries, an answer with status 206 and exactly the bytes asked for over the protocol asked for. A run that
  fails with a download's error reports the failure that came first of all, which is not one that stopping the others
  caused, and one without any such failure ran out of time.
\<close>

theorem direct_download_covers:
  assumes "prepareDirectDownload lib wire opts = Inr (j, fileSize, ps)"
    and "jbBytes j + doChunkSize (jbOptions j) + 128 \<le> 2 ^ 63"
    and "(bench_step j)\<^sup>*\<^sup>* (benchStart j) s" "allExited s"
  shows "(case benchResult j fileSize ps elapsed s of
      Inr r \<Rightarrow> dbBytes r = jbBytes j \<and> mset (bnFinished s) = mset [0..countOf j - 1] \<and>
        (\<forall>b. 0 \<le> b \<and> b < dbBytes r \<longrightarrow>
          (\<exists>!k. k \<in> set (bnFinished s) \<and> directOffset j k \<le> b \<and> b < directOffset j k + directLength j k)) \<and>
        dbRangeRequests r = countOf j + dbRetries r
    | Inl e \<Rightarrow> e = TimedOut \<and> bnExpired s \<and> bnFailures s = [] \<or>
        (\<exists>x xs. bnFailures s = x # xs \<and> e = BadDownload x \<and> (bnExpired s \<or> real_error x))) \<and>
    (\<forall>w k u st. downloadChunk w j k u = (None, st) \<longrightarrow>
      (\<exists>a resp. 0 \<le> a \<and> a \<le> doRetries (jbOptions j) \<and>
        xcResult (rwWire w a (directRequest (jbURL j) (jbOptions j) (directOffset j k) (directLength j k))) = Answered resp \<and>
        exact_answer (jbOptions j) (directOffset j k) (directLength j k) resp))"
proof
  have j: "job_ok j" by (rule prepare_job_ok [OF assms(1,2)])
  have inv: "bench_inv j s" using workers.steps_inv [OF assms(3)] j bench_inv_start by blast
  show "case benchResult j fileSize ps elapsed s of
      Inr r \<Rightarrow> dbBytes r = jbBytes j \<and> mset (bnFinished s) = mset [0..countOf j - 1] \<and>
        (\<forall>b. 0 \<le> b \<and> b < dbBytes r \<longrightarrow>
          (\<exists>!k. k \<in> set (bnFinished s) \<and> directOffset j k \<le> b \<and> b < directOffset j k + directLength j k)) \<and>
        dbRangeRequests r = countOf j + dbRetries r
    | Inl e \<Rightarrow> e = TimedOut \<and> bnExpired s \<and> bnFailures s = [] \<or>
        (\<exists>x xs. bnFailures s = x # xs \<and> e = BadDownload x \<and> (bnExpired s \<or> real_error x))"
  proof (cases "bnFirstErr s")
    case None
    note c = ended_clean [OF j inv assms(4) None]
    have nf: "bnFailures s = []" using inv None by (simp add: bench_inv_def split: list.splits)
    have "set (bnFinished s) = {0..countOf j - 1}" using c(1) by (metis set_mset_mset upTo_def set_upto)
    then have k: "k \<in> set (bnFinished s) \<longleftrightarrow> 0 \<le> k \<and> k < countOf j" for k by auto
    show ?thesis
      using c(2) chunks_tile [OF j] by (auto simp: benchResult_def None c(1) nf upTo_def k snapshot_def conj_assoc)
  next
    case (Some e)
    then obtain es where "bnFailures s = e # es" using inv by (auto simp: bench_inv_def split: list.splits)
    then show ?thesis using inv Some by (auto simp: benchResult_def bench_inv_def)
  qed
  have "0 \<le> doRetries (jbOptions j)" using j by (simp add: job_ok_def)
  then show "\<forall>w k u st. downloadChunk w j k u = (None, st) \<longrightarrow>
      (\<exists>a resp. 0 \<le> a \<and> a \<le> doRetries (jbOptions j) \<and>
        xcResult (rwWire w a (directRequest (jbURL j) (jbOptions j) (directOffset j k) (directLength j k))) = Answered resp \<and>
        exact_answer (jbOptions j) (directOffset j k) (directLength j k) resp)"
    using retryFrom_ok unfolding downloadChunk_def downloadRangeWithRetry_def by (metis order_refl)
qed

theorem direct_download_covers_witness: "mset (bnFinished exEnded) = {#0#} \<and> (\<exists>!k. k \<in> set (bnFinished exEnded) \<and> directOffset exJob k \<le> 0)"
proof -
  have r: "\<exists>r. benchResult exJob 5 exDirectStats 0 exEnded = Inr r \<and> dbBytes r = 1"
    by (simp add: benchResult_def exEnded_def benchStart_def snapshot_def exJob_def)
  then show ?thesis
    using direct_download_covers [OF ex_prepare ex_bound ex_run, of 0] by (auto simp: exEnded_def ex_count ex_offset)
qed

text \<open>
  C39. A direct download ends: as long as a worker has not returned there is a step, whatever the server does, and
  no run of the workers goes on for ever.
\<close>

theorem direct_download_ends:
  assumes "prepareDirectDownload lib wire opts = Inr (j, fileSize, ps)"
    and "jbBytes j + doChunkSize (jbOptions j) + 128 \<le> 2 ^ 63" "(bench_step j)\<^sup>*\<^sup>* (benchStart j) s"
  shows "(allExited s \<or> (\<exists>t. bench_step j s t)) \<and> \<not> (\<exists>f. f 0 = s \<and> (\<forall>n. bench_step j (f n) (f (Suc n))))"
proof -
  have j: "job_ok j" by (rule prepare_job_ok [OF assms(1,2)])
  then have "job_ok j \<and> bench_inv j s" using workers.steps_inv [OF assms(3)] bench_inv_start by blast
  then show ?thesis using workers.no_infinite_run bench_progress by blast
qed

theorem direct_download_ends_witness: "\<not> (\<exists>f. f 0 = exEnded \<and> (\<forall>n. bench_step exJob (f n) (f (Suc n))))"
  using direct_download_ends [OF ex_prepare ex_bound ex_run(1)] by blast



end
